(* ===== verification/Cppio_Prelude.thy ===== *)
theory Cppio_Prelude
  imports Main "HOL-Library.Word"
begin

text \<open>
  Shared vocabulary of the development: the machine types the sources use
  (bytes, \<^verbatim>\<open>size_t\<close>, \<^verbatim>\<open>ssize_t\<close>, \<^verbatim>\<open>int\<close>), failures as values (C++ exceptions and the
  undefined behaviour of an out-of-bounds access), the two memory accesses the sources perform
  (\<^verbatim>\<open>memcpy\<close> out of and into a byte array), little-endian integers, and the error codes of
  include/cppio/errors.h.

  A \<^verbatim>\<open>size_t\<close> is a natural number below \<open>size_modulus = 2 ^ 64\<close>; its
  additions and subtractions are written with \<open>sz_add\<close> and \<open>sz_sub\<close>, which wrap
  around. An \<^verbatim>\<open>ssize_t\<close> or an \<^verbatim>\<open>int\<close> is an integer, and every conversion that the
  sources perform implicitly is a call of \<open>to_ssize\<close> or \<open>to_int32\<close>.
\<close>

named_theorems size_arith \<open>facts about wrap-around arithmetic on size_t\<close>
named_theorems mem_simps \<open>evaluation of the memory accesses when they are in bounds\<close>

section \<open>Machine types\<close>

type_synonym byte = "8 word"

definition size_modulus :: nat where
  "size_modulus = 2 ^ 64"

definition sz_add :: "nat \<Rightarrow> nat \<Rightarrow> nat" where
  "sz_add a b = (a + b) mod size_modulus"

definition sz_sub :: "nat \<Rightarrow> nat \<Rightarrow> nat" where
  "sz_sub a b = nat ((int a - int b) mod int size_modulus)"

text \<open>The conversions \<^verbatim>\<open>size_t\<close> to \<^verbatim>\<open>ssize_t\<close>, and any integer to the 32-bit \<^verbatim>\<open>int\<close>.\<close>

definition to_ssize :: "nat \<Rightarrow> int" where
  "to_ssize n = (let r = int n mod 2 ^ 64 in if r < 2 ^ 63 then r else r - 2 ^ 64)"

definition to_int32 :: "int \<Rightarrow> int" where
  "to_int32 x = (let r = x mod 2 ^ 32 in if r < 2 ^ 31 then r else r - 2 ^ 32)"

definition to_size :: "int \<Rightarrow> nat" where
  "to_size x = nat (x mod 2 ^ 64)"

lemma sz_add_small [size_arith]: "a + b < size_modulus \<Longrightarrow> sz_add a b = a + b"
  by (simp add: sz_add_def)

lemma sz_sub_le [size_arith]: "b \<le> a \<Longrightarrow> a < size_modulus \<Longrightarrow> sz_sub a b = a - b"
  by (simp add: sz_sub_def)

lemma sz_sub_le_diff: "b \<le> a \<Longrightarrow> sz_sub a b \<le> a - b"
  by (simp add: sz_sub_def nat_mod_distrib flip: of_nat_diff of_nat_mod)

lemma sz_sub_0_1: "sz_sub 0 1 = size_modulus - 1"
  by (simp add: sz_sub_def size_modulus_def)

lemma to_ssize_small [size_arith]: "n < 2 ^ 63 \<Longrightarrow> to_ssize n = int n"
  by (simp add: to_ssize_def Let_def)

lemma to_int32_small [size_arith]:
  assumes "- (2 ^ 31) \<le> x" and "x < 2 ^ 31"
  shows "to_int32 x = x"
proof (cases "0 \<le> x")
  case True
  with assms show ?thesis by (simp add: to_int32_def Let_def)
next
  case False
  have "x mod 2 ^ 32 = (x + 2 ^ 32) mod 2 ^ 32" by simp
  also have "\<dots> = x + 2 ^ 32" using False assms by (intro mod_pos_pos_trivial) simp_all
  finally have "x mod 2 ^ 32 = x + 2 ^ 32" .
  with False assms show ?thesis by (simp add: to_int32_def Let_def)
qed

lemma to_size_nat: "0 \<le> x \<Longrightarrow> x < 2 ^ 64 \<Longrightarrow> to_size x = nat x"
  by (simp add: to_size_def)

lemma to_ssize_to_size:
  assumes "- (2 ^ 63) \<le> x" and "x < 2 ^ 63"
  shows "to_ssize (to_size x) = x"
proof (cases "0 \<le> x")
  case True
  with assms show ?thesis by (simp add: to_size_def to_ssize_def Let_def)
next
  case False
  have "x mod 2 ^ 64 = (x + 2 ^ 64) mod 2 ^ 64" by simp
  also have "\<dots> = x + 2 ^ 64" using False assms by (intro mod_pos_pos_trivial) simp_all
  finally have "x mod 2 ^ 64 = x + 2 ^ 64" .
  with False assms show ?thesis by (simp add: to_size_def to_ssize_def Let_def)
qed

section \<open>Failures as values\<close>

text \<open>
  The exception classes of include/cppio/ioline.h and the two exceptions of the standard library
  that the modelled code can raise. A call either returns, or throws, or performs an access
  outside an object, through a null or dangling pointer or past an unterminated string, or converts a
  number out of range (no defined behaviour in C++, kept apart from exceptions), or fails an assertion, or waits forever:
  \<open>Blocked\<close> is the outcome of a call that waits on a condition variable and is not
  woken up again in the run considered.
\<close>

datatype exn =
    IoException string
  | TimeoutException string
  | UnsupportedOption string
  | LineIsNotPollable string
  | ConnectionLost string
  | length_error string
  | out_of_range

datatype ub = OutOfBounds | NullPointer | DanglingPointer | UnterminatedString | IntegerOverflow

text \<open>A variable of the enumeration can hold other numbers, by the cast from \<^verbatim>\<open>cppio_line_option\<close>.\<close>

datatype LineOption = ReceiveTimeout | SendTimeout | OtherOption int

datatype failure = Throw exn | Undefined ub | AssertionFailed | Blocked

text \<open>The handler \<^verbatim>\<open>catch(const IoException&)\<close> also takes the classes derived from it.\<close>

fun is_IoException :: "exn \<Rightarrow> bool" where
  "is_IoException (length_error _) = False"
| "is_IoException out_of_range = False"
| "is_IoException _ = True"

definition bind_res :: "'e + 'a \<Rightarrow> ('a \<Rightarrow> 'e + 'b) \<Rightarrow> 'e + 'b" where
  "bind_res r f = (case r of Inl e \<Rightarrow> Inl e | Inr x \<Rightarrow> f x)"

lemma bind_res_simps [simp]:
  "bind_res (Inl e) f = Inl e"
  "bind_res (Inr x) f = f x"
  by (simp_all add: bind_res_def)

lemma bind_res_cong [fundef_cong]:
  "r = r' \<Longrightarrow> (\<And>x. r' = Inr x \<Longrightarrow> f x = f' x) \<Longrightarrow> bind_res r f = bind_res r' f'"
  by (cases r') simp_all

lemma bind_res_eq_Inr [simp]: "bind_res r f = Inr y \<longleftrightarrow> (\<exists>x. r = Inr x \<and> f x = Inr y)"
  by (simp add: bind_res_def split: sum.splits)

lemma bind_res_assoc: "bind_res (bind_res r f) g = bind_res r (\<lambda>x. bind_res (f x) g)"
  by (cases r) simp_all

section \<open>Memory accesses\<close>

text \<open>
  A byte array is a list. \<open>mem_read m off n\<close> is \<^verbatim>\<open>memcpy(_, m + off, n)\<close> and
  \<open>mem_write m off src n\<close> is \<^verbatim>\<open>memcpy(m + off, src, n)\<close>; both are undefined outside the array.
\<close>

definition mem_read :: "byte list \<Rightarrow> nat \<Rightarrow> nat \<Rightarrow> failure + byte list" where
  "mem_read m off n =
     (if off + n \<le> length m then Inr (take n (drop off m)) else Inl (Undefined OutOfBounds))"

definition mem_write :: "byte list \<Rightarrow> nat \<Rightarrow> byte list \<Rightarrow> nat \<Rightarrow> failure + byte list" where
  "mem_write m off src n =
     (if off + n \<le> length m \<and> n \<le> length src
      then Inr (take off m @ take n src @ drop (off + n) m)
      else Inl (Undefined OutOfBounds))"

lemma mem_read_in [mem_simps]: "off + n \<le> length m \<Longrightarrow> mem_read m off n = Inr (take n (drop off m))"
  by (simp add: mem_read_def)

lemma mem_write_in [mem_simps]:
  "off + n \<le> length m \<Longrightarrow> n \<le> length src \<Longrightarrow>
   mem_write m off src n = Inr (take off m @ take n src @ drop (off + n) m)"
  by (simp add: mem_write_def)

lemma mem_read_length: "mem_read m off n = Inr out \<Longrightarrow> length out = n"
  by (auto simp: mem_read_def split: if_splits)

lemma mem_write_length: "mem_write m off src n = Inr m' \<Longrightarrow> length m' = length m"
  by (auto simp: mem_write_def split: if_splits)

lemma take_min_length [simp]:
  "take (min n (length xs)) xs = take n xs"
  "take (min (length xs) n) xs = take n xs"
  by (simp_all add: min_def)

section \<open>Little-endian integers\<close>

text \<open>
  \<open>le_bytes k n\<close> are the \<open>k\<close> bytes in memory of the unsigned integer of \<open>k\<close> bytes to
  which \<open>n\<close> converts (that is, of \<open>n mod 256 ^ k\<close>); \<open>le_value\<close> reads them back. The wire
  format the tests fix (tests/message_test.cpp) is the little-endian one.
\<close>

fun le_bytes :: "nat \<Rightarrow> nat \<Rightarrow> byte list" where
  "le_bytes 0 n = []"
| "le_bytes (Suc k) n = word_of_nat n # le_bytes k (n div 256)"

fun le_value :: "byte list \<Rightarrow> nat" where
  "le_value [] = 0"
| "le_value (b # bs) = unat b + 256 * le_value bs"

lemma length_le_bytes [simp]: "length (le_bytes k n) = k"
  by (induction k arbitrary: n) simp_all

lemma le_value_le_bytes: "le_value (le_bytes k n) = n mod 256 ^ k"
  by (induction k arbitrary: n) (simp_all add: unat_of_nat mod_mult2_eq)

lemma le_bytes_le_value: "length bs = k \<Longrightarrow> le_bytes k (le_value bs) = bs"
proof (induction bs arbitrary: k)
  case (Cons b bs)
  have "unat b < 256" using unsigned_less [of b] by simp
  then have "(unat b + 256 * le_value bs) div 256 = le_value bs" by simp
  moreover have zero: "(256 :: byte) = 0" by simp
  have "(word_of_nat (unat b + 256 * le_value bs) :: byte) = b"
    by (simp only: of_nat_add of_nat_mult of_nat_numeral zero) simp
  ultimately show ?case using Cons by auto
qed simp

lemma le_value_bound: "le_value bs < 256 ^ length bs"
proof -
  have "le_value bs = le_value bs mod 256 ^ length bs"
    using le_value_le_bytes [of "length bs" "le_value bs"] by (simp add: le_bytes_le_value)
  also have "\<dots> < 256 ^ length bs" by simp
  finally show ?thesis .
qed

section \<open>Error codes\<close>

text \<open>include/cppio/errors.h; the members of \<^verbatim>\<open>enum ErrorCode\<close> as the integers returned.\<close>

definition eTimeout :: int where "eTimeout = - 1"
definition eConnectionLost :: int where "eConnectionLost = - 2"
definition eTooBigBuffer :: int where "eTooBigBuffer = - 3"
definition eUnknown :: int where "eUnknown = - 100"

lemmas error_code_defs = eTimeout_def eConnectionLost_def eTooBigBuffer_def eUnknown_def

lemma append_split_at:
  assumes "xs @ missing = w @ r" and "length w \<le> length xs"
  shows "\<exists>p. xs = w @ p \<and> p @ missing = r"
  using assms by (auto simp: append_eq_append_conv2)

end
