(* ===== verification/ByteQueue.thy ===== *)
theory ByteQueue
  imports Cppio_Prelude
begin

text \<open>
  The contract of a bounded byte queue, as the classes built on \<^verbatim>\<open>RingBuffer\<close> use it: what
  \<^verbatim>\<open>read\<close>, \<^verbatim>\<open>write\<close> and the two size queries do to the list of bytes in the queue. The
  contract is the locale \<open>byte_queue\<close>; the theory also proves, once for every
  implementation, what follows from the laws alone: bytes come out in the order in
  which they went in, none lost, none invented, over any sequence of operations.
\<close>

datatype queue_op = ReadOp nat | WriteOp "byte list"

text \<open>
  A run of operations, with the bytes accepted by the writes and the bytes delivered by the reads
  in the order of the calls.
\<close>

fun run_ops ::
    "('q \<Rightarrow> nat \<Rightarrow> failure + ('q \<times> byte list \<times> nat)) \<Rightarrow> ('q \<Rightarrow> byte list \<Rightarrow> failure + ('q \<times> nat)) \<Rightarrow>
     'q \<Rightarrow> queue_op list \<Rightarrow> failure + ('q \<times> byte list \<times> byte list)" where
  "run_ops rd wr q [] = Inr (q, [], [])"
| "run_ops rd wr q (ReadOp n # ops) =
     bind_res (rd q n) (\<lambda>(q1, out, k).
       bind_res (run_ops rd wr q1 ops) (\<lambda>(q2, sent, received). Inr (q2, sent, take k out @ received)))"
| "run_ops rd wr q (WriteOp bs # ops) =
     bind_res (wr q bs) (\<lambda>(q1, k).
       bind_res (run_ops rd wr q1 ops) (\<lambda>(q2, sent, received). Inr (q2, take k bs @ sent, received)))"

locale byte_queue =
  fixes inv :: "'q \<Rightarrow> bool"
    and contents :: "'q \<Rightarrow> byte list"
    and capacity :: "'q \<Rightarrow> nat"
    and rd :: "'q \<Rightarrow> nat \<Rightarrow> failure + ('q \<times> byte list \<times> nat)"
    and wr :: "'q \<Rightarrow> byte list \<Rightarrow> failure + ('q \<times> nat)"
    and avail_rd :: "'q \<Rightarrow> nat"
    and avail_wr :: "'q \<Rightarrow> nat"
  assumes read_law: "inv q \<Longrightarrow>
      \<exists>q'. rd q n = Inr (q', take n (contents q), min n (length (contents q))) \<and>
           inv q' \<and> contents q' = drop n (contents q) \<and> capacity q' = capacity q"
    and write_law: "inv q \<Longrightarrow>
      \<exists>q'. wr q bs = Inr (q', min (length bs) (capacity q - length (contents q))) \<and>
           inv q' \<and> contents q' = contents q @ take (capacity q - length (contents q)) bs \<and>
           capacity q' = capacity q"
    and bounded: "inv q \<Longrightarrow> length (contents q) \<le> capacity q"
    and avail_read_law: "inv q \<Longrightarrow> avail_rd q = length (contents q)"
    and avail_write_law: "inv q \<Longrightarrow> avail_wr q = capacity q - length (contents q)"
begin

lemma read_cases:
  assumes "inv q"
  obtains q' where "rd q n = Inr (q', take n (contents q), min n (length (contents q)))"
    and "inv q'" and "contents q' = drop n (contents q)" and "capacity q' = capacity q"
  using read_law [OF assms, of n] by blast

lemma write_cases:
  assumes "inv q"
  obtains q' where "wr q bs = Inr (q', min (length bs) (capacity q - length (contents q)))"
    and "inv q'" and "contents q' = contents q @ take (capacity q - length (contents q)) bs"
    and "capacity q' = capacity q"
  using write_law [OF assms, of bs] by blast

lemma write_fits:
  assumes "inv q" and "length bs \<le> avail_wr q"
  obtains q' where "wr q bs = Inr (q', length bs)" and "inv q'"
    and "contents q' = contents q @ bs" and "capacity q' = capacity q"
  using write_cases [OF assms(1), of bs] assms by (auto simp: avail_write_law)

lemma write_progress:
  assumes "inv q" and "avail_wr q \<noteq> 0" and "bs \<noteq> []" and "wr q bs = Inr (q', k)"
  shows "0 < k"
proof -
  obtain q'' where "wr q bs = Inr (q'', min (length bs) (capacity q - length (contents q)))"
    by (rule write_cases [OF assms(1)])
  with assms have "k = min (length bs) (capacity q - length (contents q))" by simp
  with assms show ?thesis by (simp add: avail_write_law)
qed

lemma write_then_read:
  assumes "inv q" and "contents q = []" and "length bs \<le> capacity q"
  shows "\<exists>q1 q2. wr q bs = Inr (q1, length bs) \<and> rd q1 (length bs) = Inr (q2, bs, length bs) \<and>
                 inv q2 \<and> contents q2 = []"
proof -
  obtain q1 where "wr q bs = Inr (q1, length bs)" "inv q1" "contents q1 = bs"
    using write_fits [OF assms(1), of bs] assms by (auto simp: avail_write_law)
  moreover obtain q2 where "rd q1 (length bs) = Inr (q2, bs, length bs)" "inv q2" "contents q2 = []"
    using read_cases [OF \<open>inv q1\<close>, of "length bs"] \<open>contents q1 = bs\<close> by auto
  ultimately show ?thesis by blast
qed

lemma run_ops_stream:
  "inv q \<Longrightarrow> \<exists>q' sent received.
     run_ops rd wr q ops = Inr (q', sent, received) \<and> inv q' \<and> capacity q' = capacity q \<and>
     contents q @ sent = received @ contents q'"
proof (induction ops arbitrary: q)
  case Nil
  then show ?case by simp
next
  case (Cons op ops)
  show ?case
  proof (cases op)
    case (ReadOp n)
    from Cons.prems obtain q1
      where q1: "rd q n = Inr (q1, take n (contents q), min n (length (contents q)))"
        "inv q1" "contents q1 = drop n (contents q)" "capacity q1 = capacity q"
      by (rule read_cases)
    from Cons.IH [OF q1(2)] obtain q2 sent received
      where q2: "run_ops rd wr q1 ops = Inr (q2, sent, received)" "inv q2"
        "capacity q2 = capacity q1" "contents q1 @ sent = received @ contents q2"
      by blast
    have "contents q @ sent = (take n (contents q) @ received) @ contents q2"
      using q1(3) q2(4) by (metis append_assoc append_take_drop_id)
    with q1 q2 ReadOp show ?thesis by simp
  next
    case (WriteOp bs)
    from Cons.prems obtain q1
      where q1: "wr q bs = Inr (q1, min (length bs) (capacity q - length (contents q)))"
        "inv q1" "contents q1 = contents q @ take (capacity q - length (contents q)) bs"
        "capacity q1 = capacity q"
      by (rule write_cases)
    from Cons.IH [OF q1(2)] obtain q2 sent received
      where q2: "run_ops rd wr q1 ops = Inr (q2, sent, received)" "inv q2"
        "capacity q2 = capacity q1" "contents q1 @ sent = received @ contents q2"
      by blast
    with q1 WriteOp show ?thesis by simp
  qed
qed

end

end
