(* ===== verification/RingBuffer.thy ===== *)
theory RingBuffer
  imports ByteQueue
begin

text \<open>
  The ring buffer of src/common/inproc.cpp (class \<^verbatim>\<open>RingBuffer\<close>), in the configuration the
  build selects (\<^verbatim>\<open>CPPIO_BLOCKING_INPROC\<close>): a byte array with a write and a read position, one
  slot of which stays free. The theory has the class with its five operations, the list of
  bytes the buffer holds (\<open>ring_contents\<close>), the invariant (\<open>ring_inv\<close>), and the
  proof that every operation acts on that list as an operation of a bounded byte queue,
  never outside the array.

  The interface its clients rely on is the locale \<open>byte_queue\<close> of the theory
  \<open>ByteQueue\<close>; the interpretation \<open>ring\<close> at the end discharges its laws for this class.
\<close>

section \<open>The class\<close>

record ring_buffer =
  m_data :: "byte list"
  m_wrptr :: nat
  m_rdptr :: nat

definition RingBuffer :: "nat \<Rightarrow> ring_buffer" where
  "RingBuffer bufferSizePower =
     \<lparr>m_data = replicate bufferSizePower 0, m_wrptr = 0, m_rdptr = 0\<rparr>"

text \<open>
  \<open>RingBuffer_read rb buflen\<close> returns the new buffer, the bytes stored in the caller's
  buffer and the number the code returns. The subtraction of the recursive call stands under
  the guard \<open>tocopy < buflen\<close> and cannot wrap.
\<close>

function RingBuffer_read ::
    "ring_buffer \<Rightarrow> nat \<Rightarrow> failure + (ring_buffer \<times> byte list \<times> nat)" where
  "RingBuffer_read rb buflen =
     (if m_wrptr rb = m_rdptr rb then Inr (rb, [], 0)
      else if m_rdptr rb < m_wrptr rb then
        (let tocopy = min (sz_sub (m_wrptr rb) (m_rdptr rb)) buflen
         in bind_res (mem_read (m_data rb) (m_rdptr rb) tocopy)
              (\<lambda>out. Inr (rb\<lparr>m_rdptr := sz_add (m_rdptr rb) tocopy\<rparr>, out, tocopy)))
      else
        (let tocopy = min (sz_sub (length (m_data rb)) (m_rdptr rb)) buflen;
             rdptr = sz_add (m_rdptr rb) tocopy;
             rb' = rb\<lparr>m_rdptr := (if rdptr = length (m_data rb) then 0 else rdptr)\<rparr>
         in bind_res (mem_read (m_data rb) (m_rdptr rb) tocopy)
              (\<lambda>out. if tocopy < buflen then
                       (if m_wrptr rb' = m_rdptr rb' then Inr (rb', out, tocopy)
                        else if tocopy = 0 then Inr (rb', out, 0)
                        else bind_res (RingBuffer_read rb' (buflen - tocopy))
                               (\<lambda>(rb'', out', n). Inr (rb'', out @ out', sz_add tocopy n)))
                     else Inr (rb', out, tocopy))))"
  by pat_completeness auto
termination
  by (relation "measure snd") auto

declare RingBuffer_read.simps [simp del]

text \<open>
  The caller's buffer of \<open>buflen\<close> bytes is the list \<open>buffer\<close>. Where the read position is 0
  and the free part up to the end would be filled, one slot is left (\<^verbatim>\<open>tocopy--\<close>).
\<close>

function RingBuffer_write ::
    "ring_buffer \<Rightarrow> byte list \<Rightarrow> failure + (ring_buffer \<times> nat)" where
  "RingBuffer_write rb buffer =
     (let buflen = length buffer in
      if m_rdptr rb \<le> m_wrptr rb then
        (let space = sz_sub (length (m_data rb)) (m_wrptr rb);
             most = min space buflen;
             tocopy = (if m_rdptr rb = 0 \<and> most = space then sz_sub most 1 else most)
         in bind_res (mem_write (m_data rb) (m_wrptr rb) buffer tocopy)
              (\<lambda>data. let wrptr = sz_add (m_wrptr rb) tocopy;
                         rb' = rb\<lparr>m_data := data,
                                  m_wrptr := (if wrptr = length data then 0 else wrptr)\<rparr>
                     in if tocopy < buflen then
                          (if m_rdptr rb = 0 then Inr (rb', tocopy)
                           else if tocopy = 0 then Inr (rb', 0)
                           else bind_res (RingBuffer_write rb' (drop tocopy buffer))
                                  (\<lambda>(rb'', n). Inr (rb'', sz_add tocopy n)))
                        else Inr (rb', tocopy)))
      else
        (let tocopy = min (sz_sub (sz_sub (m_rdptr rb) 1) (m_wrptr rb)) buflen
         in bind_res (mem_write (m_data rb) (m_wrptr rb) buffer tocopy)
              (\<lambda>data. Inr (rb\<lparr>m_data := data, m_wrptr := sz_add (m_wrptr rb) tocopy\<rparr>, tocopy))))"
  by pat_completeness auto
termination
  by (relation "measure (\<lambda>(rb, buffer). length buffer)") auto

declare RingBuffer_write.simps [simp del]

definition RingBuffer_availableReadSize :: "ring_buffer \<Rightarrow> nat" where
  "RingBuffer_availableReadSize rb =
     (if m_rdptr rb = m_wrptr rb then 0
      else if m_rdptr rb < m_wrptr rb then sz_sub (m_wrptr rb) (m_rdptr rb)
      else sz_add (sz_sub (length (m_data rb)) (m_rdptr rb)) (m_wrptr rb))"

definition RingBuffer_availableWriteSize :: "ring_buffer \<Rightarrow> nat" where
  "RingBuffer_availableWriteSize rb =
     (if m_rdptr rb = m_wrptr rb then sz_sub (length (m_data rb)) 1
      else if m_rdptr rb < m_wrptr rb
      then sz_sub (sz_add (sz_sub (length (m_data rb)) (m_wrptr rb)) (m_rdptr rb)) 1
      else sz_sub (sz_sub (m_rdptr rb) (m_wrptr rb)) 1)"

definition RingBuffer_size :: "ring_buffer \<Rightarrow> nat" where
  "RingBuffer_size rb = length (m_data rb)"

section \<open>The bytes in the buffer, and the invariant\<close>

definition ring_contents :: "ring_buffer \<Rightarrow> byte list" where
  "ring_contents rb =
     (if m_rdptr rb \<le> m_wrptr rb
      then take (m_wrptr rb - m_rdptr rb) (drop (m_rdptr rb) (m_data rb))
      else drop (m_rdptr rb) (m_data rb) @ take (m_wrptr rb) (m_data rb))"

definition ring_inv :: "ring_buffer \<Rightarrow> bool" where
  "ring_inv rb \<longleftrightarrow>
     m_rdptr rb < length (m_data rb) \<and> m_wrptr rb < length (m_data rb) \<and>
     length (m_data rb) < size_modulus"

definition ring_capacity :: "ring_buffer \<Rightarrow> nat" where
  "ring_capacity rb = length (m_data rb) - 1"

lemmas ring_defs = ring_contents_def ring_inv_def ring_capacity_def

lemma ring_contents_length:
  "ring_inv rb \<Longrightarrow> length (ring_contents rb) =
     (if m_rdptr rb \<le> m_wrptr rb then m_wrptr rb - m_rdptr rb
      else length (m_data rb) - m_rdptr rb + m_wrptr rb)"
  by (auto simp: ring_defs)

lemma ring_contents_bound: "ring_inv rb \<Longrightarrow> length (ring_contents rb) \<le> ring_capacity rb"
  by (auto simp: ring_contents_length ring_inv_def ring_capacity_def)

lemma ring_inv_new: "0 < n \<Longrightarrow> n < size_modulus \<Longrightarrow> ring_inv (RingBuffer n)"
  by (simp add: RingBuffer_def ring_inv_def)

lemma ring_contents_new [simp]: "ring_contents (RingBuffer n) = []"
  by (simp add: RingBuffer_def ring_contents_def)

lemma availableReadSize_contents:
  "ring_inv rb \<Longrightarrow> RingBuffer_availableReadSize rb = length (ring_contents rb)"
  by (auto simp: RingBuffer_availableReadSize_def ring_contents_length ring_inv_def size_arith)

lemma availableWriteSize_contents:
  "ring_inv rb \<Longrightarrow> RingBuffer_availableWriteSize rb = ring_capacity rb - length (ring_contents rb)"
  by (auto simp: RingBuffer_availableWriteSize_def ring_contents_length ring_inv_def
      ring_capacity_def size_arith)

section \<open>Reading\<close>

text \<open>The part without wrap-around: the read position is not behind the write position.\<close>

lemma read_linear:
  assumes "ring_inv rb" and "m_rdptr rb \<le> m_wrptr rb"
  shows "RingBuffer_read rb n =
     Inr (rb\<lparr>m_rdptr := m_rdptr rb + min n (m_wrptr rb - m_rdptr rb)\<rparr>,
          take n (ring_contents rb), min n (m_wrptr rb - m_rdptr rb))"
  using assms
  by (auto simp: RingBuffer_read.simps [of rb n] ring_contents_def ring_inv_def size_arith
      mem_simps Let_def min_def)

text \<open>The wrapped part: first up to the end of the array, then from its start.\<close>

lemma read_before_end:
  assumes "ring_inv rb" and "m_wrptr rb < m_rdptr rb" and "m_rdptr rb + n < length (m_data rb)"
  shows "RingBuffer_read rb n =
     Inr (rb\<lparr>m_rdptr := m_rdptr rb + n\<rparr>, take n (drop (m_rdptr rb) (m_data rb)), n)"
  using assms
  by (auto simp: RingBuffer_read.simps [of rb n] ring_inv_def size_arith mem_simps Let_def)

lemma read_past_end:
  assumes inv: "ring_inv rb" and wrapped: "m_wrptr rb < m_rdptr rb"
  shows "RingBuffer_read rb (length (m_data rb) - m_rdptr rb + k) =
     Inr (rb\<lparr>m_rdptr := min k (m_wrptr rb)\<rparr>,
          drop (m_rdptr rb) (m_data rb) @ take k (take (m_wrptr rb) (m_data rb)),
          length (m_data rb) - m_rdptr rb + min k (m_wrptr rb))"
proof -
  let ?rb = "rb\<lparr>m_rdptr := 0\<rparr>"
  have "ring_inv ?rb" using inv wrapped by (auto simp: ring_inv_def)
  then have rest: "RingBuffer_read ?rb k =
      Inr (?rb\<lparr>m_rdptr := min k (m_wrptr rb)\<rparr>, take k (take (m_wrptr rb) (m_data rb)), min k (m_wrptr rb))"
    by (subst read_linear) (auto simp: ring_contents_def)
  show ?thesis
    using assms rest
    by (subst RingBuffer_read.simps) (auto simp: ring_inv_def size_arith mem_simps Let_def)
qed

lemma RingBuffer_read_spec:
  assumes inv: "ring_inv rb"
  shows "\<exists>rb'. RingBuffer_read rb n =
             Inr (rb', take n (ring_contents rb), min n (length (ring_contents rb))) \<and>
           ring_inv rb' \<and> ring_contents rb' = drop n (ring_contents rb) \<and> m_data rb' = m_data rb"
proof -
  consider (linear) "m_rdptr rb \<le> m_wrptr rb"
    | (short) "m_wrptr rb < m_rdptr rb" "m_rdptr rb + n < length (m_data rb)"
    | (long) "m_wrptr rb < m_rdptr rb" "length (m_data rb) - m_rdptr rb \<le> n"
    by linarith
  then show ?thesis
  proof cases
    case linear
    with inv show ?thesis
      by (simp add: read_linear ring_contents_length) (auto simp: ring_defs drop_take min_def add.commute)
  next
    case short
    with inv show ?thesis
      by (simp add: read_before_end ring_contents_length) (auto simp: ring_defs add.commute)
  next
    case long
    from long(2) obtain k where "n = length (m_data rb) - m_rdptr rb + k"
      by (auto dest: le_Suc_ex)
    with inv long(1) show ?thesis
      by (simp add: read_past_end ring_contents_length) (auto simp: ring_defs drop_take min_def)
  qed
qed

section \<open>Writing\<close>

text \<open>The part that never recurses: the bytes fit without reaching the end of the array.\<close>

lemma write_ahead:
  assumes "ring_inv rb" and "m_rdptr rb \<le> m_wrptr rb"
    and "m_wrptr rb + length buffer < length (m_data rb)"
  shows "RingBuffer_write rb buffer =
     Inr (rb\<lparr>m_data := take (m_wrptr rb) (m_data rb) @ buffer
                       @ drop (m_wrptr rb + length buffer) (m_data rb),
            m_wrptr := m_wrptr rb + length buffer\<rparr>, length buffer)"
  using assms
  by (auto simp: RingBuffer_write.simps [of rb buffer] ring_inv_def size_arith mem_simps Let_def)

lemma write_behind:
  assumes "ring_inv rb" and "m_wrptr rb < m_rdptr rb"
    and "k = min (m_rdptr rb - 1 - m_wrptr rb) (length buffer)"
  shows "RingBuffer_write rb buffer =
     Inr (rb\<lparr>m_data := take (m_wrptr rb) (m_data rb) @ take k buffer
                       @ drop (m_wrptr rb + k) (m_data rb),
            m_wrptr := m_wrptr rb + k\<rparr>, k)"
  using assms
  by (auto simp: RingBuffer_write.simps [of rb buffer] ring_inv_def size_arith mem_simps Let_def)

text \<open>The bytes reach the end of the array: with the read position at 0 one slot stays free.\<close>

lemma write_to_end:
  assumes "ring_inv rb" and "m_rdptr rb = 0"
    and "length (m_data rb) \<le> m_wrptr rb + length buffer"
    and "k = length (m_data rb) - 1 - m_wrptr rb"
  shows "RingBuffer_write rb buffer =
     Inr (rb\<lparr>m_data := take (m_wrptr rb) (m_data rb) @ take k buffer
                       @ drop (m_wrptr rb + k) (m_data rb),
            m_wrptr := m_wrptr rb + k\<rparr>, k)"
proof -
  have "min (sz_sub (length (m_data rb)) (m_wrptr rb)) (length buffer) = Suc k"
    and "sz_sub (length (m_data rb)) (m_wrptr rb) = Suc k" and "k < length buffer"
    and "sz_sub (Suc k) 1 = k" and "sz_add (m_wrptr rb) k = m_wrptr rb + k"
    and "m_wrptr rb + k < length (m_data rb)"
    using assms by (auto simp: ring_inv_def size_arith)
  with assms(2) show ?thesis
    by (subst RingBuffer_write.simps) (simp add: mem_simps Let_def)
qed

lemma write_past_end:
  assumes inv: "ring_inv rb" and "m_rdptr rb \<le> m_wrptr rb" and "0 < m_rdptr rb"
    and "length upper = length (m_data rb) - m_wrptr rb"
    and "k = min (m_rdptr rb - 1) (length lower)"
  shows "RingBuffer_write rb (upper @ lower) =
     Inr (rb\<lparr>m_data := take k lower @ drop k (take (m_wrptr rb) (m_data rb) @ upper),
            m_wrptr := k\<rparr>, length upper + k)"
proof -
  let ?rb = "rb\<lparr>m_data := take (m_wrptr rb) (m_data rb) @ upper, m_wrptr := 0\<rparr>"
  have "ring_inv ?rb" using assms by (auto simp: ring_inv_def)
  then have rest: "RingBuffer_write ?rb lower =
      Inr (?rb\<lparr>m_data := take k lower @ drop k (take (m_wrptr rb) (m_data rb) @ upper), m_wrptr := k\<rparr>, k)"
    using assms by (subst write_behind) auto
  show ?thesis
    using assms rest
    by (cases lower; subst RingBuffer_write.simps)
      (auto simp: ring_inv_def size_arith mem_simps Let_def)
qed

lemma RingBuffer_write_spec:
  assumes inv: "ring_inv rb"
    and k: "k = min (length buffer) (ring_capacity rb - length (ring_contents rb))"
  shows "\<exists>rb'. RingBuffer_write rb buffer = Inr (rb', k) \<and> ring_inv rb' \<and>
           ring_contents rb' = ring_contents rb @ take k buffer \<and>
           length (m_data rb') = length (m_data rb)"
proof -
  let ?N = "length (m_data rb)"
  consider (ahead) "m_rdptr rb \<le> m_wrptr rb" "m_wrptr rb + length buffer < ?N"
    | (to_end) "m_rdptr rb = 0" "?N \<le> m_wrptr rb + length buffer"
    | (past_end) "m_rdptr rb \<le> m_wrptr rb" "0 < m_rdptr rb" "?N \<le> m_wrptr rb + length buffer"
    | (behind) "m_wrptr rb < m_rdptr rb"
    by linarith
  then show ?thesis
  proof cases
    case ahead
    with inv k show ?thesis
      by (simp add: write_ahead ring_contents_length) (auto simp: ring_defs drop_take)
  next
    case to_end
    with inv k have "k = ?N - 1 - m_wrptr rb"
      by (auto simp: ring_contents_length ring_capacity_def ring_inv_def)
    with inv to_end show ?thesis
      by (simp add: write_to_end) (auto simp: ring_defs drop_take)
  next
    case past_end
    define upper where "upper = take (?N - m_wrptr rb) buffer"
    define lower where "lower = drop (?N - m_wrptr rb) buffer"
    define j where "j = min (m_rdptr rb - 1) (length lower)"
    have split: "buffer = upper @ lower" "length upper = ?N - m_wrptr rb"
      using past_end by (simp_all add: upper_def lower_def)
    have j: "j < m_rdptr rb" "j \<le> length lower" using past_end by (simp_all add: j_def)
    have "k = length upper + j"
      using inv past_end k split
      by (auto simp: ring_contents_length ring_capacity_def ring_inv_def j_def min_def)
    moreover have "m_wrptr rb < ?N" using inv by (simp add: ring_inv_def)
    ultimately show ?thesis
      using inv past_end split j write_past_end [OF inv past_end(1,2) split(2) j_def]
      by (simp add: ring_inv_def ring_contents_def drop_take)
  next
    case behind
    with inv k have "k = min (m_rdptr rb - 1 - m_wrptr rb) (length buffer)"
      by (auto simp: ring_contents_length ring_capacity_def ring_inv_def)
    with inv behind show ?thesis
      by (simp add: write_behind) (auto simp: ring_defs drop_take min.commute)
  qed
qed

section \<open>The ring buffer is a bounded byte queue\<close>

interpretation ring: byte_queue ring_inv ring_contents ring_capacity
  RingBuffer_read RingBuffer_write RingBuffer_availableReadSize RingBuffer_availableWriteSize
proof unfold_locales
  show "\<exists>q'. RingBuffer_read q n = Inr (q', take n (ring_contents q), min n (length (ring_contents q))) \<and>
          ring_inv q' \<and> ring_contents q' = drop n (ring_contents q) \<and> ring_capacity q' = ring_capacity q"
    if "ring_inv q" for q n
    using RingBuffer_read_spec [OF that, of n] by (auto simp: ring_capacity_def)
  show "\<exists>q'. RingBuffer_write q bs = Inr (q', min (length bs) (ring_capacity q - length (ring_contents q))) \<and>
          ring_inv q' \<and>
          ring_contents q' = ring_contents q @ take (ring_capacity q - length (ring_contents q)) bs \<and>
          ring_capacity q' = ring_capacity q"
    if "ring_inv q" for q bs
    using RingBuffer_write_spec [OF that refl, of bs] by (auto simp: ring_capacity_def min_def)
qed (simp_all add: ring_contents_bound availableReadSize_contents availableWriteSize_contents)

section \<open>Properties\<close>

text \<open>
  C6 (ring_read_refines): \<^verbatim>\<open>read\<close> delivers the first bytes of the buffer, as many as asked for or as there
  are, returns their number, and leaves the rest; it keeps the invariant and accesses nothing
  outside the array, also when the contents wrap around its end.
\<close>
theorem ring_read_refines:
  assumes "ring_inv rb"
  shows "\<exists>rb'. RingBuffer_read rb n =
             Inr (rb', take n (ring_contents rb), min n (length (ring_contents rb))) \<and>
           ring_inv rb' \<and> ring_contents rb' = drop n (ring_contents rb) \<and>
           ring_capacity rb' = ring_capacity rb"
  by (rule ring.read_law [OF assms])

theorem ring_read_refines_witness:
  "\<exists>rb'. RingBuffer_read \<lparr>m_data = [11, 12, 13, 14], m_wrptr = 1, m_rdptr = 2\<rparr> 3 = Inr (rb', [13, 14, 11], 3) \<and>
     ring_contents rb' = []"
proof -
  let ?rb = "\<lparr>m_data = [11, 12, 13, 14 :: byte], m_wrptr = 1, m_rdptr = 2\<rparr>"
  have "ring_inv ?rb" by (simp add: ring_inv_def size_modulus_def)
  moreover have "ring_contents ?rb = [13, 14, 11]" by code_simp
  ultimately show ?thesis using ring_read_refines [of ?rb 3] by auto
qed

text \<open>
  C7 (ring_write_refines): \<^verbatim>\<open>write\<close> appends the first bytes of the caller's buffer to the contents, as
  many as fit (one slot of the array stays free), returns their number, keeps the invariant and
  writes nothing outside the array.
\<close>
theorem ring_write_refines:
  assumes "ring_inv rb"
  shows "\<exists>rb'. RingBuffer_write rb buffer =
             Inr (rb', min (length buffer) (ring_capacity rb - length (ring_contents rb))) \<and>
           ring_inv rb' \<and>
           ring_contents rb' = ring_contents rb @ take (ring_capacity rb - length (ring_contents rb)) buffer \<and>
           ring_capacity rb' = ring_capacity rb"
  by (rule ring.write_law [OF assms])

theorem ring_write_refines_witness:
  "\<exists>rb'. RingBuffer_write \<lparr>m_data = [0, 0, 0, 5], m_wrptr = 0, m_rdptr = 3\<rparr> [7, 8, 9] = Inr (rb', 2) \<and>
     ring_contents rb' = [5, 7, 8]"
proof -
  let ?rb = "\<lparr>m_data = [0, 0, 0, 5 :: byte], m_wrptr = 0, m_rdptr = 3\<rparr>"
  have "ring_inv ?rb" by (simp add: ring_inv_def size_modulus_def)
  moreover have "ring_contents ?rb = [5]" "ring_capacity ?rb = 3" by code_simp+
  ultimately show ?thesis using ring_write_refines [of ?rb "[7, 8, 9]"] by (auto simp: numeral_eq_Suc)
qed

text \<open>
  Over any sequence of reads and writes on a fresh buffer, no call fails, and the
  bytes delivered by the reads followed by the bytes still in the buffer are the bytes
  accepted by the writes, in order: nothing is lost, duplicated or reordered.
\<close>
lemma ring_stream:
  assumes "0 < n" and "n < size_modulus"
  shows "\<exists>rb sent received.
     run_ops RingBuffer_read RingBuffer_write (RingBuffer n) ops = Inr (rb, sent, received) \<and>
     ring_inv rb \<and> sent = received @ ring_contents rb"
  using ring.run_ops_stream [OF ring_inv_new [OF assms], of ops] by auto

text \<open>
  The constructor does not exclude a buffer of size 0, and on such a buffer the
  decrement \<^verbatim>\<open>tocopy--\<close> wraps around: every \<^verbatim>\<open>write\<close>, even of no bytes, copies outside the array.
\<close>
lemma ring_size_zero:
  "RingBuffer_write (RingBuffer 0) buffer = Inl (Undefined OutOfBounds)"
  using sz_sub_0_1
  by (subst RingBuffer_write.simps) (simp add: RingBuffer_def mem_write_def sz_sub_def size_modulus_def)

end
