(* ===== verification/DataQueue.thy ===== *)
theory DataQueue
  imports RingBuffer
begin

text \<open>
  The class \<^verbatim>\<open>DataQueue\<close> of src/common/inproc.cpp (blocking configuration): a ring buffer with a
  connection flag, a mutex and two condition variables. Every operation runs with the mutex
  held except inside a wait, so a call is a sequence of critical sections separated by waits.

  What the other threads do while a call waits is an explicit argument, the \<open>wake list\<close>: each
  element is one return from the wait, with the operations the other threads completed before it
  (none, for a spurious wake-up), and whether the deadline of a timed wait had passed. A
  call that waits when the list is exhausted is never woken: an untimed wait is then
  \<open>Blocked\<close>, a timed one reaches its deadline.
\<close>

section \<open>The class\<close>

record data_queue =
  m_buffer :: ring_buffer
  m_connected :: bool

definition DataQueue :: "nat \<Rightarrow> data_queue" where
  "DataQueue bufferSize = \<lparr>m_buffer = RingBuffer bufferSize, m_connected = False\<rparr>"

definition DataQueue_availableReadSize :: "data_queue \<Rightarrow> nat" where
  "DataQueue_availableReadSize q = RingBuffer_availableReadSize (m_buffer q)"

definition DataQueue_availableWriteSize :: "data_queue \<Rightarrow> nat" where
  "DataQueue_availableWriteSize q = RingBuffer_availableWriteSize (m_buffer q)"

definition DataQueue_setConnectionFlag :: "data_queue \<Rightarrow> bool \<Rightarrow> data_queue" where
  "DataQueue_setConnectionFlag q c =
     (if c then q\<lparr>m_connected := c\<rparr>
      else if m_connected q then q\<lparr>m_connected := False\<rparr> else q)"

text \<open>The two transfers, the last lines of the read functions and of the write function.\<close>

definition DataQueue_take ::
    "data_queue \<Rightarrow> nat \<Rightarrow> failure + (data_queue \<times> byte list \<times> int)" where
  "DataQueue_take q buflen =
     bind_res (RingBuffer_read (m_buffer q) buflen)
       (\<lambda>(rb, out, n). Inr (q\<lparr>m_buffer := rb\<rparr>, out, to_ssize n))"

definition DataQueue_put :: "data_queue \<Rightarrow> byte list \<Rightarrow> failure + (data_queue \<times> int)" where
  "DataQueue_put q buffer =
     bind_res (RingBuffer_write (m_buffer q) buffer)
       (\<lambda>(rb, n). Inr (q\<lparr>m_buffer := rb\<rparr>, to_ssize n))"

section \<open>Waiting\<close>

text \<open>
  Operations of other threads during a wait: a read or a write that finds what it needs and
  completes, or a change of the connection flag. A read of an empty queue and a write into a full
  or too small one leave the queue as it is.
\<close>

datatype queue_event =
    Other_read nat
  | Other_write "byte list"
  | Other_setConnectionFlag bool

datatype wake = Woken "queue_event list" | DeadlinePassed "queue_event list"

fun wake_events :: "wake \<Rightarrow> queue_event list" where
  "wake_events (Woken es) = es"
| "wake_events (DeadlinePassed es) = es"

fun apply_event :: "data_queue \<Rightarrow> queue_event \<Rightarrow> failure + data_queue" where
  "apply_event q (Other_read n) =
     (if DataQueue_availableReadSize q = 0 then Inr q
      else bind_res (DataQueue_take q n) (\<lambda>(q', _, _). Inr q'))"
| "apply_event q (Other_write bs) =
     (if length bs \<ge> RingBuffer_size (m_buffer q) \<or> DataQueue_availableWriteSize q = 0 then Inr q
      else bind_res (DataQueue_put q bs) (\<lambda>(q', _). Inr q'))"
| "apply_event q (Other_setConnectionFlag c) = Inr (DataQueue_setConnectionFlag q c)"

fun apply_events :: "data_queue \<Rightarrow> queue_event list \<Rightarrow> failure + data_queue" where
  "apply_events q [] = Inr q"
| "apply_events q (e # es) = bind_res (apply_event q e) (\<lambda>q'. apply_events q' es)"

text \<open>\<^verbatim>\<open>wait(lock, pred)\<close>: wait until the predicate holds.\<close>

fun wait_until ::
    "(data_queue \<Rightarrow> bool) \<Rightarrow> data_queue \<Rightarrow> wake list \<Rightarrow> failure + (data_queue \<times> wake list)" where
  "wait_until p q [] = (if p q then Inr (q, []) else Inl Blocked)"
| "wait_until p q (w # ws) =
     (if p q then Inr (q, w # ws)
      else bind_res (apply_events q (wake_events w)) (\<lambda>q'. wait_until p q' ws))"

text \<open>\<^verbatim>\<open>wait_for(lock, timeout, pred)\<close>: the same up to a deadline; returns the predicate's value.\<close>

fun wait_for ::
    "(data_queue \<Rightarrow> bool) \<Rightarrow> data_queue \<Rightarrow> wake list \<Rightarrow> failure + (data_queue \<times> bool \<times> wake list)" where
  "wait_for p q [] = Inr (q, p q, [])"
| "wait_for p q (w # ws) =
     (if p q then Inr (q, True, w # ws)
      else bind_res (apply_events q (wake_events w)) (\<lambda>q'.
             case w of Woken _ \<Rightarrow> wait_for p q' ws | DeadlinePassed _ \<Rightarrow> Inr (q', p q', ws)))"

section \<open>Reading and writing\<close>

text \<open>Results: the queue, the bytes stored in the caller's buffer, the return value, the waits left.\<close>

type_synonym read_result = "failure + (data_queue \<times> byte list \<times> int \<times> wake list)"
type_synonym write_result = "failure + (data_queue \<times> int \<times> wake list)"

definition DataQueue_finish_read :: "data_queue \<Rightarrow> nat \<Rightarrow> wake list \<Rightarrow> read_result" where
  "DataQueue_finish_read q buflen ws =
     bind_res (DataQueue_take q buflen) (\<lambda>(q', out, rc). Inr (q', out, rc, ws))"

fun DataQueue_read :: "data_queue \<Rightarrow> nat \<Rightarrow> wake list \<Rightarrow> read_result" where
  "DataQueue_read q buflen ws =
     (if DataQueue_availableReadSize q = 0 then
        (if \<not> m_connected q then Inr (q, [], eConnectionLost, ws)
         else case ws of
             [] \<Rightarrow> Inl Blocked
           | w # ws' \<Rightarrow>
               bind_res (apply_events q (wake_events w)) (\<lambda>q'.
                 if DataQueue_availableReadSize q' = 0 \<and> \<not> m_connected q'
                 then Inr (q', [], eConnectionLost, ws')
                 else DataQueue_read q' buflen ws'))
      else DataQueue_finish_read q buflen ws)"

declare DataQueue_read.simps [simp del]

definition DataQueue_readWithTimeout :: "data_queue \<Rightarrow> nat \<Rightarrow> wake list \<Rightarrow> read_result" where
  "DataQueue_readWithTimeout q buflen ws =
     (if DataQueue_availableReadSize q = 0 then
        (if \<not> m_connected q then Inr (q, [], eConnectionLost, ws)
         else bind_res (wait_for (\<lambda>q. DataQueue_availableReadSize q > 0) q ws) (\<lambda>(q', rc, ws').
           if \<not> rc then
             (if \<not> m_connected q' then Inr (q', [], eConnectionLost, ws')
              else Inr (q', [], eTimeout, ws'))
           else if DataQueue_availableReadSize q' = 0 \<and> \<not> m_connected q'
           then Inr (q', [], eConnectionLost, ws')
           else DataQueue_finish_read q' buflen ws'))
      else DataQueue_finish_read q buflen ws)"

definition DataQueue_finish_write :: "data_queue \<Rightarrow> byte list \<Rightarrow> wake list \<Rightarrow> write_result" where
  "DataQueue_finish_write q buffer ws =
     bind_res (DataQueue_put q buffer) (\<lambda>(q', rc). Inr (q', rc, ws))"

definition DataQueue_write :: "data_queue \<Rightarrow> byte list \<Rightarrow> wake list \<Rightarrow> write_result" where
  "DataQueue_write q buffer ws =
     (if length buffer \<ge> RingBuffer_size (m_buffer q) then Inr (q, eTooBigBuffer, ws)
      else if DataQueue_availableWriteSize q = 0 then
        (if \<not> m_connected q then Inr (q, eConnectionLost, ws)
         else bind_res (wait_until (\<lambda>q. DataQueue_availableWriteSize q > 0) q ws) (\<lambda>(q', ws').
           if DataQueue_availableWriteSize q' = 0 \<and> \<not> m_connected q'
           then Inr (q', eConnectionLost, ws')
           else DataQueue_finish_write q' buffer ws'))
      else DataQueue_finish_write q buffer ws)"

section \<open>The bytes in the queue, and the invariant\<close>

definition dq_contents :: "data_queue \<Rightarrow> byte list" where
  "dq_contents q = ring_contents (m_buffer q)"

definition dq_capacity :: "data_queue \<Rightarrow> nat" where
  "dq_capacity q = ring_capacity (m_buffer q)"

text \<open>The size of an array object stays below \<open>2 ^ 63\<close> (the positive \<^verbatim>\<open>ssize_t\<close> values).\<close>

definition dq_inv :: "data_queue \<Rightarrow> bool" where
  "dq_inv q \<longleftrightarrow> ring_inv (m_buffer q) \<and> length (m_data (m_buffer q)) < 2 ^ 63"

lemmas dq_defs = dq_contents_def dq_capacity_def dq_inv_def

lemma dq_inv_new: "0 < n \<Longrightarrow> n < 2 ^ 63 \<Longrightarrow> dq_inv (DataQueue n)"
  by (simp add: dq_inv_def DataQueue_def ring_inv_new size_modulus_def) (simp add: RingBuffer_def)

lemma dq_new [simp]:
  "dq_contents (DataQueue n) = []" "dq_capacity (DataQueue n) = n - 1" "m_connected (DataQueue n) = False"
  by (simp_all add: dq_defs DataQueue_def ring_capacity_def) (simp add: RingBuffer_def)

lemma dq_flag [simp]:
  "m_connected (DataQueue_setConnectionFlag q c) = c"
  "dq_contents (DataQueue_setConnectionFlag q c) = dq_contents q"
  "dq_capacity (DataQueue_setConnectionFlag q c) = dq_capacity q"
  "dq_inv (DataQueue_setConnectionFlag q c) = dq_inv q"
  by (simp_all add: DataQueue_setConnectionFlag_def dq_defs)

lemma dq_bounded: "dq_inv q \<Longrightarrow> length (dq_contents q) \<le> dq_capacity q"
  by (simp add: dq_defs ring.bounded)

lemma dq_available [simp]:
  "dq_inv q \<Longrightarrow> DataQueue_availableReadSize q = length (dq_contents q)"
  "dq_inv q \<Longrightarrow> DataQueue_availableWriteSize q = dq_capacity q - length (dq_contents q)"
  "dq_inv q \<Longrightarrow> RingBuffer_size (m_buffer q) = Suc (dq_capacity q)"
  by (auto simp: DataQueue_availableReadSize_def DataQueue_availableWriteSize_def dq_defs
      ring.avail_read_law ring.avail_write_law RingBuffer_size_def ring_capacity_def ring_inv_def)

lemma dq_capacity_bound: "dq_inv q \<Longrightarrow> dq_capacity q < 2 ^ 63"
  by (auto simp: dq_defs ring_capacity_def)

lemma take_spec:
  assumes "dq_inv q"
  obtains q' where "DataQueue_take q n = Inr (q', take n (dq_contents q), int (min n (length (dq_contents q))))"
    and "dq_inv q'" and "dq_contents q' = drop n (dq_contents q)"
    and "dq_capacity q' = dq_capacity q" and "m_connected q' = m_connected q"
proof -
  from assms have inv: "ring_inv (m_buffer q)" by (simp add: dq_inv_def)
  obtain rb where rb: "RingBuffer_read (m_buffer q) n =
      Inr (rb, take n (dq_contents q), min n (length (dq_contents q)))"
    "ring_inv rb" "ring_contents rb = drop n (dq_contents q)" "m_data rb = m_data (m_buffer q)"
    using RingBuffer_read_spec [OF inv, of n] by (auto simp: dq_contents_def)
  have "min n (length (dq_contents q)) < 2 ^ 63"
    using dq_bounded [OF assms] dq_capacity_bound [OF assms] by linarith
  with rb(1) have "DataQueue_take q n =
      Inr (q\<lparr>m_buffer := rb\<rparr>, take n (dq_contents q), int (min n (length (dq_contents q))))"
    by (simp only: DataQueue_take_def bind_res_simps prod.case to_ssize_small)
  then show thesis
    by (rule that) (use rb assms in \<open>simp_all add: dq_defs ring_capacity_def\<close>)
qed

lemma put_spec:
  assumes "dq_inv q"
  obtains q' where "DataQueue_put q bs = Inr (q', int (min (length bs) (dq_capacity q - length (dq_contents q))))"
    and "dq_inv q'" and "dq_contents q' = dq_contents q @ take (dq_capacity q - length (dq_contents q)) bs"
    and "dq_capacity q' = dq_capacity q" and "m_connected q' = m_connected q"
proof -
  let ?k = "min (length bs) (dq_capacity q - length (dq_contents q))"
  from assms have inv: "ring_inv (m_buffer q)" by (simp add: dq_inv_def)
  obtain rb where rb: "RingBuffer_write (m_buffer q) bs = Inr (rb, ?k)" "ring_inv rb"
    "ring_contents rb = dq_contents q @ take ?k bs" "length (m_data rb) = length (m_data (m_buffer q))"
    using RingBuffer_write_spec [OF inv refl, of bs] by (auto simp: dq_contents_def dq_capacity_def)
  have "?k < 2 ^ 63" using dq_capacity_bound [OF assms] by linarith
  with rb(1) have "DataQueue_put q bs = Inr (q\<lparr>m_buffer := rb\<rparr>, int ?k)"
    by (simp only: DataQueue_put_def bind_res_simps prod.case to_ssize_small)
  then show thesis
    by (rule that) (use rb assms in \<open>simp_all add: dq_defs ring_capacity_def\<close>)
qed

lemma apply_event_inv:
  assumes "dq_inv q"
  shows "\<exists>q'. apply_event q e = Inr q' \<and> dq_inv q' \<and> dq_capacity q' = dq_capacity q"
proof (cases e)
  case (Other_read n)
  obtain q' where "DataQueue_take q n = Inr (q', take n (dq_contents q), int (min n (length (dq_contents q))))"
    "dq_inv q'" "dq_capacity q' = dq_capacity q"
    using assms by (rule take_spec)
  with Other_read assms show ?thesis by simp
next
  case (Other_write bs)
  obtain q' where "DataQueue_put q bs = Inr (q', int (min (length bs) (dq_capacity q - length (dq_contents q))))"
    "dq_inv q'" "dq_capacity q' = dq_capacity q"
    using assms by (rule put_spec)
  with Other_write assms show ?thesis by simp
next
  case (Other_setConnectionFlag c)
  with assms show ?thesis by simp
qed

lemma apply_events_append:
  "apply_events q (es @ es') = bind_res (apply_events q es) (\<lambda>q'. apply_events q' es')"
  by (induction es arbitrary: q) (simp_all add: bind_res_def split: sum.splits)

lemma apply_events_inv:
  "dq_inv q \<Longrightarrow> \<exists>q'. apply_events q es = Inr q' \<and> dq_inv q' \<and> dq_capacity q' = dq_capacity q"
proof (induction es arbitrary: q)
  case (Cons e es)
  obtain q1 where "apply_event q e = Inr q1" "dq_inv q1" "dq_capacity q1 = dq_capacity q"
    using apply_event_inv [OF Cons.prems] by blast
  with Cons.IH [of q1] show ?case by auto
qed simp

lemma wait_for_inv:
  "dq_inv q \<Longrightarrow> \<exists>q' ws'. wait_for p q ws = Inr (q', p q', ws') \<and> dq_inv q' \<and> dq_capacity q' = dq_capacity q"
proof (induction ws arbitrary: q)
  case (Cons w ws)
  obtain q1 where "apply_events q (wake_events w) = Inr q1" "dq_inv q1" "dq_capacity q1 = dq_capacity q"
    using apply_events_inv [OF Cons.prems] by blast
  with Cons.IH [of q1] Cons.prems show ?case by (auto split: wake.splits)
qed simp

lemma wait_until_inv:
  "dq_inv q \<Longrightarrow> wait_until p q ws = Inl Blocked \<or>
     (\<exists>q' ws'. wait_until p q ws = Inr (q', ws') \<and> p q' \<and> dq_inv q' \<and> dq_capacity q' = dq_capacity q)"
proof (induction ws arbitrary: q)
  case (Cons w ws)
  obtain q1 where "apply_events q (wake_events w) = Inr q1" "dq_inv q1" "dq_capacity q1 = dq_capacity q"
    using apply_events_inv [OF Cons.prems] by blast
  with Cons.IH [of q1] Cons.prems show ?case by auto
qed simp

section \<open>What the calls return\<close>

text \<open>
  A read delivers when it takes the first \<open>n\<close> bytes of a non-empty queue and returns their
  number; it reports a lost connection or a timeout only with the queue empty.
\<close>

definition delivers :: "nat \<Rightarrow> data_queue \<Rightarrow> byte list \<Rightarrow> int \<Rightarrow> bool" where
  "delivers n q' out rc \<longleftrightarrow>
     (\<exists>c. c \<noteq> [] \<and> out = take n c \<and> dq_contents q' = drop n c \<and> rc = int (length out))"

definition lost :: "data_queue \<Rightarrow> byte list \<Rightarrow> int \<Rightarrow> bool" where
  "lost q' out rc \<longleftrightarrow> rc = eConnectionLost \<and> out = [] \<and> dq_contents q' = [] \<and> \<not> m_connected q'"

definition timed_out :: "data_queue \<Rightarrow> byte list \<Rightarrow> int \<Rightarrow> bool" where
  "timed_out q' out rc \<longleftrightarrow> rc = eTimeout \<and> out = [] \<and> dq_contents q' = [] \<and> m_connected q'"

lemma finish_read_delivers:
  assumes "dq_inv q" and "dq_contents q \<noteq> []"
  obtains q' out rc where "DataQueue_finish_read q n ws = Inr (q', out, rc, ws)"
    and "dq_inv q'" and "dq_capacity q' = dq_capacity q" and "m_connected q' = m_connected q"
    and "out = take n (dq_contents q)" and "dq_contents q' = drop n (dq_contents q)"
    and "rc = int (length out)" and "delivers n q' out rc"
proof -
  obtain q' where "DataQueue_take q n = Inr (q', take n (dq_contents q), int (min n (length (dq_contents q))))"
    "dq_inv q'" "dq_contents q' = drop n (dq_contents q)" "dq_capacity q' = dq_capacity q"
    "m_connected q' = m_connected q"
    using assms(1) by (rule take_spec)
  with assms(2) that show thesis
    by (auto simp: DataQueue_finish_read_def delivers_def min.commute)
qed

lemma finish_read_outcome:
  assumes "dq_inv q" and "dq_contents q \<noteq> []"
  shows "\<exists>q' out rc. DataQueue_finish_read q n ws = Inr (q', out, rc, ws) \<and> dq_inv q' \<and>
           dq_capacity q' = dq_capacity q \<and> delivers n q' out rc"
  using finish_read_delivers [OF assms] by metis

lemma read_waits:
  assumes "dq_inv q" and "dq_contents q = []" and "m_connected q"
    and "apply_events q (wake_events w) = Inr q1" and "dq_inv q1"
  shows "DataQueue_read q n (w # ws) =
     (if dq_contents q1 = [] \<and> \<not> m_connected q1 then Inr (q1, [], eConnectionLost, ws)
      else DataQueue_read q1 n ws)"
  using assms by (simp add: DataQueue_read.simps [of q n "w # ws"])

lemma read_immediate:
  "dq_inv q \<Longrightarrow> dq_contents q \<noteq> [] \<Longrightarrow> DataQueue_read q n ws = DataQueue_finish_read q n ws"
  by (simp add: DataQueue_read.simps [of q n ws])

lemma read_lost:
  "dq_inv q \<Longrightarrow> dq_contents q = [] \<Longrightarrow> \<not> m_connected q \<Longrightarrow>
   DataQueue_read q n ws = Inr (q, [], eConnectionLost, ws)"
  by (simp add: DataQueue_read.simps [of q n ws])

lemma read_blocked:
  "dq_inv q \<Longrightarrow> dq_contents q = [] \<Longrightarrow> m_connected q \<Longrightarrow> DataQueue_read q n [] = Inl Blocked"
  by (simp add: DataQueue_read.simps [of q n "[]"])

lemma read_settled:
  assumes "dq_inv q" and "dq_contents q \<noteq> [] \<or> \<not> m_connected q"
  shows "\<exists>q' out rc. DataQueue_read q n ws = Inr (q', out, rc, ws) \<and> dq_inv q' \<and>
           dq_capacity q' = dq_capacity q \<and> (lost q' out rc \<or> delivers n q' out rc)"
proof (cases "dq_contents q = []")
  case True
  with assms show ?thesis by (simp add: read_lost lost_def)
next
  case False
  from finish_read_outcome [OF assms(1) this] show ?thesis
    unfolding read_immediate [OF assms(1) False] by blast
qed

lemma read_outcome:
  assumes "dq_inv q"
  shows "DataQueue_read q n ws = Inl Blocked \<or>
    (\<exists>q' out rc ws'. DataQueue_read q n ws = Inr (q', out, rc, ws') \<and> dq_inv q' \<and>
       dq_capacity q' = dq_capacity q \<and> (lost q' out rc \<or> delivers n q' out rc))"
  using assms
proof (induction ws arbitrary: q)
  case (Cons w ws)
  show ?case
  proof (cases "dq_contents q = [] \<and> m_connected q")
    case True
    obtain q1 where q1: "apply_events q (wake_events w) = Inr q1" "dq_inv q1" "dq_capacity q1 = dq_capacity q"
      using apply_events_inv [OF Cons.prems] by blast
    with Cons.IH [of q1] Cons.prems True show ?thesis by (auto simp: read_waits lost_def)
  next
    case False
    with read_settled [OF Cons.prems, of n "w # ws"] show ?thesis by blast
  qed
next
  case Nil
  show ?case
  proof (cases "dq_contents q = [] \<and> m_connected q")
    case True
    with Nil show ?thesis by (simp add: read_blocked)
  next
    case False
    with read_settled [OF Nil, of n "[]"] show ?thesis by blast
  qed
qed

lemma readWithTimeout_outcome:
  assumes "dq_inv q"
  shows "\<exists>q' out rc ws'. DataQueue_readWithTimeout q n ws = Inr (q', out, rc, ws') \<and> dq_inv q' \<and>
       dq_capacity q' = dq_capacity q \<and>
       (lost q' out rc \<or> timed_out q' out rc \<or> delivers n q' out rc)"
proof (cases "dq_contents q = []")
  case True
  obtain q1 ws1 where q1: "wait_for (\<lambda>q. DataQueue_availableReadSize q > 0) q ws =
      Inr (q1, DataQueue_availableReadSize q1 > 0, ws1)" "dq_inv q1" "dq_capacity q1 = dq_capacity q"
    using wait_for_inv [OF assms] by blast
  show ?thesis
  proof (cases "dq_contents q1 = [] \<or> \<not> m_connected q")
    case True
    with \<open>dq_contents q = []\<close> q1 assms show ?thesis
      by (auto simp: DataQueue_readWithTimeout_def lost_def timed_out_def)
  next
    case False
    with True q1 assms have "DataQueue_readWithTimeout q n ws = DataQueue_finish_read q1 n ws1"
      by (simp add: DataQueue_readWithTimeout_def)
    with finish_read_outcome [OF q1(2), of n ws1] False q1(3) show ?thesis by auto
  qed
next
  case False
  with assms have "DataQueue_readWithTimeout q n ws = DataQueue_finish_read q n ws"
    by (simp add: DataQueue_readWithTimeout_def)
  with finish_read_outcome [OF assms False, of n ws] show ?thesis by auto
qed

text \<open>The queue as a waiting call finds it after its \<open>j\<close>-th return from the wait (\<open>0\<close>: as the call found it).\<close>

definition queue_after :: "data_queue \<Rightarrow> wake list \<Rightarrow> nat \<Rightarrow> failure + data_queue" where
  "queue_after q ws j = apply_events q (concat (map wake_events (take j ws)))"

lemma queue_after_0 [simp]: "queue_after q ws 0 = Inr q"
  by (simp add: queue_after_def)

lemma queue_after_Suc [simp]:
  "queue_after q (w # ws) (Suc j) = bind_res (apply_events q (wake_events w)) (\<lambda>q1. queue_after q1 ws j)"
  by (simp add: queue_after_def apply_events_append)

text \<open>
  \<open>idle\<close>: nothing that would end a read. \<open>settles\<close>: the read found the queue \<open>q1\<close> after \<open>j\<close> returns from its wait, and
  its results are the first bytes of that queue, or the lost connection when there are none.
\<close>

definition idle :: "data_queue \<Rightarrow> bool" where
  "idle q \<longleftrightarrow> dq_contents q = [] \<and> m_connected q"

definition settles :: "data_queue \<Rightarrow> nat \<Rightarrow> wake list \<Rightarrow> nat \<Rightarrow> data_queue \<Rightarrow> bool" where
  "settles q n ws j q1 \<longleftrightarrow> (\<exists>q'.
     DataQueue_read q n ws =
       Inr (q', take n (dq_contents q1),
            if dq_contents q1 = [] then eConnectionLost else int (min n (length (dq_contents q1))), drop j ws) \<and>
     dq_inv q' \<and> dq_contents q' = drop n (dq_contents q1) \<and> m_connected q' = m_connected q1)"

lemma settles_at_once:
  assumes "dq_inv q" and "\<not> idle q"
  shows "settles q n ws 0 q"
proof (cases "dq_contents q = []")
  case True
  with assms show ?thesis by (simp add: idle_def settles_def read_lost)
next
  case False
  obtain q' out rc where "DataQueue_finish_read q n ws = Inr (q', out, rc, ws)" "dq_inv q'" "m_connected q' = m_connected q"
    "out = take n (dq_contents q)" "dq_contents q' = drop n (dq_contents q)" "rc = int (length out)"
    using finish_read_delivers [OF assms(1) False, of n ws] by metis
  with False show ?thesis
    by (intro exI [of _ q'] settles_def [THEN iffD2]) (simp add: read_immediate [OF assms(1) False] min.commute)
qed

lemma settles_later:
  assumes "dq_inv q" and "idle q" and "apply_events q (wake_events w) = Inr q1" and "dq_inv q1"
  shows "settles q n (w # ws) (Suc j) q2 \<longleftrightarrow> settles q1 n ws j q2"
proof -
  have "DataQueue_read q n (w # ws) = DataQueue_read q1 n ws"
    using assms by (simp add: idle_def read_waits read_lost)
  then show ?thesis by (simp add: settles_def)
qed

lemma read_exact:
  assumes "dq_inv q"
  shows "(\<forall>j \<le> length ws. \<exists>p. queue_after q ws j = Inr p \<and> idle p) \<and> DataQueue_read q n ws = Inl Blocked \<or>
    (\<exists>j \<le> length ws. \<exists>q1. queue_after q ws j = Inr q1 \<and> \<not> idle q1 \<and>
       (\<forall>i < j. \<exists>p. queue_after q ws i = Inr p \<and> idle p) \<and> settles q n ws j q1)"
  using assms
proof (induction ws arbitrary: q)
  case Nil
  then show ?case by (cases "idle q") (auto simp: settles_at_once, simp add: idle_def read_blocked)
next
  case (Cons w ws)
  show ?case
  proof (cases "idle q")
    case False
    then show ?thesis by (intro disjI2 exI [of _ 0]) (simp add: settles_at_once Cons.prems)
  next
    case True
    obtain q1 where q1: "apply_events q (wake_events w) = Inr q1" "dq_inv q1"
      using apply_events_inv [OF Cons.prems] by blast
    then have same: "DataQueue_read q n (w # ws) = DataQueue_read q1 n ws"
      using True Cons.prems by (simp add: idle_def read_waits read_lost)
    from Cons.IH [OF q1(2)] show ?thesis
    proof (elim disjE exE conjE)
      assume "\<forall>j \<le> length ws. \<exists>p. queue_after q1 ws j = Inr p \<and> idle p" "DataQueue_read q1 n ws = Inl Blocked"
      then have "\<exists>p. queue_after q (w # ws) j = Inr p \<and> idle p" if "j \<le> Suc (length ws)" for j
        using that True q1(1) by (cases j) simp_all
      with \<open>DataQueue_read q1 n ws = Inl Blocked\<close> same show ?thesis by simp
    next
      fix j q2
      assume j: "j \<le> length ws" "queue_after q1 ws j = Inr q2" "\<not> idle q2" "settles q1 n ws j q2"
        and before: "\<forall>i < j. \<exists>p. queue_after q1 ws i = Inr p \<and> idle p"
      have "\<exists>p. queue_after q (w # ws) i = Inr p \<and> idle p" if "i < Suc j" for i
        using that True before q1(1) by (cases i) simp_all
      with j settles_later [OF Cons.prems True q1] q1(1) show ?thesis
        by (intro disjI2 exI [of _ "Suc j"]) auto
    qed
  qed
qed

text \<open>The wait of the timed read ends with the queue after some number of returns, and until then the queue was empty.\<close>

lemma wait_for_exact:
  assumes "dq_inv q"
  shows "\<exists>j \<le> length ws. \<exists>q1. queue_after q ws j = Inr q1 \<and> dq_inv q1 \<and>
    (\<forall>i < j. \<exists>p. queue_after q ws i = Inr p \<and> dq_contents p = []) \<and>
    wait_for (\<lambda>q. DataQueue_availableReadSize q > 0) q ws = Inr (q1, dq_contents q1 \<noteq> [], drop j ws)"
  using assms
proof (induction ws arbitrary: q)
  case (Cons w ws)
  show ?case
  proof (cases "dq_contents q = []")
    case False
    then show ?thesis by (intro exI [of _ 0]) (simp add: Cons.prems)
  next
    case True
    obtain q1 where q1: "apply_events q (wake_events w) = Inr q1" "dq_inv q1"
      using apply_events_inv [OF Cons.prems] by blast
    show ?thesis
    proof (cases w)
      case (DeadlinePassed es)
      with q1 True Cons.prems show ?thesis by (intro exI [of _ "Suc 0"]) (simp add: queue_after_def)
    next
      case (Woken es)
      obtain j q2 where j: "j \<le> length ws" "queue_after q1 ws j = Inr q2" "dq_inv q2"
        "\<forall>i < j. \<exists>p. queue_after q1 ws i = Inr p \<and> dq_contents p = []"
        "wait_for (\<lambda>q. DataQueue_availableReadSize q > 0) q1 ws = Inr (q2, dq_contents q2 \<noteq> [], drop j ws)"
        using Cons.IH [OF q1(2)] by blast
      have "\<exists>p. queue_after q (w # ws) i = Inr p \<and> dq_contents p = []" if "i < Suc j" for i
        using that True j(4) q1(1) by (cases i) simp_all
      with j(1-3,5) q1(1) Woken True Cons.prems show ?thesis by (intro exI [of _ "Suc j"]) simp
    qed
  qed
qed simp

lemma timed_read_exact:
  assumes "dq_inv q"
  shows "\<exists>j \<le> length ws. \<exists>q1 q' out rc. queue_after q ws j = Inr q1 \<and>
    (\<forall>i < j. \<exists>p. queue_after q ws i = Inr p \<and> dq_contents p = []) \<and>
    DataQueue_readWithTimeout q n ws = Inr (q', out, rc, drop j ws) \<and> dq_inv q' \<and>
    out = take n (dq_contents q1) \<and> dq_contents q' = drop n (dq_contents q1) \<and> m_connected q' = m_connected q1 \<and>
    (lost q' out rc \<or> timed_out q' out rc \<or> delivers n q' out rc)"
proof (cases "dq_contents q = [] \<and> m_connected q")
  case False
  show ?thesis
  proof (cases "dq_contents q = []")
    case True
    with False assms show ?thesis
      by (intro exI [of _ 0]) (simp add: DataQueue_readWithTimeout_def lost_def)
  next
    case False
    obtain q' out rc where "DataQueue_finish_read q n ws = Inr (q', out, rc, ws)" "dq_inv q'" "m_connected q' = m_connected q"
      "out = take n (dq_contents q)" "dq_contents q' = drop n (dq_contents q)" "delivers n q' out rc"
      using finish_read_delivers [OF assms False, of n ws] by metis
    with False assms show ?thesis by (intro exI [of _ 0]) (simp add: DataQueue_readWithTimeout_def)
  qed
next
  case True
  obtain j q1 where j: "j \<le> length ws" "queue_after q ws j = Inr q1" "dq_inv q1"
    "\<forall>i < j. \<exists>p. queue_after q ws i = Inr p \<and> dq_contents p = []"
    "wait_for (\<lambda>q. DataQueue_availableReadSize q > 0) q ws = Inr (q1, dq_contents q1 \<noteq> [], drop j ws)"
    using wait_for_exact [OF assms, of ws] by blast
  show ?thesis
  proof (cases "dq_contents q1 = []")
    case empty: True
    with True j assms show ?thesis
      by (intro exI [of _ j]) (simp add: DataQueue_readWithTimeout_def lost_def timed_out_def)
  next
    case False
    obtain q' out rc where "DataQueue_finish_read q1 n (drop j ws) = Inr (q', out, rc, drop j ws)" "dq_inv q'"
      "m_connected q' = m_connected q1" "out = take n (dq_contents q1)" "dq_contents q' = drop n (dq_contents q1)"
      "delivers n q' out rc"
      using finish_read_delivers [OF j(3) False, of n "drop j ws"] by metis
    with True False j assms show ?thesis by (intro exI [of _ j]) (simp add: DataQueue_readWithTimeout_def)
  qed
qed

lemma finish_write_appends:
  assumes "dq_inv q"
  obtains q' where "DataQueue_finish_write q bs ws =
      Inr (q', int (min (length bs) (dq_capacity q - length (dq_contents q))), ws)"
    and "dq_inv q'" and "dq_capacity q' = dq_capacity q" and "m_connected q' = m_connected q"
    and "dq_contents q' = dq_contents q @ take (dq_capacity q - length (dq_contents q)) bs"
proof -
  obtain q' where "DataQueue_put q bs = Inr (q', int (min (length bs) (dq_capacity q - length (dq_contents q))))"
    "dq_inv q'" "dq_contents q' = dq_contents q @ take (dq_capacity q - length (dq_contents q)) bs"
    "dq_capacity q' = dq_capacity q" "m_connected q' = m_connected q"
    using assms by (rule put_spec)
  with that show thesis by (simp add: DataQueue_finish_write_def)
qed

text \<open>A write transfers as many bytes as fit behind the contents it finds, at least one slot being free.\<close>

definition accepts :: "nat \<Rightarrow> byte list \<Rightarrow> byte list \<Rightarrow> data_queue \<Rightarrow> int \<Rightarrow> bool" where
  "accepts cap c bs q' rc \<longleftrightarrow>
     length c < cap \<and> rc = int (min (length bs) (cap - length c)) \<and>
     dq_contents q' = c @ take (cap - length c) bs"

lemma finish_write_accepts:
  assumes "dq_inv q" and "length (dq_contents q) < dq_capacity q"
  shows "\<exists>q' rc. DataQueue_finish_write q bs ws = Inr (q', rc, ws) \<and> dq_inv q' \<and>
           dq_capacity q' = dq_capacity q \<and> m_connected q' = m_connected q \<and>
           accepts (dq_capacity q) (dq_contents q) bs q' rc"
proof -
  obtain q' where "DataQueue_finish_write q bs ws =
      Inr (q', int (min (length bs) (dq_capacity q - length (dq_contents q))), ws)"
    "dq_inv q'" "dq_capacity q' = dq_capacity q" "m_connected q' = m_connected q"
    "dq_contents q' = dq_contents q @ take (dq_capacity q - length (dq_contents q)) bs"
    using assms(1) by (rule finish_write_appends)
  with assms(2) show ?thesis by (auto simp: accepts_def)
qed

lemma write_too_big:
  "dq_inv q \<Longrightarrow> dq_capacity q < length bs \<Longrightarrow> DataQueue_write q bs ws = Inr (q, eTooBigBuffer, ws)"
  by (simp add: DataQueue_write_def)

lemma write_immediate:
  "dq_inv q \<Longrightarrow> length bs \<le> dq_capacity q \<Longrightarrow> length (dq_contents q) < dq_capacity q \<Longrightarrow>
   DataQueue_write q bs ws = DataQueue_finish_write q bs ws"
  by (simp add: DataQueue_write_def)

lemma write_lost:
  "dq_inv q \<Longrightarrow> length bs \<le> dq_capacity q \<Longrightarrow> length (dq_contents q) = dq_capacity q \<Longrightarrow>
   \<not> m_connected q \<Longrightarrow> DataQueue_write q bs ws = Inr (q, eConnectionLost, ws)"
  by (simp add: DataQueue_write_def)

lemma write_waits:
  assumes "dq_inv q" and "length bs \<le> dq_capacity q" and "length (dq_contents q) = dq_capacity q"
    and "m_connected q"
  shows "DataQueue_write q bs ws = Inl Blocked \<or>
    (\<exists>q' rc ws' c. DataQueue_write q bs ws = Inr (q', rc, ws') \<and> dq_inv q' \<and>
       dq_capacity q' = dq_capacity q \<and> accepts (dq_capacity q) c bs q' rc)"
  using wait_until_inv [OF assms(1), of "\<lambda>q. DataQueue_availableWriteSize q > 0" ws]
proof (elim disjE exE conjE)
  assume "wait_until (\<lambda>q. 0 < DataQueue_availableWriteSize q) q ws = Inl Blocked"
  with assms show ?thesis by (simp add: DataQueue_write_def)
next
  fix q1 ws1
  assume q1: "wait_until (\<lambda>q. 0 < DataQueue_availableWriteSize q) q ws = Inr (q1, ws1)"
    "0 < DataQueue_availableWriteSize q1" "dq_inv q1" "dq_capacity q1 = dq_capacity q"
  then have "DataQueue_write q bs ws = DataQueue_finish_write q1 bs ws1"
    using assms by (simp add: DataQueue_write_def)
  moreover have "length (dq_contents q1) < dq_capacity q1" using q1 by simp
  ultimately show ?thesis
    using finish_write_accepts [OF q1(3), of bs ws1] q1(4) by auto
qed

text \<open>What happens to a writer that waits while the other threads only change the flag.\<close>

definition only_flags :: "wake list \<Rightarrow> bool" where
  "only_flags ws \<longleftrightarrow> (\<forall>w \<in> set ws. \<forall>e \<in> set (wake_events w). \<exists>c. e = Other_setConnectionFlag c)"

lemma apply_flag_events:
  "\<forall>e \<in> set es. \<exists>c. e = Other_setConnectionFlag c \<Longrightarrow>
   \<exists>q'. apply_events q es = Inr q' \<and> dq_contents q' = dq_contents q \<and>
        dq_capacity q' = dq_capacity q \<and> dq_inv q' = dq_inv q"
  by (induction es arbitrary: q) fastforce+

lemma wait_until_only_flags:
  "only_flags ws \<Longrightarrow> dq_inv q \<Longrightarrow> length (dq_contents q) = dq_capacity q \<Longrightarrow>
   wait_until (\<lambda>q. DataQueue_availableWriteSize q > 0) q ws = Inl Blocked"
proof (induction ws arbitrary: q)
  case (Cons w ws)
  then obtain q1 where "apply_events q (wake_events w) = Inr q1" "dq_contents q1 = dq_contents q"
    "dq_capacity q1 = dq_capacity q" "dq_inv q1"
    using apply_flag_events [of "wake_events w" q] by (auto simp: only_flags_def)
  with Cons show ?case by (simp add: only_flags_def)
qed simp

section \<open>Properties\<close>

text \<open>
  C15 (read_never_loses_data): what a blocking \<^verbatim>\<open>read\<close> returns, for everything other threads do while it waits. It
  returns at the first of its looks at the queue (when it is called, then after each return from the wait) that finds
  bytes or a disconnected queue, and waits on only if none does. When it finds bytes it returns the first of them, and those
  are exactly the ones that leave the queue, connected or not; a lost connection is reported only when none are left.
\<close>
theorem read_never_loses_data:
  assumes "dq_inv q"
  shows "(\<forall>j \<le> length ws. \<exists>p. queue_after q ws j = Inr p \<and> dq_contents p = [] \<and> m_connected p) \<and>
      DataQueue_read q n ws = Inl Blocked \<or>
    (\<exists>j \<le> length ws. \<exists>q1 q'. queue_after q ws j = Inr q1 \<and> (dq_contents q1 \<noteq> [] \<or> \<not> m_connected q1) \<and>
       (\<forall>i < j. \<exists>p. queue_after q ws i = Inr p \<and> dq_contents p = [] \<and> m_connected p) \<and>
       DataQueue_read q n ws =
         Inr (q', take n (dq_contents q1),
              if dq_contents q1 = [] then eConnectionLost else int (min n (length (dq_contents q1))), drop j ws) \<and>
       dq_inv q' \<and> dq_contents q' = drop n (dq_contents q1) \<and> m_connected q' = m_connected q1)"
  using read_exact [OF assms, of ws n] unfolding settles_def idle_def by blast

text \<open>A writer puts three bytes in and disconnects while a reader of two waits; the third is still there for the next read.\<close>

theorem read_never_loses_data_witness:
  "\<exists>q'. DataQueue_read ((DataQueue 4)\<lparr>m_connected := True\<rparr>) 2
       [Woken [], Woken [Other_write [7, 8, 9], Other_setConnectionFlag False]] = Inr (q', [7, 8], 2, []) \<and>
     dq_contents q' = [9] \<and> \<not> m_connected q'"
proof -
  let ?q = "(DataQueue 4)\<lparr>m_connected := True\<rparr>"
    and ?ws = "[Woken [], Woken [Other_write [7, 8, 9], Other_setConnectionFlag False]]"
  have inv: "dq_inv ?q" using dq_inv_new [of 4] by (simp add: dq_inv_def)
  have first: "queue_after ?q ?ws 0 = Inr ?q" "queue_after ?q ?ws (Suc 0) = Inr ?q" "dq_contents ?q = []" "m_connected ?q"
    by (simp_all add: queue_after_def) (simp add: dq_contents_def DataQueue_def ring_contents_def RingBuffer_def)
  have cap: "dq_capacity ?q = 3" using dq_new(2) [of 4] by (simp add: dq_capacity_def)
  obtain q1 where "DataQueue_put ?q [7, 8, 9] = Inr (q1, 3)" "dq_contents q1 = [7, 8, 9]"
    using put_spec [OF inv, of "[7, 8, 9]"] first(3) cap by auto
  then have later: "queue_after ?q ?ws 2 = Inr (DataQueue_setConnectionFlag q1 False)" "dq_contents q1 = [7, 8, 9]"
    using inv first(3) cap dq_available(3) [OF dq_inv_new [of 4]] by (simp_all add: queue_after_def)
  have look: "j = 2 \<and> q3 = DataQueue_setConnectionFlag q1 False"
    if "j \<le> length ?ws" "queue_after ?q ?ws j = Inr q3" "dq_contents q3 \<noteq> [] \<or> \<not> m_connected q3" for j q3
  proof -
    have "j = 0 \<or> j = Suc 0 \<or> j = 2" using that(1) by auto
    with that(2,3) first later show ?thesis by auto
  qed
  from read_never_loses_data [OF inv, of ?ws 2] show ?thesis
  proof (elim disjE exE conjE)
    assume "\<forall>j \<le> length ?ws. \<exists>p. queue_after ?q ?ws j = Inr p \<and> dq_contents p = [] \<and> m_connected p"
    with later show ?thesis by (auto dest: spec [of _ 2])
  next
    fix j q3 q'
    assume "j \<le> length ?ws" "queue_after ?q ?ws j = Inr q3" "dq_contents q3 \<noteq> []"
      "DataQueue_read ?q 2 ?ws = Inr (q', take 2 (dq_contents q3),
        if dq_contents q3 = [] then eConnectionLost else int (min 2 (length (dq_contents q3))), drop j ?ws)"
      "dq_contents q' = drop 2 (dq_contents q3)" "m_connected q' = m_connected q3"
    with look [of j q3] later(2) show ?thesis by simp
  next
    fix j q3 q'
    assume "j \<le> length ?ws" "queue_after ?q ?ws j = Inr q3" "\<not> m_connected q3"
      "DataQueue_read ?q 2 ?ws = Inr (q', take 2 (dq_contents q3),
        if dq_contents q3 = [] then eConnectionLost else int (min 2 (length (dq_contents q3))), drop j ?ws)"
      "dq_contents q' = drop 2 (dq_contents q3)" "m_connected q' = m_connected q3"
    with look [of j q3] later(2) show ?thesis by simp
  qed
qed

text \<open>
  C25 (timed_read_returns): a \<^verbatim>\<open>read\<close> with a timeout always returns, and what it returns is what the queue holds
  after one of the returns from its wait, before which it was empty each time: data (the first bytes of the queue, which
  leave it), a lost connection (only when the queue is empty and disconnected), or a timeout (only when it is empty and
  still connected).
\<close>
theorem timed_read_returns:
  assumes "dq_inv q"
  shows "\<exists>j \<le> length ws. \<exists>q1 q' out rc. queue_after q ws j = Inr q1 \<and>
    (\<forall>i < j. \<exists>p. queue_after q ws i = Inr p \<and> dq_contents p = []) \<and>
    DataQueue_readWithTimeout q n ws = Inr (q', out, rc, drop j ws) \<and> dq_inv q' \<and>
    out = take n (dq_contents q1) \<and> dq_contents q' = drop n (dq_contents q1) \<and> m_connected q' = m_connected q1 \<and>
    (lost q' out rc \<or> timed_out q' out rc \<or> delivers n q' out rc)"
  using timed_read_exact [OF assms] by blast

theorem timed_read_returns_witness:
  "\<exists>j \<le> 1. \<exists>q1 q' out rc. let q = (DataQueue 4)\<lparr>m_connected := True\<rparr>; ws = [Woken [Other_write [9]]] in
    queue_after q ws j = Inr q1 \<and> DataQueue_readWithTimeout q 2 ws = Inr (q', out, rc, drop j ws) \<and> dq_inv q' \<and>
    out = take 2 (dq_contents q1) \<and> (lost q' out rc \<or> timed_out q' out rc \<or> delivers 2 q' out rc)"
proof -
  have inv: "dq_inv ((DataQueue 4)\<lparr>m_connected := True\<rparr>)" using dq_inv_new [of 4] by (simp add: dq_inv_def)
  have len: "length [Woken [Other_write [9]]] = 1" by simp
  show ?thesis
    using timed_read_returns [OF inv, of "[Woken [Other_write [9]]]" 2] unfolding Let_def len by blast
qed

text \<open>
  A reader that waits on an empty, connected queue returns as soon as it is
  woken with data in the queue (delivering that data) or with the connection gone
  (reporting it): neither event leaves it waiting.
\<close>
lemma waiting_reader_returns:
  assumes "dq_inv q" and "dq_contents q = []" and "m_connected q"
    and "apply_events q (wake_events w) = Inr q1"
    and "dq_contents q1 \<noteq> [] \<or> \<not> m_connected q1"
  shows "\<exists>q' out rc. DataQueue_read q n (w # ws) = Inr (q', out, rc, ws) \<and>
           (if dq_contents q1 = [] then rc = eConnectionLost \<and> q' = q1
            else out = take n (dq_contents q1) \<and> rc = int (length out) \<and>
                 dq_contents q' = drop n (dq_contents q1))"
proof -
  have inv: "dq_inv q1" using apply_events_inv [OF assms(1), of "wake_events w"] assms(4) by auto
  show ?thesis
  proof (cases "dq_contents q1 = []")
    case True
    with assms inv show ?thesis by (simp add: read_waits)
  next
    case False
    with assms inv have "DataQueue_read q n (w # ws) = DataQueue_finish_read q1 n ws"
      by (simp add: read_waits read_immediate)
    with False show ?thesis using finish_read_delivers [OF inv False, of n ws] by metis
  qed
qed

text \<open>
  A \<^verbatim>\<open>write\<close> that does not wait. A buffer larger than the queue is refused and changes
  nothing; otherwise, as long as a byte of space is left, the bytes that fit are appended
  and their number returned (connected or not); a full, disconnected queue reports the lost connection.
\<close>
lemma write_result:
  assumes "dq_inv q"
  shows "(dq_capacity q < length bs \<longrightarrow> DataQueue_write q bs ws = Inr (q, eTooBigBuffer, ws)) \<and>
    (length bs \<le> dq_capacity q \<and> length (dq_contents q) < dq_capacity q \<longrightarrow>
       (\<exists>q' rc. DataQueue_write q bs ws = Inr (q', rc, ws) \<and> dq_inv q' \<and>
          accepts (dq_capacity q) (dq_contents q) bs q' rc)) \<and>
    (length bs \<le> dq_capacity q \<and> length (dq_contents q) = dq_capacity q \<and> \<not> m_connected q \<longrightarrow>
       DataQueue_write q bs ws = Inr (q, eConnectionLost, ws))"
  using assms finish_write_accepts [OF assms, of bs ws]
  by (auto simp: write_too_big write_immediate write_lost)

text \<open>
  A writer that waits for space is not released by a disconnection. Its wait
  tests only for free space, so however often the connection flag changes it waits
  on; the check for a lost connection behind the wait is never reached with a full queue.
\<close>
lemma waiting_writer_hangs:
  assumes "dq_inv q" and "length bs \<le> dq_capacity q" and "length (dq_contents q) = dq_capacity q"
    and "m_connected q" and "only_flags ws"
  shows "DataQueue_write q bs ws = Inl Blocked"
  using assms wait_until_only_flags [OF assms(5,1,3)] by (simp add: DataQueue_write_def)

end
