(* ===== verification/Inproc.thy ===== *)
theory Inproc
  imports DataQueue
begin

text \<open>
  The inter-thread lines of src/common/inproc.cpp: the classes \<^verbatim>\<open>InprocLine\<close>, \<^verbatim>\<open>InprocAcceptor\<close> and
  \<^verbatim>\<open>InprocLineFactory\<close> with the registry they share (the static lists \<^verbatim>\<open>gs_acceptors\<close> and
  \<^verbatim>\<open>gs_connectQueue\<close>, guarded by \<^verbatim>\<open>gs_mutex\<close>).

  Objects are shared by pointer (two lines share each queue, the registry points to lines and
  acceptors), so the state is an explicit store: maps from object numbers to queues, lines
  and acceptors, with the two lists. A pointer is a number, a null \<^verbatim>\<open>shared_ptr\<close> is \<open>None\<close>, and
  following the pointer of a destroyed object is a failure. A wait takes what the other
  threads do meanwhile as an argument, as in the theory \<open>DataQueue\<close>.
\<close>

section \<open>State\<close>

record inproc_line =
  m_address :: string
  m_in :: "nat option"
  m_out :: "nat option"
  m_readTimeout :: int

text \<open>The only member of an \<^verbatim>\<open>InprocAcceptor\<close> is its address.\<close>

type_synonym inproc_acceptor = string

record inproc =
  queues :: "nat \<rightharpoonup> data_queue"
  lines :: "nat \<rightharpoonup> inproc_line"
  acceptors :: "nat \<rightharpoonup> inproc_acceptor"
  gs_acceptors :: "nat list"
  gs_connectQueue :: "nat list"
  fresh :: nat

definition inproc_init :: inproc where
  "inproc_init = \<lparr>queues = Map.empty, lines = Map.empty, acceptors = Map.empty,
                  gs_acceptors = [], gs_connectQueue = [], fresh = 0\<rparr>"

definition deref :: "('k \<rightharpoonup> 'v) \<Rightarrow> 'k \<Rightarrow> failure + 'v" where
  "deref store p = (case store p of None \<Rightarrow> Inl (Undefined DanglingPointer) | Some x \<Rightarrow> Inr x)"

definition deref_shared :: "(nat \<rightharpoonup> 'v) \<Rightarrow> nat option \<Rightarrow> failure + (nat \<times> 'v)" where
  "deref_shared store p =
     (case p of None \<Rightarrow> Inl (Undefined NullPointer)
      | Some i \<Rightarrow> bind_res (deref store i) (\<lambda>x. Inr (i, x)))"

lemma deref_eq_Inr [simp]: "deref store p = Inr x \<longleftrightarrow> store p = Some x"
  by (simp add: deref_def split: option.splits)

lemma deref_Some [simp]: "store p = Some x \<Longrightarrow> deref store p = Inr x"
  by simp

section \<open>InprocLine\<close>

definition inproc_buffer_size :: nat where
  "inproc_buffer_size = 65536"

text \<open>\<^verbatim>\<open>InprocLine(const std::string& address)\<close>, as \<^verbatim>\<open>createClient\<close> allocates it.\<close>

definition InprocLine_client :: "inproc \<Rightarrow> string \<Rightarrow> inproc \<times> nat" where
  "InprocLine_client st address =
     (st\<lparr>lines := (lines st)(fresh st \<mapsto>
           \<lparr>m_address = address, m_in = None, m_out = None, m_readTimeout = 0\<rparr>),
         fresh := fresh st + 1\<rparr>, fresh st)"

text \<open>
  \<^verbatim>\<open>InprocLine(InprocLine* other)\<close>: a line connected to \<open>other\<close> by two new queues, crossed over.
\<close>

definition InprocLine_server :: "inproc \<Rightarrow> nat \<Rightarrow> failure + (inproc \<times> nat)" where
  "InprocLine_server st other =
     bind_res (deref (lines st) other) (\<lambda>o_line.
       let qin = fresh st; qout = fresh st + 1; this = fresh st + 2;
           q = DataQueue_setConnectionFlag (DataQueue inproc_buffer_size) True
       in Inr (st\<lparr>queues := (queues st)(qin \<mapsto> q, qout \<mapsto> q),
                  lines := (lines st)(other \<mapsto> o_line\<lparr>m_out := Some qin, m_in := Some qout\<rparr>,
                                      this \<mapsto> \<lparr>m_address = m_address o_line, m_in = Some qin,
                                               m_out = Some qout, m_readTimeout = 0\<rparr>),
                  fresh := fresh st + 3\<rparr>, this))"

definition set_flag :: "inproc \<Rightarrow> nat option \<Rightarrow> bool \<Rightarrow> failure + inproc" where
  "set_flag st p c =
     bind_res (deref_shared (queues st) p) (\<lambda>(i, q).
       Inr (st\<lparr>queues := (queues st)(i \<mapsto> DataQueue_setConnectionFlag q c)\<rparr>))"

definition InprocLine_destroy :: "inproc \<Rightarrow> nat \<Rightarrow> failure + inproc" where
  "InprocLine_destroy st l =
     bind_res (deref (lines st) l) (\<lambda>line.
     bind_res (set_flag st (m_out line) False) (\<lambda>st1.
     bind_res (set_flag st1 (m_in line) False) (\<lambda>st2.
       Inr (st2\<lparr>lines := (lines st2)(l := None)\<rparr>))))"

definition InprocLine_read ::
    "inproc \<Rightarrow> nat \<Rightarrow> nat \<Rightarrow> wake list \<Rightarrow> failure + (inproc \<times> byte list \<times> int \<times> wake list)" where
  "InprocLine_read st l buflen ws =
     bind_res (deref (lines st) l) (\<lambda>line.
     bind_res (deref_shared (queues st) (m_in line)) (\<lambda>(i, q).
     bind_res (if m_readTimeout line > 0 then DataQueue_readWithTimeout q buflen ws
               else DataQueue_read q buflen ws) (\<lambda>(q', out, rc, ws').
       Inr (st\<lparr>queues := (queues st)(i \<mapsto> q')\<rparr>, out, rc, ws'))))"

definition InprocLine_write ::
    "inproc \<Rightarrow> nat \<Rightarrow> byte list \<Rightarrow> wake list \<Rightarrow> failure + (inproc \<times> int \<times> wake list)" where
  "InprocLine_write st l buffer ws =
     bind_res (deref (lines st) l) (\<lambda>line.
     bind_res (deref_shared (queues st) (m_out line)) (\<lambda>(i, q).
     bind_res (DataQueue_write q buffer ws) (\<lambda>(q', rc, ws').
       Inr (st\<lparr>queues := (queues st)(i \<mapsto> q')\<rparr>, rc, ws'))))"

text \<open>The value is read as a \<^verbatim>\<open>uint32_t\<close> and stored in an \<^verbatim>\<open>int\<close>.\<close>

definition InprocLine_setOption :: "inproc \<Rightarrow> nat \<Rightarrow> LineOption \<Rightarrow> 32 word \<Rightarrow> failure + inproc" where
  "InprocLine_setOption st l option data =
     bind_res (deref (lines st) l) (\<lambda>line.
       case option of
         ReceiveTimeout \<Rightarrow>
           Inr (st\<lparr>lines := (lines st)(l \<mapsto> line\<lparr>m_readTimeout := to_int32 (uint data)\<rparr>)\<rparr>)
       | SendTimeout \<Rightarrow> Inl (Throw (UnsupportedOption ''''))
       | OtherOption _ \<Rightarrow> Inl (Throw (UnsupportedOption '''')))"

section \<open>InprocAcceptor and InprocLineFactory\<close>

definition InprocAcceptor_new :: "inproc \<Rightarrow> string \<Rightarrow> inproc \<times> nat" where
  "InprocAcceptor_new st address =
     (st\<lparr>acceptors := (acceptors st)(fresh st \<mapsto> address), fresh := fresh st + 1\<rparr>, fresh st)"

declare InprocAcceptor_new_def [simp]

text \<open>\<^verbatim>\<open>~InprocAcceptor\<close>: the first entry of the list that points to it is erased.\<close>

definition InprocAcceptor_destroy :: "inproc \<Rightarrow> nat \<Rightarrow> inproc" where
  "InprocAcceptor_destroy st a =
     st\<lparr>gs_acceptors := remove1 a (gs_acceptors st), acceptors := (acceptors st)(a := None)\<rparr>"

fun scan_queue :: "(nat \<rightharpoonup> inproc_line) \<Rightarrow> string \<Rightarrow> nat list \<Rightarrow> failure + (nat \<times> nat list) option" where
  "scan_queue ls address [] = Inr None"
| "scan_queue ls address (l # rest) =
     bind_res (deref ls l) (\<lambda>line.
       if m_address line = address then Inr (Some (l, rest))
       else bind_res (scan_queue ls address rest) (\<lambda>r.
              Inr (map_option (\<lambda>(found, remaining). (found, l # remaining)) r)))"

definition InprocAcceptor_accept :: "inproc \<Rightarrow> nat \<Rightarrow> failure + (inproc \<times> nat option)" where
  "InprocAcceptor_accept st a =
     bind_res (deref (acceptors st) a) (\<lambda>address.
     bind_res (scan_queue (lines st) address (gs_connectQueue st)) (\<lambda>r.
       case r of
         None \<Rightarrow> Inr (st, None)
       | Some (l, rest) \<Rightarrow>
           bind_res (InprocLine_server (st\<lparr>gs_connectQueue := rest\<rparr>) l) (\<lambda>(st', s). Inr (st', Some s))))"

definition createClient_enqueue :: "inproc \<Rightarrow> string \<Rightarrow> inproc \<times> nat" where
  "createClient_enqueue st address =
     (let (st', l) = InprocLine_client st address
      in (st'\<lparr>gs_connectQueue := gs_connectQueue st' @ [l]\<rparr>, l))"

text \<open>
  \<^verbatim>\<open>waitConnection\<close>. Each turn of the loop scans the queue, then looks at the clock, then waits. An
  element of the last argument is one turn: the nanoseconds elapsed since the call when the
  clock is read, and the addresses of the clients that enqueue themselves during the wait.
  When no turn is left, no client comes any more and the time runs out.
\<close>

fun enqueue_all :: "inproc \<Rightarrow> string list \<Rightarrow> inproc" where
  "enqueue_all st [] = st"
| "enqueue_all st (address # rest) = enqueue_all (fst (createClient_enqueue st address)) rest"

fun InprocAcceptor_waitConnection ::
    "inproc \<Rightarrow> nat \<Rightarrow> int \<Rightarrow> (nat \<times> string list) list \<Rightarrow> failure + (inproc \<times> nat option)" where
  "InprocAcceptor_waitConnection st a timeoutInMs [] = InprocAcceptor_accept st a"
| "InprocAcceptor_waitConnection st a timeoutInMs ((elapsed, clients) # turns) =
     bind_res (InprocAcceptor_accept st a) (\<lambda>(st', r).
       case r of
         Some s \<Rightarrow> Inr (st', Some s)
       | None \<Rightarrow>
           if timeoutInMs * 1000000 - int elapsed < 0 then Inr (st', None)
           else InprocAcceptor_waitConnection (enqueue_all st' clients) a timeoutInMs turns)"

definition InprocLine_connected :: "inproc \<Rightarrow> nat \<Rightarrow> failure + bool" where
  "InprocLine_connected st l =
     bind_res (deref (lines st) l) (\<lambda>line. Inr (m_in line \<noteq> None \<and> m_out line \<noteq> None))"

text \<open>
  \<^verbatim>\<open>waitForConnection\<close>: during each turn of the wait one acceptor of the list runs.
\<close>

fun InprocLine_waitForConnection :: "inproc \<Rightarrow> nat \<Rightarrow> nat list \<Rightarrow> failure + inproc" where
  "InprocLine_waitForConnection st l [] =
     bind_res (InprocLine_connected st l) (\<lambda>c. if c then Inr st else Inl Blocked)"
| "InprocLine_waitForConnection st l (a # as) =
     bind_res (InprocLine_connected st l) (\<lambda>c.
       if c then Inr st
       else bind_res (InprocAcceptor_accept st a) (\<lambda>(st', _). InprocLine_waitForConnection st' l as))"

definition InprocLineFactory_createClient ::
    "inproc \<Rightarrow> string \<Rightarrow> nat list \<Rightarrow> failure + (inproc \<times> nat)" where
  "InprocLineFactory_createClient st address as =
     (let (st', l) = createClient_enqueue st address
      in bind_res (InprocLine_waitForConnection st' l as) (\<lambda>st''. Inr (st'', l)))"

fun address_taken :: "(nat \<rightharpoonup> string) \<Rightarrow> string \<Rightarrow> nat list \<Rightarrow> failure + bool" where
  "address_taken accs address [] = Inr False"
| "address_taken accs address (a # rest) =
     bind_res (deref accs a) (\<lambda>addr. if addr = address then Inr True else address_taken accs address rest)"

definition InprocLineFactory_createServer :: "inproc \<Rightarrow> string \<Rightarrow> failure + (inproc \<times> nat option)" where
  "InprocLineFactory_createServer st address =
     bind_res (address_taken (acceptors st) address (gs_acceptors st)) (\<lambda>taken.
       if taken then Inr (st, None)
       else case InprocAcceptor_new st address of
         (st', acceptor) \<Rightarrow> Inr (st'\<lparr>gs_acceptors := gs_acceptors st' @ [acceptor]\<rparr>, Some acceptor))"

definition InprocLineFactory_destroy :: "inproc \<Rightarrow> inproc" where
  "InprocLineFactory_destroy st = st\<lparr>gs_connectQueue := [], gs_acceptors := []\<rparr>"

definition InprocLineFactory_supportsScheme :: "string \<Rightarrow> bool" where
  "InprocLineFactory_supportsScheme scheme \<longleftrightarrow> scheme = ''inproc''"

section \<open>Invariant\<close>

definition has_queue :: "inproc \<Rightarrow> nat \<Rightarrow> bool" where
  "has_queue st i \<longleftrightarrow>
     (\<exists>q. queues st i = Some q \<and> dq_inv q \<and> dq_capacity q = inproc_buffer_size - 1)"

text \<open>A line is either not connected at all, or has its two queues.\<close>

definition line_ok :: "inproc \<Rightarrow> inproc_line \<Rightarrow> bool" where
  "line_ok st line \<longleftrightarrow> m_in line = None \<and> m_out line = None \<or>
     (\<exists>i j. m_in line = Some i \<and> m_out line = Some j \<and> i \<noteq> j \<and> has_queue st i \<and> has_queue st j)"

definition lines_ok :: "inproc \<Rightarrow> bool" where
  "lines_ok st \<longleftrightarrow> (\<forall>l line. lines st l = Some line \<longrightarrow> line_ok st line)"

text \<open>The lines in the connect queue exist and are not connected; none is queued twice.\<close>

definition connect_ok :: "inproc \<Rightarrow> bool" where
  "connect_ok st \<longleftrightarrow> distinct (gs_connectQueue st) \<and>
     (\<forall>l \<in> set (gs_connectQueue st). \<exists>line. lines st l = Some line \<and> m_in line = None)"

text \<open>The registered acceptors exist, and no two of them have the same address.\<close>

definition accept_ok :: "inproc \<Rightarrow> bool" where
  "accept_ok st \<longleftrightarrow> distinct (map (acceptors st) (gs_acceptors st)) \<and>
     (\<forall>a \<in> set (gs_acceptors st). acceptors st a \<noteq> None)"

definition ids_ok :: "inproc \<Rightarrow> bool" where
  "ids_ok st \<longleftrightarrow> (\<forall>k \<ge> fresh st. queues st k = None \<and> lines st k = None \<and> acceptors st k = None)"

text \<open>No two lines read from the same queue, and no two write into the same queue.\<close>

definition unshared :: "inproc \<Rightarrow> bool" where
  "unshared st \<longleftrightarrow> (\<forall>l l' x x' i. lines st l = Some x \<longrightarrow> lines st l' = Some x' \<longrightarrow>
     (m_in x = Some i \<and> m_in x' = Some i \<or> m_out x = Some i \<and> m_out x' = Some i) \<longrightarrow> l = l')"

definition inproc_inv :: "inproc \<Rightarrow> bool" where
  "inproc_inv st \<longleftrightarrow> lines_ok st \<and> connect_ok st \<and> accept_ok st \<and> ids_ok st \<and> unshared st"

lemma inproc_init_inv: "inproc_inv inproc_init"
  by (simp add: inproc_inv_def inproc_init_def lines_ok_def connect_ok_def accept_ok_def ids_ok_def unshared_def)

text \<open>Operations that only exchange the contents of a queue.\<close>

lemma queue_update_inv:
  assumes "inproc_inv st" and "has_queue st i" and "dq_inv q'" and "dq_capacity q' = inproc_buffer_size - 1"
  shows "inproc_inv (st\<lparr>queues := (queues st)(i \<mapsto> q')\<rparr>)"
proof -
  let ?st = "st\<lparr>queues := (queues st)(i \<mapsto> q')\<rparr>"
  have kept: "has_queue ?st j = has_queue st j" for j
    using assms by (auto simp: has_queue_def)
  have "i < fresh st"
    using assms by (auto simp: inproc_inv_def ids_ok_def has_queue_def not_less [symmetric])
  then have "ids_ok st \<Longrightarrow> ids_ok ?st" by (simp add: ids_ok_def)
  moreover have "lines_ok ?st = lines_ok st" by (simp add: lines_ok_def line_ok_def kept)
  moreover have "connect_ok ?st = connect_ok st" "accept_ok ?st = accept_ok st" "unshared ?st = unshared st"
    by (simp_all add: connect_ok_def accept_ok_def unshared_def)
  ultimately show ?thesis using assms(1) by (simp add: inproc_inv_def)
qed

text \<open>The parts of the invariant depend only on the fields they mention.\<close>

lemma has_queue_cong: "queues st' = queues st \<Longrightarrow> has_queue st' = has_queue st"
  by (simp add: has_queue_def fun_eq_iff)

lemma inv_parts_cong:
  "queues st' = queues st \<Longrightarrow> lines st' = lines st \<Longrightarrow> lines_ok st' = lines_ok st"
  "gs_connectQueue st' = gs_connectQueue st \<Longrightarrow> lines st' = lines st \<Longrightarrow> connect_ok st' = connect_ok st"
  "acceptors st' = acceptors st \<Longrightarrow> gs_acceptors st' = gs_acceptors st \<Longrightarrow> accept_ok st' = accept_ok st"
  "lines st' = lines st \<Longrightarrow> unshared st' = unshared st"
  using has_queue_cong [of st' st] by (simp_all add: lines_ok_def line_ok_def connect_ok_def accept_ok_def unshared_def)

lemma client_inv:
  assumes "inproc_inv st"
  shows "inproc_inv (fst (createClient_enqueue st address))"
proof -
  let ?st = "fst (createClient_enqueue st address)"
  note defs = createClient_enqueue_def InprocLine_client_def
  have free: "lines st (fresh st) = None" using assms by (simp add: inproc_inv_def ids_ok_def)
  have "fresh st \<notin> set (gs_connectQueue st)"
    using assms free by (auto simp: inproc_inv_def connect_ok_def)
  then have "connect_ok st \<Longrightarrow> connect_ok ?st" by (auto simp: defs connect_ok_def)
  moreover have "lines_ok st \<Longrightarrow> lines_ok ?st"
    using has_queue_cong [of ?st st] by (simp add: defs lines_ok_def line_ok_def)
  moreover have "accept_ok ?st = accept_ok st" by (simp add: defs accept_ok_def)
  moreover have "ids_ok st \<Longrightarrow> ids_ok ?st" by (simp add: defs ids_ok_def)
  moreover have "unshared st \<Longrightarrow> unshared ?st" by (auto simp: defs unshared_def)
  ultimately show ?thesis using assms by (simp add: inproc_inv_def)
qed

lemma address_taken_eq:
  "\<forall>a \<in> set as. accs a \<noteq> None \<Longrightarrow> address_taken accs address as = Inr (Some address \<in> accs ` set as)"
  by (induction as) (auto simp: image_iff)

lemma createServer_eq:
  assumes "inproc_inv st"
  shows "InprocLineFactory_createServer st address =
    (if Some address \<in> acceptors st ` set (gs_acceptors st) then Inr (st, None)
     else Inr (st\<lparr>acceptors := (acceptors st)(fresh st \<mapsto> address),
                  gs_acceptors := gs_acceptors st @ [fresh st], fresh := fresh st + 1\<rparr>, Some (fresh st)))"
  using assms
  by (auto simp: InprocLineFactory_createServer_def address_taken_eq inproc_inv_def accept_ok_def)

lemma createServer_inv:
  assumes "inproc_inv st" and "InprocLineFactory_createServer st address = Inr (st', r)"
  shows "inproc_inv st'"
proof (cases "Some address \<in> acceptors st ` set (gs_acceptors st)")
  case True
  with assms show ?thesis by (simp add: createServer_eq)
next
  case False
  let ?a = "fresh st"
  have new: "?a \<notin> set (gs_acceptors st)"
    using assms(1) by (auto simp: inproc_inv_def accept_ok_def ids_ok_def)
  from False assms have st': "st' = st\<lparr>acceptors := (acceptors st)(?a \<mapsto> address),
      gs_acceptors := gs_acceptors st @ [?a], fresh := ?a + 1\<rparr>"
    by (simp add: createServer_eq)
  have "map (acceptors st') (gs_acceptors st) = map (acceptors st) (gs_acceptors st)"
    using new by (auto simp: st')
  then have "accept_ok st \<Longrightarrow> accept_ok st'"
    using False new by (auto simp: accept_ok_def st')
  moreover have "ids_ok st \<Longrightarrow> ids_ok st'" by (simp add: st' ids_ok_def)
  ultimately show ?thesis
    using assms(1) inv_parts_cong [of st' st] by (simp add: inproc_inv_def st')
qed

lemma scan_queue_eq:
  "\<forall>l \<in> set ls. \<exists>line. store l = Some line \<Longrightarrow>
   (\<exists>pre l post. ls = pre @ l # post \<and> scan_queue store address ls = Inr (Some (l, pre @ post)) \<and>
      (\<exists>line. store l = Some line \<and> m_address line = address) \<and>
      (\<forall>p \<in> set pre. \<forall>line. store p = Some line \<longrightarrow> m_address line \<noteq> address)) \<or>
   scan_queue store address ls = Inr None \<and>
      (\<forall>p \<in> set ls. \<forall>line. store p = Some line \<longrightarrow> m_address line \<noteq> address)"
proof (induction ls)
  case (Cons l ls)
  then obtain line where line: "store l = Some line" by auto
  show ?case
  proof (cases "m_address line = address")
    case True
    with line show ?thesis by (intro disjI1 exI [of _ "[]"]) simp
  next
    case False
    from Cons.prems have "\<forall>l \<in> set ls. \<exists>line. store l = Some line" by simp
    from Cons.IH [OF this] show ?thesis
    proof (elim disjE exE conjE)
      fix pre l' post line'
      assume "ls = pre @ l' # post" "scan_queue store address ls = Inr (Some (l', pre @ post))"
        "store l' = Some line'" "m_address line' = address"
        "\<forall>p \<in> set pre. \<forall>line. store p = Some line \<longrightarrow> m_address line \<noteq> address"
      with False line show ?thesis by (intro disjI1 exI [of _ "l # pre"] exI [of _ l'] exI [of _ post]) simp
    next
      assume "scan_queue store address ls = Inr None"
        "\<forall>p \<in> set ls. \<forall>line. store p = Some line \<longrightarrow> m_address line \<noteq> address"
      with False line show ?thesis by (intro disjI2) simp
    qed
  qed
qed simp

text \<open>The state after an acceptor paired the queued line \<open>l\<close> with a new one.\<close>

definition line_address :: "inproc \<Rightarrow> nat \<Rightarrow> string option" where
  "line_address st l = map_option m_address (lines st l)"

definition fresh_queue :: data_queue where
  "fresh_queue = DataQueue_setConnectionFlag (DataQueue inproc_buffer_size) True"

definition paired :: "inproc \<Rightarrow> nat \<Rightarrow> inproc_line \<Rightarrow> nat list \<Rightarrow> inproc" where
  "paired st l line rest =
     st\<lparr>queues := (queues st)(fresh st \<mapsto> fresh_queue, fresh st + 1 \<mapsto> fresh_queue),
        lines := (lines st)(l \<mapsto> line\<lparr>m_out := Some (fresh st), m_in := Some (fresh st + 1)\<rparr>,
                            fresh st + 2 \<mapsto> \<lparr>m_address = m_address line, m_in = Some (fresh st),
                                             m_out = Some (fresh st + 1), m_readTimeout = 0\<rparr>),
        gs_connectQueue := rest, fresh := fresh st + 3\<rparr>"

lemma fresh_queue_simps [simp]:
  "dq_contents fresh_queue = []" "m_connected fresh_queue" "dq_inv fresh_queue"
  "dq_capacity fresh_queue = inproc_buffer_size - 1"
  by (simp_all add: fresh_queue_def inproc_buffer_size_def dq_inv_new)

lemma accept_cases:
  assumes "inproc_inv st" and "acceptors st a = Some address"
  shows "(\<exists>pre l post line. gs_connectQueue st = pre @ l # post \<and> lines st l = Some line \<and>
            m_address line = address \<and> (\<forall>p \<in> set pre. line_address st p \<noteq> Some address) \<and>
            InprocAcceptor_accept st a = Inr (paired st l line (pre @ post), Some (fresh st + 2))) \<or>
         ((\<forall>p \<in> set (gs_connectQueue st). line_address st p \<noteq> Some address) \<and>
            InprocAcceptor_accept st a = Inr (st, None))"
proof -
  have "\<forall>l \<in> set (gs_connectQueue st). \<exists>line. lines st l = Some line"
    using assms(1) by (auto simp: inproc_inv_def connect_ok_def)
  from scan_queue_eq [OF this, of address] show ?thesis
  proof (elim disjE exE conjE)
    fix pre l post line
    assume *: "gs_connectQueue st = pre @ l # post" "lines st l = Some line" "m_address line = address"
      "scan_queue (lines st) address (gs_connectQueue st) = Inr (Some (l, pre @ post))"
      "\<forall>p \<in> set pre. \<forall>line. lines st p = Some line \<longrightarrow> m_address line \<noteq> address"
    then have "InprocAcceptor_accept st a = Inr (paired st l line (pre @ post), Some (fresh st + 2))"
      using assms(2)
      by (simp add: InprocAcceptor_accept_def InprocLine_server_def paired_def fresh_queue_def Let_def)
    with * show ?thesis
      by (intro disjI1 exI [of _ pre] exI [of _ l] exI [of _ post] exI [of _ line]) (auto simp: line_address_def)
  next
    assume "scan_queue (lines st) address (gs_connectQueue st) = Inr None"
      "\<forall>p \<in> set (gs_connectQueue st). \<forall>line. lines st p = Some line \<longrightarrow> m_address line \<noteq> address"
    with assms(2) show ?thesis by (auto simp: InprocAcceptor_accept_def line_address_def)
  qed
qed

lemma has_queue_below: "ids_ok st \<Longrightarrow> has_queue st i \<Longrightarrow> i < fresh st"
  by (metis ids_ok_def has_queue_def not_le option.discI)

lemma line_queue_below:
  assumes "lines_ok st" and "ids_ok st" and "lines st l = Some x" and "m_in x = Some i \<or> m_out x = Some i"
  shows "i < fresh st"
  using assms has_queue_below [OF assms(2)] by (force simp: lines_ok_def line_ok_def)

lemma paired_lines:
  assumes "lines (paired st l line rest) k = Some x" and "l < fresh st"
  shows "k = l \<and> m_out x = Some (fresh st) \<and> m_in x = Some (Suc (fresh st)) \<or>
         k = Suc (Suc (fresh st)) \<and> m_in x = Some (fresh st) \<and> m_out x = Some (Suc (fresh st)) \<or>
         k \<noteq> l \<and> k \<noteq> Suc (Suc (fresh st)) \<and> lines st k = Some x"
  using assms by (auto simp: paired_def split: if_splits)

lemma line_ok_mono: "line_ok st x \<Longrightarrow> (\<And>i. has_queue st i \<Longrightarrow> has_queue st' i) \<Longrightarrow> line_ok st' x"
  unfolding line_ok_def by blast

lemma paired_inv:
  assumes inv: "inproc_inv st" and q: "gs_connectQueue st = pre @ l # post" and l: "lines st l = Some line"
  shows "inproc_inv (paired st l line (pre @ post))"
proof -
  let ?st = "paired st l line (pre @ post)"
  have below: "l < fresh st" using inv l by (auto simp: inproc_inv_def ids_ok_def not_less [symmetric])
  have old: "has_queue ?st i" if "has_queue st i" for i
    using that has_queue_below [OF _ that] inv by (simp add: has_queue_def paired_def inproc_inv_def)
  have two: "has_queue ?st (fresh st)" "has_queue ?st (Suc (fresh st))"
    by (simp_all add: has_queue_def paired_def)
  have "line_ok ?st x" if "lines ?st k = Some x" for k x
    using paired_lines [OF that below]
  proof (elim disjE conjE)
    assume "lines st k = Some x"
    with inv have "line_ok st x" by (auto simp: inproc_inv_def lines_ok_def)
    then show ?thesis using old by (rule line_ok_mono)
  qed (use two in \<open>auto simp: line_ok_def\<close>)
  then have "lines_ok ?st" by (simp add: lines_ok_def)
  moreover have "Suc (Suc (fresh st)) \<notin> set (gs_connectQueue st)"
    using inv by (force simp: inproc_inv_def connect_ok_def ids_ok_def)
  then have "connect_ok ?st"
    using inv q by (auto simp: inproc_inv_def connect_ok_def paired_def)
  moreover have "accept_ok ?st" using inv by (simp add: inproc_inv_def accept_ok_def paired_def)
  moreover have "ids_ok ?st" using inv below by (simp add: inproc_inv_def ids_ok_def paired_def)
  moreover have "unshared ?st"
    unfolding unshared_def
  proof (intro allI impI)
    fix k k' x x' i
    assume k: "lines ?st k = Some x" and k': "lines ?st k' = Some x'"
      and same: "m_in x = Some i \<and> m_in x' = Some i \<or> m_out x = Some i \<and> m_out x' = Some i"
    have lt: "j < fresh st" if "lines st n = Some y" "m_in y = Some j \<or> m_out y = Some j" for n y j
      using inv line_queue_below that by (auto simp: inproc_inv_def)
    have un: "unshared st" using inv by (simp add: inproc_inv_def)
    from paired_lines [OF k below] paired_lines [OF k' below] same show "k = k'"
      using lt un [unfolded unshared_def] by (elim disjE conjE) force+
  qed
  ultimately show ?thesis by (simp add: inproc_inv_def)
qed

lemma accept_inv:
  assumes "inproc_inv st" and "InprocAcceptor_accept st a = Inr (st', r)"
  shows "inproc_inv st'"
proof -
  obtain address where "acceptors st a = Some address"
    using assms(2) by (auto simp: InprocAcceptor_accept_def deref_def split: option.splits)
  from accept_cases [OF assms(1) this] show ?thesis
    using assms paired_inv [OF assms(1)] by auto
qed

lemma line_queues:
  assumes "inproc_inv st" and "lines st l = Some line" and "m_in line \<noteq> None"
  shows "\<exists>i j qi qj. m_in line = Some i \<and> m_out line = Some j \<and> i \<noteq> j \<and>
           queues st i = Some qi \<and> dq_inv qi \<and> dq_capacity qi = inproc_buffer_size - 1 \<and>
           queues st j = Some qj \<and> dq_inv qj \<and> dq_capacity qj = inproc_buffer_size - 1"
proof -
  from assms have "line_ok st line" by (auto simp: inproc_inv_def lines_ok_def)
  with assms(3) show ?thesis by (auto simp: line_ok_def has_queue_def)
qed

lemma deref_shared_simps [simp]:
  "store i = Some x \<Longrightarrow> deref_shared store (Some i) = Inr (i, x)"
  "deref_shared store None = Inl (Undefined NullPointer)"
  by (simp_all add: deref_shared_def)

lemma set_flag_eq [simp]:
  "queues st i = Some q \<Longrightarrow>
   set_flag st (Some i) c = Inr (st\<lparr>queues := (queues st)(i \<mapsto> DataQueue_setConnectionFlag q c)\<rparr>)"
  by (simp add: set_flag_def)

lemma remove_line_inv:
  assumes "inproc_inv st" and "lines st l = Some line" and "m_in line \<noteq> None"
  shows "inproc_inv (st\<lparr>lines := (lines st)(l := None)\<rparr>)"
proof -
  let ?st = "st\<lparr>lines := (lines st)(l := None)\<rparr>"
  have hq: "has_queue ?st = has_queue st" by (rule has_queue_cong) simp
  have "l \<notin> set (gs_connectQueue st)" using assms by (auto simp: inproc_inv_def connect_ok_def)
  then have "connect_ok st \<Longrightarrow> connect_ok ?st" by (auto simp: connect_ok_def)
  moreover have "lines_ok st \<Longrightarrow> lines_ok ?st" by (simp add: lines_ok_def line_ok_def hq)
  moreover have "accept_ok ?st = accept_ok st" by (simp add: accept_ok_def)
  moreover have "ids_ok st \<Longrightarrow> ids_ok ?st" by (simp add: ids_ok_def)
  moreover have "unshared st \<Longrightarrow> unshared ?st" by (auto simp: unshared_def)
  ultimately show ?thesis using assms(1) by (simp add: inproc_inv_def)
qed

lemma destroy_eq:
  assumes "inproc_inv st" and "lines st l = Some line" and "m_in line = Some i" and "m_out line = Some j"
    and "queues st i = Some qi" and "queues st j = Some qj"
  shows "InprocLine_destroy st l =
     Inr (st\<lparr>queues := (queues st)(j \<mapsto> DataQueue_setConnectionFlag qj False,
                                   i \<mapsto> DataQueue_setConnectionFlag qi False),
             lines := (lines st)(l := None)\<rparr>)"
proof -
  have "i \<noteq> j" using line_queues [OF assms(1,2)] assms(3,4) by auto
  with assms show ?thesis by (simp add: InprocLine_destroy_def)
qed

lemma destroyed_connected:
  assumes inv: "inproc_inv st" and d: "InprocLine_destroy st l = Inr st'"
  shows "\<exists>line. lines st l = Some line \<and> m_in line \<noteq> None"
proof -
  obtain line where l: "lines st l = Some line"
    using d by (auto simp: InprocLine_destroy_def deref_def split: option.splits)
  have "m_in line \<noteq> None"
  proof
    assume "m_in line = None"
    moreover have "line_ok st line" using inv l by (auto simp: inproc_inv_def lines_ok_def)
    ultimately have "m_out line = None" by (simp add: line_ok_def)
    with d l show False by (simp add: InprocLine_destroy_def set_flag_def)
  qed
  with l show ?thesis by simp
qed

lemma destroy_inv:
  assumes inv: "inproc_inv st" and d: "InprocLine_destroy st l = Inr st'"
  shows "inproc_inv st'"
proof -
  obtain line where l: "lines st l = Some line"
    using d by (auto simp: InprocLine_destroy_def deref_def split: option.splits)
  then have "m_in line \<noteq> None" using destroyed_connected [OF inv d] by simp
  then obtain i j qi qj where q: "m_in line = Some i" "m_out line = Some j" "i \<noteq> j"
    "queues st i = Some qi" "dq_inv qi" "dq_capacity qi = inproc_buffer_size - 1"
    "queues st j = Some qj" "dq_inv qj" "dq_capacity qj = inproc_buffer_size - 1"
    using line_queues [OF inv l] by blast
  let ?st1 = "st\<lparr>queues := (queues st)(j \<mapsto> DataQueue_setConnectionFlag qj False)\<rparr>"
  let ?st2 = "?st1\<lparr>queues := (queues ?st1)(i \<mapsto> DataQueue_setConnectionFlag qi False)\<rparr>"
  have "inproc_inv ?st1" using q by (intro queue_update_inv inv) (simp_all add: has_queue_def)
  moreover have "has_queue ?st1 i" using q by (simp add: has_queue_def)
  ultimately have "inproc_inv ?st2" by (rule queue_update_inv) (use q in simp_all)
  then have "inproc_inv (?st2\<lparr>lines := (lines ?st2)(l := None)\<rparr>)"
    by (rule remove_line_inv [where line = line]) (use l q in simp_all)
  moreover have "st' = ?st2\<lparr>lines := (lines ?st2)(l := None)\<rparr>"
    using d destroy_eq [OF inv l q(1,2,4,7)] by simp
  ultimately show ?thesis by (simp only:)
qed

text \<open>A call on a connected line reaches the queue it is connected to.\<close>

lemma InprocLine_read_queue:
  assumes "lines st l = Some line" and "m_in line = Some i" and "queues st i = Some q"
  shows "InprocLine_read st l n ws =
     bind_res (if m_readTimeout line > 0 then DataQueue_readWithTimeout q n ws else DataQueue_read q n ws)
       (\<lambda>(q', out, rc, ws'). Inr (st\<lparr>queues := (queues st)(i \<mapsto> q')\<rparr>, out, rc, ws'))"
  using assms by (simp add: InprocLine_read_def)

lemma InprocLine_write_queue:
  assumes "lines st l = Some line" and "m_out line = Some j" and "queues st j = Some q"
  shows "InprocLine_write st l bs ws =
     bind_res (DataQueue_write q bs ws) (\<lambda>(q', rc, ws'). Inr (st\<lparr>queues := (queues st)(j \<mapsto> q')\<rparr>, rc, ws'))"
  using assms by (simp add: InprocLine_write_def)

lemma write_outcome:
  assumes "dq_inv q"
  shows "DataQueue_write q bs ws = Inl Blocked \<or>
    (\<exists>q' rc ws'. DataQueue_write q bs ws = Inr (q', rc, ws') \<and> dq_inv q' \<and> dq_capacity q' = dq_capacity q)"
proof -
  have "length (dq_contents q) = dq_capacity q \<or> length (dq_contents q) < dq_capacity q"
    using dq_bounded [OF assms] by linarith
  then show ?thesis
    using assms write_waits [OF assms, of bs ws] finish_write_accepts [OF assms, of bs ws]
    by (cases "length bs \<le> dq_capacity q"; cases "m_connected q")
       (auto simp: write_too_big write_immediate write_lost)
qed

text \<open>
  What a read or write of a connected line can end with: it waits for ever, or returns,
  with the invariant kept; it never fails in another way.
\<close>

lemma InprocLine_read_safe:
  assumes "inproc_inv st" and "lines st l = Some line" and "m_in line \<noteq> None"
  shows "InprocLine_read st l n ws = Inl Blocked \<or>
    (\<exists>st' out rc ws'. InprocLine_read st l n ws = Inr (st', out, rc, ws') \<and> inproc_inv st')"
proof -
  obtain i j qi qj where q: "m_in line = Some i" "m_out line = Some j" "i \<noteq> j"
    "queues st i = Some qi" "dq_inv qi" "dq_capacity qi = inproc_buffer_size - 1"
    "queues st j = Some qj" "dq_inv qj" "dq_capacity qj = inproc_buffer_size - 1"
    using line_queues [OF assms] by blast
  let ?r = "if m_readTimeout line > 0 then DataQueue_readWithTimeout qi n ws else DataQueue_read qi n ws"
  have "?r = Inl Blocked \<or>
      (\<exists>q' out rc ws'. ?r = Inr (q', out, rc, ws') \<and> dq_inv q' \<and> dq_capacity q' = dq_capacity qi)"
    using read_outcome [OF q(5), of n ws] readWithTimeout_outcome [OF q(5), of n ws] by auto
  moreover have "inproc_inv (st\<lparr>queues := (queues st)(i \<mapsto> q')\<rparr>)"
    if "dq_inv q'" "dq_capacity q' = dq_capacity qi" for q'
    by (rule queue_update_inv [OF assms(1)]) (use that q in \<open>auto simp: has_queue_def\<close>)
  ultimately show ?thesis
    unfolding InprocLine_read_queue [OF assms(2) q(1,4)] by fastforce
qed

lemma InprocLine_write_safe:
  assumes "inproc_inv st" and "lines st l = Some line" and "m_in line \<noteq> None"
  shows "InprocLine_write st l bs ws = Inl Blocked \<or>
    (\<exists>st' rc ws'. InprocLine_write st l bs ws = Inr (st', rc, ws') \<and> inproc_inv st')"
proof -
  obtain i j qi qj where q: "m_in line = Some i" "m_out line = Some j" "i \<noteq> j"
    "queues st i = Some qi" "dq_inv qi" "dq_capacity qi = inproc_buffer_size - 1"
    "queues st j = Some qj" "dq_inv qj" "dq_capacity qj = inproc_buffer_size - 1"
    using line_queues [OF assms] by blast
  have "inproc_inv (st\<lparr>queues := (queues st)(j \<mapsto> q')\<rparr>)"
    if "dq_inv q'" "dq_capacity q' = dq_capacity qj" for q'
    by (rule queue_update_inv [OF assms(1)]) (use that q in \<open>auto simp: has_queue_def\<close>)
  then show ?thesis
    unfolding InprocLine_write_queue [OF assms(2) q(2,7)]
    using write_outcome [OF q(8), of bs ws] by fastforce
qed

lemma connected_line:
  assumes "inproc_inv st" and "lines st l = Some line" and "m_in line = None"
  shows "InprocLine_read st l n ws = Inl (Undefined NullPointer)"
    and "InprocLine_write st l bs ws = Inl (Undefined NullPointer)"
    and "InprocLine_destroy st l = Inl (Undefined NullPointer)"
proof -
  have "line_ok st line" using assms by (auto simp: inproc_inv_def lines_ok_def)
  with assms(3) have "m_out line = None" by (simp add: line_ok_def)
  with assms show "InprocLine_read st l n ws = Inl (Undefined NullPointer)"
    "InprocLine_write st l bs ws = Inl (Undefined NullPointer)"
    "InprocLine_destroy st l = Inl (Undefined NullPointer)"
    by (simp_all add: InprocLine_read_def InprocLine_write_def InprocLine_destroy_def set_flag_def)
qed

lemma setOption_inv:
  assumes inv: "inproc_inv st" and "InprocLine_setOption st l opt v = Inr st'"
  shows "inproc_inv st'"
proof -
  obtain line where l: "lines st l = Some line"
    and st': "st' = st\<lparr>lines := (lines st)(l \<mapsto> line\<lparr>m_readTimeout := to_int32 (uint v)\<rparr>)\<rparr>"
    using assms(2) by (cases opt) (auto simp: InprocLine_setOption_def deref_def split: option.splits)
  have hq: "has_queue st' = has_queue st" by (rule has_queue_cong) (simp add: st')
  have ok: "line_ok st' = line_ok st" "line_ok st (line\<lparr>m_readTimeout := t\<rparr>) = line_ok st line" for t
    by (simp_all add: line_ok_def hq fun_eq_iff)
  have "lines_ok st \<Longrightarrow> lines_ok st'"
    using l unfolding lines_ok_def ok by (auto simp: st' ok)
  moreover have "connect_ok st \<Longrightarrow> connect_ok st'" using l by (auto simp: connect_ok_def st')
  moreover have "accept_ok st' = accept_ok st" by (simp add: accept_ok_def st')
  moreover have "ids_ok st \<Longrightarrow> ids_ok st'" using l by (auto simp: ids_ok_def st')
  moreover have "unshared st \<Longrightarrow> unshared st'"
    using l by (simp add: unshared_def st') (metis)
  ultimately show ?thesis using inv by (simp add: inproc_inv_def)
qed

lemma acceptor_destroy_inv:
  assumes "inproc_inv st"
  shows "inproc_inv (InprocAcceptor_destroy st a)"
proof -
  let ?st = "InprocAcceptor_destroy st a"
  have d: "distinct (map (acceptors st) (gs_acceptors st))" using assms by (simp add: inproc_inv_def accept_ok_def)
  then have dist: "distinct (gs_acceptors st)" by (simp add: distinct_map)
  then have "a \<notin> set (remove1 a (gs_acceptors st))" by simp
  then have "map (acceptors ?st) (gs_acceptors ?st) = map (acceptors st) (remove1 a (gs_acceptors st))"
    by (auto simp: InprocAcceptor_destroy_def)
  moreover have "distinct (map (acceptors st) (remove1 a (gs_acceptors st)))"
    using d dist by (auto simp: distinct_map inj_on_def)
  ultimately have "accept_ok st \<Longrightarrow> accept_ok ?st"
    using dist by (auto simp: accept_ok_def InprocAcceptor_destroy_def)
  moreover have "ids_ok st \<Longrightarrow> ids_ok ?st" by (simp add: ids_ok_def InprocAcceptor_destroy_def)
  ultimately show ?thesis
    using assms inv_parts_cong [of ?st st] by (simp add: inproc_inv_def InprocAcceptor_destroy_def)
qed

lemma factory_destroy_inv:
  assumes "inproc_inv st"
  shows "inproc_inv (InprocLineFactory_destroy st)"
  using assms inv_parts_cong(1,4) [of "InprocLineFactory_destroy st" st]
  by (simp add: inproc_inv_def InprocLineFactory_destroy_def connect_ok_def accept_ok_def ids_ok_def)

section \<open>Reachable states\<close>

text \<open>
  The operations of the interface, as the threads of a program may interleave them. Each runs
  under the mutex of the registry or of one queue, or changes one line. The two calls that wait
  for the registry are sequences of these steps.
\<close>

inductive inproc_step :: "inproc \<Rightarrow> inproc \<Rightarrow> bool" where
  enqueue_client: "createClient_enqueue st address = (st', l) \<Longrightarrow> inproc_step st st'"
| create_server: "InprocLineFactory_createServer st address = Inr (st', r) \<Longrightarrow> inproc_step st st'"
| accept_client: "InprocAcceptor_accept st a = Inr (st', r) \<Longrightarrow> inproc_step st st'"
| line_reads: "InprocLine_read st l n ws = Inr (st', out, rc, ws') \<Longrightarrow> inproc_step st st'"
| line_writes: "InprocLine_write st l bs ws = Inr (st', rc, ws') \<Longrightarrow> inproc_step st st'"
| set_option: "InprocLine_setOption st l opt v = Inr st' \<Longrightarrow> inproc_step st st'"
| destroy_line: "InprocLine_destroy st l = Inr st' \<Longrightarrow> inproc_step st st'"
| destroy_acceptor: "inproc_step st (InprocAcceptor_destroy st a)"
| destroy_factory: "inproc_step st (InprocLineFactory_destroy st)"

inductive inproc_reachable :: "inproc \<Rightarrow> bool" where
  init: "inproc_reachable inproc_init"
| step: "inproc_reachable st \<Longrightarrow> inproc_step st st' \<Longrightarrow> inproc_reachable st'"

lemma read_line:
  assumes "inproc_inv st" and "InprocLine_read st l n ws = Inr (st', out, rc, ws')"
  shows "inproc_inv st'"
proof -
  obtain line where l: "lines st l = Some line"
    using assms(2) by (auto simp: InprocLine_read_def deref_def split: option.splits)
  then have "m_in line \<noteq> None" using assms connected_line(1) [OF assms(1) l, of n ws] by auto
  from InprocLine_read_safe [OF assms(1) l this, of n ws] assms(2) show ?thesis by auto
qed

lemma write_line:
  assumes "inproc_inv st" and "InprocLine_write st l bs ws = Inr (st', rc, ws')"
  shows "inproc_inv st'"
proof -
  obtain line where l: "lines st l = Some line"
    using assms(2) by (auto simp: InprocLine_write_def deref_def split: option.splits)
  then have "m_in line \<noteq> None" using assms connected_line(2) [OF assms(1) l, of bs ws] by auto
  from InprocLine_write_safe [OF assms(1) l this, of bs ws] assms(2) show ?thesis by auto
qed

lemmas inproc_inv_intros = createServer_inv accept_inv read_line write_line setOption_inv destroy_inv
  acceptor_destroy_inv factory_destroy_inv

lemma inproc_step_inv: "inproc_step st st' \<Longrightarrow> inproc_inv st \<Longrightarrow> inproc_inv st'"
proof (induction rule: inproc_step.induct)
  case (enqueue_client st address st' l)
  with client_inv [of st address] show ?case by simp
qed (auto intro: inproc_inv_intros)

lemma reachable_inv: "inproc_reachable st \<Longrightarrow> inproc_inv st"
  by (induction rule: inproc_reachable.induct) (auto intro: inproc_init_inv inproc_step_inv)

lemma enqueue_all_reachable: "inproc_reachable st \<Longrightarrow> inproc_reachable (enqueue_all st as)"
proof (induction as arbitrary: st)
  case (Cons a as)
  have "inproc_reachable (fst (createClient_enqueue st a))"
    using Cons.prems by (rule inproc_reachable.step) (rule enqueue_client [OF surjective_pairing])
  with Cons.IH show ?case by simp
qed simp

section \<open>Connecting\<close>

text \<open>Two lines are peers when each reads from the queue the other writes into.\<close>

definition peers :: "inproc \<Rightarrow> nat \<Rightarrow> nat \<Rightarrow> bool" where
  "peers st c s \<longleftrightarrow> (\<exists>x y i j. lines st c = Some x \<and> lines st s = Some y \<and>
     m_in x = Some i \<and> m_out x = Some j \<and> m_in y = Some j \<and> m_out y = Some i)"

definition in_queue :: "inproc \<Rightarrow> nat \<Rightarrow> data_queue option" where
  "in_queue st l = Option.bind (Option.bind (lines st l) m_in) (queues st)"

definition out_queue :: "inproc \<Rightarrow> nat \<Rightarrow> data_queue option" where
  "out_queue st l = Option.bind (Option.bind (lines st l) m_out) (queues st)"

lemma peers_out_in: "peers st c s \<Longrightarrow> out_queue st c = in_queue st s \<and> out_queue st s = in_queue st c"
  by (auto simp: peers_def in_queue_def out_queue_def)

lemma paired_peers:
  assumes "l < fresh st"
  shows "peers (paired st l line rest) l (fresh st + 2)"
    and "in_queue (paired st l line rest) l = Some fresh_queue"
    and "out_queue (paired st l line rest) l = Some fresh_queue"
  using assms by (simp_all add: peers_def in_queue_def out_queue_def paired_def)

text \<open>The number of clients of an address among some queued lines.\<close>

definition clients_of :: "inproc \<Rightarrow> string \<Rightarrow> nat list \<Rightarrow> nat" where
  "clients_of st address ls = length (filter (\<lambda>p. line_address st p = Some address) ls)"

definition servers_of :: "inproc \<Rightarrow> string \<Rightarrow> nat list \<Rightarrow> nat" where
  "servers_of st address as = length (filter (\<lambda>a. acceptors st a = Some address) as)"

lemma queued_unconnected:
  assumes "inproc_inv st" and "gs_connectQueue st = pre @ l # post"
  shows "\<exists>line. lines st l = Some line \<and> m_in line = None \<and> l < fresh st \<and> l \<notin> set pre \<and> l \<notin> set post"
proof -
  obtain line where line: "lines st l = Some line" "m_in line = None"
    using assms by (auto simp: inproc_inv_def connect_ok_def)
  moreover have "l < fresh st"
    using line assms by (metis inproc_inv_def ids_ok_def not_le option.discI)
  moreover have "l \<notin> set pre" "l \<notin> set post" using assms by (auto simp: inproc_inv_def connect_ok_def)
  ultimately show ?thesis by blast
qed

lemma line_address_paired:
  "lines st l = Some line \<Longrightarrow> p \<noteq> Suc (Suc (fresh st)) \<Longrightarrow> line_address (paired st l line rest) p = line_address st p"
  by (simp add: line_address_def paired_def)

lemma clients_of_paired:
  assumes "lines st l = Some line" and "\<forall>p \<in> set ps. p < fresh st"
  shows "clients_of (paired st l line rest) address ps = clients_of st address ps"
proof -
  have "filter (\<lambda>p. line_address (paired st l line rest) p = Some address) ps =
        filter (\<lambda>p. line_address st p = Some address) ps"
    using assms by (intro filter_cong refl) (auto simp: line_address_paired)
  then show ?thesis by (simp add: clients_of_def)
qed

lemma acceptors_paired [simp]: "acceptors (paired st l line rest) = acceptors st"
  by (simp add: paired_def)

lemma gs_connectQueue_paired [simp]: "gs_connectQueue (paired st l line rest) = rest"
  by (simp add: paired_def)

lemma queued_below: "inproc_inv st \<Longrightarrow> p \<in> set (gs_connectQueue st) \<Longrightarrow> p < fresh st"
  by (metis queued_unconnected split_list)

lemma split_list_twice:
  assumes "pre @ l # post = pre' @ l' # post'" and "l \<noteq> l'" and "l \<notin> set pre'"
  shows "\<exists>mid. pre = pre' @ l' # mid \<and> post' = mid @ l # post"
  using assms by (auto simp: append_eq_append_conv2 append_eq_Cons_conv Cons_eq_append_conv)

text \<open>Another line \<open>k\<close> of the queue is paired, the first of its address: \<open>l\<close> stays, behind one client less when the addresses agree.\<close>

lemma other_paired:
  assumes inv: "inproc_inv st" and queue: "gs_connectQueue st = pre @ l # post" and "k \<noteq> l"
    and k: "gs_connectQueue st = pre1 @ k # post1" "lines st k = Some line"
      "\<forall>p \<in> set pre1. line_address st p \<noteq> Some (m_address line)"
    and l: "line_address st l = Some address"
  shows "\<exists>pre' post'. pre1 @ post1 = pre' @ l # post' \<and>
    clients_of (paired st k line (pre1 @ post1)) address pre' + (if m_address line = address then 1 else 0)
      \<le> clients_of st address pre"
proof (cases "l \<in> set pre1")
  case True
  then obtain u v where uv: "pre1 = u @ l # v" by (meson split_list)
  have "u = pre" using queued_unconnected [OF inv queue] uv k(1) queue
    by (metis append.assoc append_Cons append_Cons_eq_iff in_set_conv_decomp inv queued_unconnected)
  moreover have "m_address line \<noteq> address" using True k(3) l by auto
  moreover have "\<forall>p \<in> set u. p < fresh st" using queued_below [OF inv] k(1) uv by auto
  ultimately show ?thesis using uv k(2) by (intro exI [of _ u] exI [of _ "v @ post1"]) (simp add: clients_of_paired)
next
  case False
  then obtain mid where mid: "pre = pre1 @ k # mid" "post1 = mid @ l # post"
    using split_list_twice [of pre l post pre1 k post1] queue k(1) \<open>k \<noteq> l\<close> by auto
  have "\<forall>p \<in> set (pre1 @ mid). p < fresh st" using queued_below [OF inv] k(1) mid by auto
  then have "clients_of (paired st k line (pre1 @ post1)) address (pre1 @ mid) = clients_of st address (pre1 @ mid)"
    by (intro clients_of_paired k(2))
  moreover have "clients_of st address pre =
      clients_of st address (pre1 @ mid) + (if m_address line = address then 1 else 0)"
    using k(2) mid by (auto simp: clients_of_def line_address_def)
  ultimately show ?thesis using mid by (intro exI [of _ "pre1 @ mid"] exI [of _ post]) simp
qed

text \<open>
  One acceptor call, seen by a line \<open>l\<close> that waits in the queue: either it is paired, or it
  waits on, behind one client of its address less when the acceptor is of its address.
\<close>

lemma accept_progress:
  assumes inv: "inproc_inv st" and queue: "gs_connectQueue st = pre @ l # post"
    and l: "line_address st l = Some address" and a: "acceptors st a = Some addr"
  shows "(\<exists>st' s. InprocAcceptor_accept st a = Inr (st', Some s) \<and> peers st' l s) \<or>
    (\<exists>st' r pre' post'. InprocAcceptor_accept st a = Inr (st', r) \<and> inproc_inv st' \<and>
       acceptors st' = acceptors st \<and> gs_connectQueue st' = pre' @ l # post' \<and>
       line_address st' l = Some address \<and>
       clients_of st' address pre' + (if addr = address then 1 else 0) \<le> clients_of st address pre)"
  using accept_cases [OF inv a]
proof (elim disjE exE conjE)
  fix pre1 k post1 line
  assume k: "gs_connectQueue st = pre1 @ k # post1" "lines st k = Some line" "m_address line = addr"
    "\<forall>p \<in> set pre1. line_address st p \<noteq> Some addr"
    and acc: "InprocAcceptor_accept st a = Inr (paired st k line (pre1 @ post1), Some (fresh st + 2))"
  let ?st = "paired st k line (pre1 @ post1)"
  have kb: "k < fresh st" and lb: "l < fresh st"
    using queued_below [OF inv] queue k(1) by (metis in_set_conv_decomp)+
  show ?thesis
  proof (cases "k = l")
    case True
    with acc paired_peers(1) [OF kb] show ?thesis by auto
  next
    case False
    obtain pre' post' where p: "pre1 @ post1 = pre' @ l # post'"
      "clients_of ?st address pre' + (if addr = address then 1 else 0) \<le> clients_of st address pre"
      using other_paired [OF inv queue False k(1,2) _ l] k(3,4) by auto
    moreover have "line_address ?st l = Some address" using l k(2) lb by (simp add: line_address_paired)
    ultimately show ?thesis using acc paired_inv [OF inv k(1,2)]
      by (intro disjI2 exI [of _ ?st] exI [of _ "Some (fresh st + 2)"] exI [of _ pre'] exI [of _ post']) simp
  qed
next
  assume none: "\<forall>p \<in> set (gs_connectQueue st). line_address st p \<noteq> Some addr"
    and acc: "InprocAcceptor_accept st a = Inr (st, None)"
  have "addr \<noteq> address" using none queue l by auto
  with acc inv queue l show ?thesis by auto
qed

lemma peers_connected: "peers st l s \<Longrightarrow> InprocLine_connected st l = Inr True"
  by (auto simp: peers_def InprocLine_connected_def)

lemma waitForConnection_connected: "InprocLine_connected st l = Inr True \<Longrightarrow> InprocLine_waitForConnection st l as = Inr st"
  by (cases as) simp_all

lemma waitForConnection_once:
  "InprocLine_connected st l = Inr False \<Longrightarrow> InprocAcceptor_accept st a = Inr (st', r) \<Longrightarrow>
   InprocLine_connected st' l = Inr True \<Longrightarrow> InprocLine_waitForConnection st l [a] = Inr st'"
  by simp

lemma waitForConnection_served:
  "inproc_inv st \<Longrightarrow> gs_connectQueue st = pre @ l # post \<Longrightarrow> line_address st l = Some address \<Longrightarrow>
   \<forall>a \<in> set as. acceptors st a \<noteq> None \<Longrightarrow> clients_of st address pre < servers_of st address as \<Longrightarrow>
   \<exists>st' s. InprocLine_waitForConnection st l as = Inr st' \<and> peers st' l s"
proof (induction as arbitrary: st pre post)
  case (Cons a as)
  obtain addr where a: "acceptors st a = Some addr" using Cons.prems by auto
  have nc: "InprocLine_connected st l = Inr False"
    using queued_unconnected [OF Cons.prems(1,2)] by (auto simp: InprocLine_connected_def)
  from accept_progress [OF Cons.prems(1-3) a] show ?case
  proof (elim disjE exE conjE)
    fix st' s assume "InprocAcceptor_accept st a = Inr (st', Some s)" "peers st' l s"
    with nc show ?thesis by (auto simp: peers_connected waitForConnection_connected)
  next
    fix st' r pre' post'
    assume acc: "InprocAcceptor_accept st a = Inr (st', r)" "inproc_inv st'" "acceptors st' = acceptors st"
      "gs_connectQueue st' = pre' @ l # post'" "line_address st' l = Some address"
      and cnt: "clients_of st' address pre' + (if addr = address then 1 else 0) \<le> clients_of st address pre"
    have "servers_of st' address as + (if addr = address then 1 else 0) = servers_of st address (a # as)"
      using a acc(3) by (simp add: servers_of_def)
    with cnt Cons.prems(5) have "clients_of st' address pre' < servers_of st' address as" by linarith
    with Cons.IH [OF acc(2,4,5)] Cons.prems(4) acc(3) nc acc(1) show ?thesis by auto
  qed
qed (simp add: servers_of_def)

text \<open>The same from the side of the acceptor: \<^verbatim>\<open>waitConnection\<close> always returns.\<close>

lemma enqueue_all_acceptors [simp]: "acceptors (enqueue_all st as) = acceptors st"
  by (induction as arbitrary: st) (simp_all add: createClient_enqueue_def InprocLine_client_def)

lemma enqueue_all_inv: "inproc_inv st \<Longrightarrow> inproc_inv (enqueue_all st as)"
  by (induction as arbitrary: st) (simp_all add: client_inv)

lemma waitConnection_outcome:
  "inproc_inv st \<Longrightarrow> acceptors st a = Some address \<Longrightarrow>
   \<exists>st' r. InprocAcceptor_waitConnection st a t turns = Inr (st', r) \<and> inproc_inv st' \<and>
     (case r of Some s \<Rightarrow> \<exists>l. peers st' l s \<and> line_address st' l = Some address
      | None \<Rightarrow> \<forall>p \<in> set (gs_connectQueue st'). line_address st' p \<noteq> Some address)"
proof (induction turns arbitrary: st)
  case Nil
  from accept_cases [OF Nil] show ?case
  proof (elim disjE exE conjE)
    fix pre l post line
    assume l: "gs_connectQueue st = pre @ l # post" "lines st l = Some line" "m_address line = address"
      "InprocAcceptor_accept st a = Inr (paired st l line (pre @ post), Some (fresh st + 2))"
    have "l < fresh st" using queued_below [OF Nil(1)] l(1) by simp
    with l paired_peers(1) [of l st line "pre @ post"] paired_inv [OF Nil(1) l(1,2)] show ?thesis
      by (auto simp: line_address_paired intro!: exI [of _ l]) (simp add: line_address_def)
  qed (use Nil in auto)
next
  case (Cons turn turns)
  obtain elapsed clients where turn: "turn = (elapsed, clients)" by (cases turn)
  from accept_cases [OF Cons.prems] show ?case
  proof (elim disjE exE conjE)
    fix pre l post line
    assume l: "gs_connectQueue st = pre @ l # post" "lines st l = Some line" "m_address line = address"
      "InprocAcceptor_accept st a = Inr (paired st l line (pre @ post), Some (fresh st + 2))"
    have "l < fresh st" using queued_below [OF Cons.prems(1)] l(1) by simp
    with l paired_peers(1) [of l st line "pre @ post"] paired_inv [OF Cons.prems(1) l(1,2)] show ?thesis
      unfolding turn by (auto simp: line_address_paired intro!: exI [of _ l]) (simp add: line_address_def)
  next
    assume "\<forall>p \<in> set (gs_connectQueue st). line_address st p \<noteq> Some address"
      "InprocAcceptor_accept st a = Inr (st, None)"
    with Cons.IH [of "enqueue_all st clients"] Cons.prems show ?thesis
      unfolding turn by (auto simp: enqueue_all_inv)
  qed
qed

lemma client_served:
  assumes inv: "inproc_inv st" and "\<forall>a \<in> set as. acceptors st a \<noteq> None"
    and "clients_of st address (gs_connectQueue st) < servers_of st address as"
  shows "\<exists>st' l s. InprocLineFactory_createClient st address as = Inr (st', l) \<and> peers st' l s"
proof -
  let ?l = "fresh st"
  obtain st1 where enq: "createClient_enqueue st address = (st1, ?l)"
    by (simp add: createClient_enqueue_def InprocLine_client_def)
  then have inv1: "inproc_inv st1" using client_inv [OF inv, of address] by simp
  from enq have st: "gs_connectQueue st1 = gs_connectQueue st @ ?l # []" "acceptors st1 = acceptors st"
    and addr: "line_address st1 p = (if p = ?l then Some address else line_address st p)" for p
    by (auto simp: createClient_enqueue_def InprocLine_client_def line_address_def)
  have "filter (\<lambda>p. line_address st1 p = Some address) (gs_connectQueue st) =
        filter (\<lambda>p. line_address st p = Some address) (gs_connectQueue st)"
    using queued_below [OF inv] by (intro filter_cong refl) (force simp: addr)
  then have "clients_of st1 address (gs_connectQueue st) < servers_of st1 address as"
    using assms(3) by (simp add: clients_of_def servers_of_def st)
  from waitForConnection_served [OF inv1 st(1) _ _ this] assms(2) st(2) addr
  show ?thesis by (auto simp: InprocLineFactory_createClient_def enq)
qed

section \<open>Two example states\<close>

text \<open>A server at the address \<^verbatim>\<open>foo\<close> with a queued client, before and after the connection.\<close>

definition served :: inproc where
  "served = (case InprocLineFactory_createServer inproc_init ''foo'' of
               Inr (st, _) \<Rightarrow> fst (createClient_enqueue st ''foo'') | Inl _ \<Rightarrow> inproc_init)"

definition connected :: inproc where
  "connected = (case InprocAcceptor_accept served 0 of Inr (st, _) \<Rightarrow> st | Inl _ \<Rightarrow> served)"

lemma served_eq:
  "served = \<lparr>queues = Map.empty,
     lines = [1 \<mapsto> \<lparr>m_address = ''foo'', m_in = None, m_out = None, m_readTimeout = 0\<rparr>],
     acceptors = [0 \<mapsto> ''foo''], gs_acceptors = [0], gs_connectQueue = [1], fresh = 2\<rparr>"
  by (simp add: served_def InprocLineFactory_createServer_def inproc_init_def createClient_enqueue_def
      InprocLine_client_def)

lemma connected_eq:
  "connected = paired served 1 \<lparr>m_address = ''foo'', m_in = None, m_out = None, m_readTimeout = 0\<rparr> []"
  "InprocAcceptor_accept served 0 = Inr (connected, Some 4)"
  by (simp_all add: connected_def InprocAcceptor_accept_def served_eq InprocLine_server_def Let_def
      paired_def fresh_queue_def)

lemma served_reachable: "inproc_reachable served"
proof -
  obtain st r where st: "InprocLineFactory_createServer inproc_init ''foo'' = Inr (st, r)"
    by (simp add: InprocLineFactory_createServer_def inproc_init_def)
  then have "inproc_reachable st"
    using inproc_reachable.intros create_server by blast
  moreover have "inproc_step st served"
    by (rule enqueue_client [of st "''foo''" _ "snd (createClient_enqueue st ''foo'')"]) (simp add: served_def st)
  ultimately show ?thesis by (rule inproc_reachable.step)
qed

lemma connected_reachable: "inproc_reachable connected"
  using served_reachable accept_client [OF connected_eq(2)] by (rule inproc_reachable.step)

lemma served_clients: "line_address served 1 = Some ''foo''" "acceptors served 0 = Some ''foo''"
  "gs_connectQueue served = [1]"
  by (simp_all add: served_eq line_address_def)

lemma connected_lines:
  "lines connected 1 = Some \<lparr>m_address = ''foo'', m_in = Some 3, m_out = Some 2, m_readTimeout = 0\<rparr>"
  "lines connected 4 = Some \<lparr>m_address = ''foo'', m_in = Some 2, m_out = Some 3, m_readTimeout = 0\<rparr>"
  "queues connected 2 = Some fresh_queue" "queues connected 3 = Some fresh_queue"
  "peers connected 1 4"
  by (simp_all add: connected_eq(1) paired_def served_eq peers_def numeral_3_eq_3)

section \<open>Properties\<close>

text \<open>
  C10 (inproc_invariant): in every state that any interleaving of the operations reaches, a line is either
  unconnected or has two queues of its own that exist and are well formed, the lines in the
  connect queue exist, are unconnected and queued once, the registered acceptors
  exist and no two of them have the same address.
\<close>
theorem inproc_invariant:
  assumes "inproc_reachable st"
  shows "inproc_inv st"
  using assms by (rule reachable_inv)

theorem inproc_invariant_witness: "inproc_reachable connected \<and> inproc_inv connected"
  using inproc_invariant [OF connected_reachable] connected_reachable by simp

text \<open>
  C29 (line_calls_safe): in a reachable state a read or write of a connected line either waits or
  returns, and its destruction succeeds; none of them follows a null or dangling pointer
  or leaves the bounds of a buffer.
\<close>
theorem line_calls_safe:
  assumes "inproc_reachable st" and "lines st l = Some line" and "m_in line \<noteq> None"
  shows "(InprocLine_read st l n ws = Inl Blocked \<or> (\<exists>r. InprocLine_read st l n ws = Inr r)) \<and>
         (InprocLine_write st l bs ws = Inl Blocked \<or> (\<exists>r. InprocLine_write st l bs ws = Inr r)) \<and>
         (\<exists>r. InprocLine_destroy st l = Inr r)"
proof -
  have inv: "inproc_inv st" using assms(1) by (rule reachable_inv)
  have "\<exists>r. InprocLine_destroy st l = Inr r"
    using line_queues [OF inv assms(2,3)] destroy_eq [OF inv assms(2)] by blast
  with InprocLine_read_safe [OF inv assms(2,3), of n ws] InprocLine_write_safe [OF inv assms(2,3), of bs ws]
  show ?thesis by blast
qed

theorem line_calls_safe_witness:
  "InprocLine_read connected 4 8 [] = Inl Blocked \<or> (\<exists>r. InprocLine_read connected 4 8 [] = Inr r)"
  using line_calls_safe [OF connected_reachable connected_lines(2), of 8 "[]"] by simp

text \<open>
  In a reachable state \<^verbatim>\<open>createServer\<close> returns a null pointer exactly when an acceptor
  of this address is registered, and then changes nothing; otherwise it registers a new one.
\<close>
lemma createServer_exclusive:
  assumes "inproc_reachable st"
  shows "\<exists>st' r. InprocLineFactory_createServer st address = Inr (st', r) \<and>
    (r = None \<longleftrightarrow> Some address \<in> acceptors st ` set (gs_acceptors st)) \<and>
    (case r of None \<Rightarrow> st' = st
     | Some a \<Rightarrow> acceptors st a = None \<and> acceptors st' a = Some address \<and>
                 gs_acceptors st' = gs_acceptors st @ [a])"
  using assms reachable_inv [OF assms]
  by (auto simp: createServer_eq [OF reachable_inv [OF assms]] inproc_inv_def ids_ok_def)

text \<open>
  \<^verbatim>\<open>waitConnection\<close> on a live acceptor always returns, whatever clients enqueue
  themselves while it waits: a line connected to a client that asked for the acceptor's address,
  or a null pointer, the latter only when no such client is left in the queue.
\<close>
lemma waitConnection_returns:
  assumes "inproc_reachable st" and "acceptors st a = Some address"
  shows "\<exists>st' r. InprocAcceptor_waitConnection st a timeoutInMs turns = Inr (st', r) \<and>
     (case r of Some s \<Rightarrow> \<exists>l. peers st' l s \<and> line_address st' l = Some address
      | None \<Rightarrow> \<forall>p \<in> set (gs_connectQueue st'). line_address st' p \<noteq> Some address)"
  using waitConnection_outcome [OF reachable_inv [OF assms(1)] assms(2)] by blast

text \<open>
  C13 (accept_pairs_first): when clients of the acceptor's address wait in the queue, \<^verbatim>\<open>waitConnection\<close> takes the
  first of them out at once, whatever the timeout, and returns a line that reads what this client
  writes and writes what it reads; both queues are connected and empty, the other
  clients keep their places.
\<close>
theorem accept_pairs_first:
  assumes "inproc_reachable st" and "acceptors st a = Some address"
    and "gs_connectQueue st = pre @ l # post" and "line_address st l = Some address"
    and "\<forall>p \<in> set pre. line_address st p \<noteq> Some address"
  shows "\<exists>st' s q. InprocAcceptor_waitConnection st a timeoutInMs turns = Inr (st', Some s) \<and>
     peers st' l s \<and> gs_connectQueue st' = pre @ post \<and> in_queue st' l = Some q \<and> in_queue st' s = Some q \<and>
     dq_contents q = [] \<and> m_connected q"
proof -
  have inv: "inproc_inv st" using assms(1) by (rule reachable_inv)
  have lb: "l < fresh st" using queued_below [OF inv] assms(3) by simp
  from accept_cases [OF inv assms(2)]
  obtain line where "InprocAcceptor_accept st a = Inr (paired st l line (pre @ post), Some (fresh st + 2))"
  proof (elim disjE exE conjE)
    fix pre' k post' line
    assume k: "gs_connectQueue st = pre' @ k # post'" "lines st k = Some line" "m_address line = address"
      "\<forall>p \<in> set pre'. line_address st p \<noteq> Some address"
      and acc: "InprocAcceptor_accept st a = Inr (paired st k line (pre' @ post'), Some (fresh st + 2))"
    have "line_address st k = Some address" using k by (simp add: line_address_def)
    then have "pre' = pre \<and> k = l \<and> post' = post"
      using k(1,4) assms(3-5) by (auto simp: append_eq_append_conv2 append_eq_Cons_conv Cons_eq_append_conv)
    with acc that show thesis by blast
  next
    assume "\<forall>p \<in> set (gs_connectQueue st). line_address st p \<noteq> Some address"
    with assms(3,4) show thesis by simp
  qed
  moreover have "in_queue (paired st l line (pre @ post)) (fresh st + 2) = Some fresh_queue"
    using paired_peers [OF lb] peers_out_in by metis
  ultimately show ?thesis
    using paired_peers [OF lb] by (cases turns) (auto intro!: exI [of _ fresh_queue])
qed

theorem accept_pairs_first_witness:
  "\<exists>st' s. InprocAcceptor_waitConnection served 0 (- 1) [] = Inr (st', Some s) \<and> peers st' 1 s"
  using accept_pairs_first [OF served_reachable served_clients(2) _ served_clients(1), of "[]" "[]" "- 1" "[]"]
    served_clients(3) by auto

text \<open>
  C14 (createClient_served): \<^verbatim>\<open>createClient\<close> returns, with a connected line, once acceptors of its address have
  run more often than there were clients of this address in the queue before it: the clients of an
  address are served in the order in which they came.
\<close>
theorem createClient_served:
  assumes "inproc_reachable st" and "\<forall>a \<in> set as. acceptors st a \<noteq> None"
    and "clients_of st address (gs_connectQueue st) < servers_of st address as"
  shows "\<exists>st' l s. InprocLineFactory_createClient st address as = Inr (st', l) \<and> peers st' l s"
  using client_served [OF reachable_inv [OF assms(1)] assms(2,3)] .

theorem createClient_served_witness:
  "\<exists>st' l s. InprocLineFactory_createClient served ''foo'' [0, 0] = Inr (st', l) \<and> peers st' l s"
  by (rule createClient_served [OF served_reachable])
    (simp_all add: served_clients clients_of_def servers_of_def)

text \<open>
  A buffer written on a line, when it fits into the free space of the queue, is
  what the peer reads next after the bytes already there, and the write returns its length.
  The stream in the other direction is not touched.
\<close>
lemma peer_write_then_read:
  assumes "inproc_reachable st" and "peers st c s" and "in_queue st s = Some q"
    and "bs \<noteq> []" and "length (dq_contents q) + length bs < inproc_buffer_size"
    and "n = length (dq_contents q) + length bs"
  shows "\<exists>st1 st2. InprocLine_write st c bs [] = Inr (st1, int (length bs), []) \<and>
     InprocLine_read st1 s n [] = Inr (st2, dq_contents q @ bs, int n, []) \<and>
     in_queue st2 c = in_queue st c"
proof -
  have inv: "inproc_inv st" using assms(1) by (rule reachable_inv)
  obtain x y i j where p: "lines st c = Some x" "lines st s = Some y"
    "m_in x = Some i" "m_out x = Some j" "m_in y = Some j" "m_out y = Some i"
    using assms(2) unfolding peers_def by blast
  from line_queues [OF inv p(1)] p assms(3) have q: "queues st j = Some q" "dq_inv q"
    "dq_capacity q = inproc_buffer_size - 1" "i \<noteq> j"
    by (auto simp: in_queue_def)
  obtain q1 where q1: "DataQueue_finish_write q bs [] = Inr (q1, int (length bs), [])" "dq_inv q1"
    "dq_contents q1 = dq_contents q @ bs"
  proof -
    have room: "length bs \<le> dq_capacity q - length (dq_contents q)" using q(3) assms(5) by linarith
    show ?thesis
      by (rule finish_write_appends [OF q(2), of bs "[]"]) (use room that in \<open>simp add: min_absorb1\<close>)
  qed
  have "DataQueue_write q bs [] = Inr (q1, int (length bs), [])"
    using q q1 assms(4,5) by (cases bs) (simp_all add: write_immediate)
  then have w: "InprocLine_write st c bs [] = Inr (st\<lparr>queues := (queues st)(j \<mapsto> q1)\<rparr>, int (length bs), [])"
    by (simp add: InprocLine_write_queue [OF p(1,4) q(1)])
  have ne: "dq_contents q1 \<noteq> []" using q1 assms(4) by simp
  obtain q2 where "DataQueue_finish_read q1 n [] = Inr (q2, dq_contents q @ bs, int n, [])"
    using finish_read_delivers [OF q1(2) ne, of n "[]"] q1(3) assms(6) by auto
  with q1 ne have "InprocLine_read (st\<lparr>queues := (queues st)(j \<mapsto> q1)\<rparr>) s n [] =
      Inr (st\<lparr>queues := (queues st)(j \<mapsto> q2)\<rparr>, dq_contents q @ bs, int n, [])"
    using p by (subst InprocLine_read_queue [of _ _ y j q1])
      (auto simp: read_immediate DataQueue_readWithTimeout_def)
  with w show ?thesis using p q(4) by (simp add: in_queue_def)
qed

text \<open>
  When one line of a pair is destroyed, the other still reads everything that was
  written before, with or without a timeout and without waiting, and gets \<^verbatim>\<open>eConnectionLost\<close> once the
  queue is empty.
\<close>
lemma peer_destroyed:
  assumes "inproc_reachable st" and "peers st c s" and "c \<noteq> s" and "in_queue st s = Some q"
  shows "\<exists>st1. InprocLine_destroy st c = Inr st1 \<and>
    (\<exists>st2 q'. InprocLine_read st1 s n ws =
        (if dq_contents q = [] then Inr (st1, [], eConnectionLost, ws)
         else Inr (st2, take n (dq_contents q), int (min n (length (dq_contents q))), ws)) \<and>
      (dq_contents q \<noteq> [] \<longrightarrow> in_queue st2 s = Some q' \<and> dq_contents q' = drop n (dq_contents q) \<and>
         \<not> m_connected q'))"
proof -
  have inv: "inproc_inv st" using assms(1) by (rule reachable_inv)
  obtain x y i j where p: "lines st c = Some x" "lines st s = Some y"
    "m_in x = Some i" "m_out x = Some j" "m_in y = Some j" "m_out y = Some i"
    using assms(2) unfolding peers_def by blast
  obtain qi where q: "queues st j = Some q" "dq_inv q" "i \<noteq> j" "queues st i = Some qi"
    using line_queues [OF inv p(1)] p assms(4) by (auto simp: in_queue_def)
  let ?q = "DataQueue_setConnectionFlag q False"
  let ?st1 = "st\<lparr>queues := (queues st)(j \<mapsto> ?q, i \<mapsto> DataQueue_setConnectionFlag qi False),
                  lines := (lines st)(c := None)\<rparr>"
  have d: "InprocLine_destroy st c = Inr ?st1" using inv p q by (intro destroy_eq)
  have rd: "InprocLine_read ?st1 s n ws =
      bind_res (if m_readTimeout y > 0 then DataQueue_readWithTimeout ?q n ws else DataQueue_read ?q n ws)
        (\<lambda>(q', out, rc, ws'). Inr (?st1\<lparr>queues := (queues ?st1)(j \<mapsto> q')\<rparr>, out, rc, ws'))"
    using p q assms(3) by (intro InprocLine_read_queue) auto
  have same: "?st1\<lparr>queues := (queues ?st1)(j \<mapsto> ?q)\<rparr> = ?st1" using q(3) by (simp add: fun_upd_twist)
  show ?thesis
  proof (cases "dq_contents q = []")
    case True
    then have "InprocLine_read ?st1 s n ws = Inr (?st1, [], eConnectionLost, ws)"
      using q(2) same unfolding rd by (simp add: read_lost DataQueue_readWithTimeout_def)
    with d True show ?thesis by auto
  next
    case False
    then obtain q' where q': "DataQueue_finish_read ?q n ws =
        Inr (q', take n (dq_contents q), int (min n (length (dq_contents q))), ws)"
      "dq_contents q' = drop n (dq_contents q)" "\<not> m_connected q'"
      using finish_read_delivers [of ?q n ws] q(2) by (auto simp: min.commute)
    with False q(2) have "InprocLine_read ?st1 s n ws =
        Inr (?st1\<lparr>queues := (queues ?st1)(j \<mapsto> q')\<rparr>, take n (dq_contents q), int (min n (length (dq_contents q))), ws)"
      unfolding rd by (simp add: read_immediate DataQueue_readWithTimeout_def)
    with d False q' p assms(3) show ?thesis
      by (intro exI [of _ ?st1] conjI exI [of _ "?st1\<lparr>queues := (queues ?st1)(j \<mapsto> q')\<rparr>"] exI [of _ q'])
        (simp_all add: in_queue_def)
  qed
qed

text \<open>
  After \<^verbatim>\<open>setOption(ReceiveTimeout)\<close> a read of an empty, connected line that nobody writes
  to returns \<^verbatim>\<open>eTimeout\<close> exactly when the value is positive as a 32-bit signed number; a value of 0
  or from \<open>2 ^ 31\<close> on makes it wait for ever. Any other option is refused.
\<close>
lemma receive_timeout:
  assumes "inproc_reachable st" and "lines st l = Some line" and "in_queue st l = Some q"
    and "dq_contents q = []" and "m_connected q"
  shows "\<exists>st1. InprocLine_setOption st l ReceiveTimeout v = Inr st1 \<and>
     InprocLine_read st1 l n [] =
       (if 0 < uint v \<and> uint v < 2 ^ 31 then Inr (st1, [], eTimeout, []) else Inl Blocked) \<and>
     (opt \<noteq> ReceiveTimeout \<longrightarrow> InprocLine_setOption st l opt v = Inl (Throw (UnsupportedOption '''')))"
proof -
  have inv: "inproc_inv st" using assms(1) by (rule reachable_inv)
  obtain i where i: "m_in line = Some i" "queues st i = Some q"
    using assms(2,3) by (auto simp: in_queue_def split: option.splits bind_splits)
  then have q: "dq_inv q" using line_queues [OF inv assms(2)] by auto
  let ?line = "line\<lparr>m_readTimeout := to_int32 (uint v)\<rparr>"
  let ?st1 = "st\<lparr>lines := (lines st)(l \<mapsto> ?line)\<rparr>"
  have "uint v < 2 ^ 32" using uint_lt2p [of v] by simp
  then have pos: "0 < to_int32 (uint v) \<longleftrightarrow> 0 < uint v \<and> uint v < 2 ^ 31"
    by (simp add: to_int32_def Let_def)
  have same: "?st1\<lparr>queues := (queues st)(i \<mapsto> q)\<rparr> = ?st1" using i(2) by (simp add: fun_upd_idem)
  have "InprocLine_read ?st1 l n [] =
      bind_res (if m_readTimeout ?line > 0 then DataQueue_readWithTimeout q n [] else DataQueue_read q n [])
        (\<lambda>(q', out, rc, ws'). Inr (?st1\<lparr>queues := (queues ?st1)(i \<mapsto> q')\<rparr>, out, rc, ws'))"
    using i by (intro InprocLine_read_queue) simp_all
  then have "InprocLine_read ?st1 l n [] =
      (if 0 < uint v \<and> uint v < 2 ^ 31 then Inr (?st1, [], eTimeout, []) else Inl Blocked)"
    using q assms(4,5) pos same by (auto simp: read_blocked DataQueue_readWithTimeout_def)
  then show ?thesis using assms(2) by (cases opt) (simp_all add: InprocLine_setOption_def)
qed

end
