(* ===== verification/Message.thy ===== *)
theory Message
  imports Cppio_Prelude
begin

text \<open>
  The classes \<^verbatim>\<open>Frame\<close> and \<^verbatim>\<open>Message\<close> of src/message.cpp and include/cppio/message.h: a message is
  a vector of frames, a frame a vector of bytes. The theory has their operations, with the
  serialisation \<^verbatim>\<open>writeMessage\<close> and the deserialisation \<^verbatim>\<open>readMessage\<close> written as the code does it, by
  accesses to a buffer at a moving position; \<open>encode\<close> is the wire format as a list, the
  specification both are proved against.
\<close>

section \<open>Frame\<close>

record frame =
  frame_data :: "byte list"

definition Frame_empty :: frame where
  "Frame_empty = \<lparr>frame_data = []\<rparr>"

text \<open>\<^verbatim>\<open>Frame(data, len)\<close> for a pointer at offset \<open>off\<close> into the object \<open>mem\<close>.\<close>

definition Frame_copy :: "byte list \<Rightarrow> nat \<Rightarrow> nat \<Rightarrow> failure + frame" where
  "Frame_copy mem off len = bind_res (mem_read mem off len) (\<lambda>bs. Inr \<lparr>frame_data = bs\<rparr>)"

definition Frame_move :: "byte list \<Rightarrow> frame" where
  "Frame_move data = \<lparr>frame_data = data\<rparr>"

definition Frame_size :: "frame \<Rightarrow> nat" where
  "Frame_size f = length (frame_data f)"

definition Frame_eq :: "frame \<Rightarrow> frame \<Rightarrow> bool" where
  "Frame_eq f other \<longleftrightarrow> frame_data f = frame_data other"

text \<open>The four overloads of \<^verbatim>\<open>fromValue\<close>: the object representation of the value.\<close>

definition fromValue_uint8 :: "8 word \<Rightarrow> frame" where
  "fromValue_uint8 value = \<lparr>frame_data = le_bytes 1 (unat value)\<rparr>"

definition fromValue_uint16 :: "16 word \<Rightarrow> frame" where
  "fromValue_uint16 value = \<lparr>frame_data = le_bytes 2 (unat value)\<rparr>"

definition fromValue_uint32 :: "32 word \<Rightarrow> frame" where
  "fromValue_uint32 value = \<lparr>frame_data = le_bytes 4 (unat value)\<rparr>"

definition bytes_of_string :: "string \<Rightarrow> byte list" where
  "bytes_of_string s = map (\<lambda>c. word_of_nat (of_char c)) s"

definition string_of_bytes :: "byte list \<Rightarrow> string" where
  "string_of_bytes bs = map (\<lambda>b. char_of (unat b)) bs"

definition fromValue_string :: "string \<Rightarrow> frame" where
  "fromValue_string value = \<lparr>frame_data = bytes_of_string value\<rparr>"

section \<open>Message\<close>

record message =
  m_frames :: "frame list"

definition Message_new :: message where
  "Message_new = \<lparr>m_frames = []\<rparr>"

definition Message_clear :: "message \<Rightarrow> message" where
  "Message_clear m = m\<lparr>m_frames := []\<rparr>"

definition Message_addFrame :: "message \<Rightarrow> frame \<Rightarrow> message" where
  "Message_addFrame m f = m\<lparr>m_frames := m_frames m @ [f]\<rparr>"

definition Message_size :: "message \<Rightarrow> nat" where
  "Message_size m = length (m_frames m)"

definition Message_frame :: "message \<Rightarrow> nat \<Rightarrow> failure + frame" where
  "Message_frame m index =
     (if index < length (m_frames m) then Inr (m_frames m ! index) else Inl (Undefined OutOfBounds))"

definition Message_messageSize :: "message \<Rightarrow> nat" where
  "Message_messageSize m =
     sz_add (foldl (\<lambda>totalSize f. sz_add totalSize (sz_add (Frame_size f) 4)) 0 (m_frames m)) 4"

fun write_frames :: "byte list \<Rightarrow> nat \<Rightarrow> frame list \<Rightarrow> failure + byte list" where
  "write_frames buffer b [] = Inr buffer"
| "write_frames buffer b (f # fs) =
     bind_res (mem_write buffer b (le_bytes 4 (Frame_size f)) 4) (\<lambda>buffer1.
     bind_res (mem_write buffer1 (b + 4) (frame_data f) (Frame_size f)) (\<lambda>buffer2.
       write_frames buffer2 (b + 4 + Frame_size f) fs))"

definition Message_writeMessage :: "message \<Rightarrow> byte list \<Rightarrow> failure + byte list" where
  "Message_writeMessage m buffer =
     bind_res (mem_write buffer 0 (le_bytes 4 (length (m_frames m))) 4) (\<lambda>buffer1.
       write_frames buffer1 4 (m_frames m))"

text \<open>
  \<^verbatim>\<open>readMessage(buffer, bufferLength)\<close>: the object is the list \<open>buffer\<close>, the length the caller
  states is \<open>bufferLength\<close>. The two length words are fetched without a check of the length; the
  check compares a pointer difference with the length converted to \<^verbatim>\<open>ssize_t\<close>. The
  position is an offset into the object.
\<close>

fun read_frames :: "byte list \<Rightarrow> nat \<Rightarrow> nat \<Rightarrow> nat \<Rightarrow> message \<Rightarrow> failure + message" where
  "read_frames buffer bufferLength current 0 msg = Inr msg"
| "read_frames buffer bufferLength current (Suc frames) msg =
     bind_res (mem_read buffer current 4) (\<lambda>word.
       let currentFrameLength = le_value word in
       if int (current + 4 + currentFrameLength) > to_ssize bufferLength
       then Inl (Throw (length_error ''Unable to construct Message: end of buffer''))
       else bind_res (Frame_copy buffer (current + 4) currentFrameLength) (\<lambda>f.
              read_frames buffer bufferLength (current + 4 + currentFrameLength) frames
                (Message_addFrame msg f)))"

definition Message_readMessage :: "byte list \<Rightarrow> nat \<Rightarrow> failure + message" where
  "Message_readMessage buffer bufferLength =
     bind_res (mem_read buffer 0 4) (\<lambda>word.
       read_frames buffer bufferLength 4 (le_value word) Message_new)"

text \<open>\<^verbatim>\<open>operator<<\<close> and the four overloads of \<^verbatim>\<open>get\<close>.\<close>

definition Message_append :: "('v \<Rightarrow> frame) \<Rightarrow> message \<Rightarrow> 'v \<Rightarrow> message" where
  "Message_append fromValue m value = Message_addFrame m (fromValue value)"

definition Message_get_uint8 :: "message \<Rightarrow> nat \<Rightarrow> failure + 8 word" where
  "Message_get_uint8 m frameNumber =
     bind_res (Message_frame m frameNumber) (\<lambda>f.
     bind_res (mem_read (frame_data f) 0 1) (\<lambda>bs. Inr (word_of_nat (le_value bs))))"

definition Message_get_uint16 :: "message \<Rightarrow> nat \<Rightarrow> failure + 16 word" where
  "Message_get_uint16 m frameNumber =
     bind_res (Message_frame m frameNumber) (\<lambda>f.
     bind_res (mem_read (frame_data f) 0 2) (\<lambda>bs. Inr (word_of_nat (le_value bs))))"

definition Message_get_uint32 :: "message \<Rightarrow> nat \<Rightarrow> failure + 32 word" where
  "Message_get_uint32 m frameNumber =
     bind_res (Message_frame m frameNumber) (\<lambda>f.
     bind_res (mem_read (frame_data f) 0 4) (\<lambda>bs. Inr (word_of_nat (le_value bs))))"

definition Message_get_string :: "message \<Rightarrow> nat \<Rightarrow> failure + string" where
  "Message_get_string m frameNumber =
     bind_res (Message_frame m frameNumber) (\<lambda>f. Inr (string_of_bytes (frame_data f)))"

section \<open>The wire format\<close>

fun encode_frames :: "frame list \<Rightarrow> byte list" where
  "encode_frames [] = []"
| "encode_frames (f # fs) = le_bytes 4 (Frame_size f) @ frame_data f @ encode_frames fs"

definition encode :: "message \<Rightarrow> byte list" where
  "encode m = le_bytes 4 (length (m_frames m)) @ encode_frames (m_frames m)"

text \<open>
  A message that the format can represent: the counts fit the 32-bit words, and the
  encoding fits a buffer (whose size is at most \<open>2 ^ 63 - 1\<close>).
\<close>

definition encodable :: "message \<Rightarrow> bool" where
  "encodable m \<longleftrightarrow>
     length (m_frames m) < 2 ^ 32 \<and> (\<forall>f \<in> set (m_frames m). Frame_size f < 2 ^ 32) \<and>
     length (encode m) < 2 ^ 63"

lemma mem_write_append [mem_simps]:
  assumes "length pre = off" and "n = length src" and "length mid = n"
  shows "mem_write (pre @ mid @ post) off src n = Inr (pre @ src @ post)"
  using assms by (simp add: mem_write_def)

lemma mem_read_append [mem_simps]:
  assumes "length pre = off" and "length mid = n"
  shows "mem_read (pre @ mid @ post) off n = Inr mid"
  using assms by (simp add: mem_read_def)

lemma split_at: "n \<le> length xs \<Longrightarrow> \<exists>ys zs. xs = ys @ zs \<and> length ys = n"
  by (metis append_take_drop_id length_take min.absorb2)

lemma messageSize_fold:
  "t + length (encode_frames fs) < size_modulus \<Longrightarrow>
   foldl (\<lambda>totalSize f. sz_add totalSize (sz_add (Frame_size f) 4)) t fs = t + length (encode_frames fs)"
  by (induction fs arbitrary: t) (simp_all add: size_arith Frame_size_def add.assoc)

lemma messageSize_encode:
  "length (encode m) < size_modulus \<Longrightarrow> Message_messageSize m = length (encode m)"
  by (simp add: Message_messageSize_def encode_def messageSize_fold size_arith)

lemma write_frames_encode:
  "length pre = b \<Longrightarrow> length mid = length (encode_frames fs) \<Longrightarrow>
   write_frames (pre @ mid @ post) b fs = Inr (pre @ encode_frames fs @ post)"
proof (induction fs arbitrary: pre b mid)
  case (Cons f fs)
  from Cons.prems(2) obtain m1 m2 m3
    where mid: "mid = m1 @ m2 @ m3" "length m1 = 4" "length m2 = Frame_size f"
      "length m3 = length (encode_frames fs)"
    using split_at [of 4 mid] split_at [of "Frame_size f" "drop 4 mid"]
    by (fastforce simp: Frame_size_def)
  have "mem_write (pre @ mid @ post) b (le_bytes 4 (Frame_size f)) 4 =
      Inr (pre @ le_bytes 4 (Frame_size f) @ m2 @ m3 @ post)"
    using mem_write_append [of pre b 4 "le_bytes 4 (Frame_size f)" m1 "m2 @ m3 @ post"] Cons.prems mid by simp
  moreover have "mem_write (pre @ le_bytes 4 (Frame_size f) @ m2 @ m3 @ post) (b + 4) (frame_data f) (Frame_size f) =
      Inr (pre @ le_bytes 4 (Frame_size f) @ frame_data f @ m3 @ post)"
    using mem_write_append [of "pre @ le_bytes 4 (Frame_size f)" "b + 4" "Frame_size f" "frame_data f" m2 "m3 @ post"]
      Cons.prems mid by (simp add: Frame_size_def)
  ultimately show ?case
    using Cons.IH [of "pre @ le_bytes 4 (Frame_size f) @ frame_data f" "b + 4 + Frame_size f" m3] Cons.prems mid
    by (simp add: Frame_size_def)
qed simp

lemma writeMessage_encode:
  assumes "length mid = length (encode m)"
  shows "Message_writeMessage m (mid @ post) = Inr (encode m @ post)"
proof -
  obtain m1 m2 where mid: "mid = m1 @ m2" "length m1 = 4"
    using split_at [of 4 mid] assms by (auto simp: encode_def)
  show ?thesis
    using mem_write_append [of "[]" 0 4 "le_bytes 4 (length (m_frames m))" m1 "m2 @ post"]
      write_frames_encode [of "le_bytes 4 (length (m_frames m))" 4 m2 "m_frames m" post] mid assms
    by (simp add: Message_writeMessage_def encode_def)
qed

section \<open>Reading back\<close>

lemma le_value_word: "n < 2 ^ 32 \<Longrightarrow> le_value (le_bytes 4 n) = n"
  by (simp add: le_value_le_bytes)

text \<open>One turn of the loop on an encoded frame.\<close>

lemma read_frames_step:
  assumes "length pre = current" and "Frame_size f < 2 ^ 32"
  shows "read_frames (pre @ le_bytes 4 (Frame_size f) @ frame_data f @ post) n current (Suc k) msg =
    (if int (current + 4 + Frame_size f) > to_ssize n
     then Inl (Throw (length_error ''Unable to construct Message: end of buffer''))
     else read_frames (pre @ le_bytes 4 (Frame_size f) @ frame_data f @ post) n
            (current + 4 + Frame_size f) k (Message_addFrame msg f))"
proof -
  let ?buffer = "pre @ le_bytes 4 (Frame_size f) @ frame_data f @ post"
  have "mem_read ?buffer current 4 = Inr (le_bytes 4 (Frame_size f))"
    using assms(1) by (intro mem_read_append) simp_all
  moreover have "mem_read ((pre @ le_bytes 4 (Frame_size f)) @ frame_data f @ post) (current + 4) (Frame_size f) =
      Inr (frame_data f)"
    using assms(1) by (intro mem_read_append) (simp_all add: Frame_size_def)
  then have "Frame_copy ?buffer (current + 4) (Frame_size f) = Inr f"
    unfolding Frame_copy_def append_assoc by simp
  ultimately show ?thesis
    using assms(2) by (simp only: read_frames.simps bind_res_simps Let_def le_value_word)
qed

lemma read_frames_encode:
  "length pre = current \<Longrightarrow> \<forall>f \<in> set fs. Frame_size f < 2 ^ 32 \<Longrightarrow>
   int (current + length (encode_frames fs)) \<le> to_ssize n \<Longrightarrow>
   read_frames (pre @ encode_frames fs @ post) n current (length fs + k) msg =
   read_frames (pre @ encode_frames fs @ post) n (current + length (encode_frames fs)) k
     (msg\<lparr>m_frames := m_frames msg @ fs\<rparr>)"
proof (induction fs arbitrary: pre current msg)
  case (Cons f fs)
  let ?pre = "pre @ le_bytes 4 (Frame_size f) @ frame_data f"
  let ?buffer = "pre @ le_bytes 4 (Frame_size f) @ frame_data f @ encode_frames fs @ post"
  have size: "length (encode_frames (f # fs)) = 4 + Frame_size f + length (encode_frames fs)"
    by (simp add: Frame_size_def)
  have "read_frames ?buffer n current (Suc (length fs + k)) msg =
      read_frames ?buffer n (current + 4 + Frame_size f) (length fs + k) (Message_addFrame msg f)"
    using Cons.prems size by (subst read_frames_step) auto
  also have "\<dots> = read_frames ?buffer n (current + 4 + Frame_size f + length (encode_frames fs)) k
      (msg\<lparr>m_frames := m_frames msg @ f # fs\<rparr>)"
    using Cons.IH [of ?pre "current + 4 + Frame_size f" "Message_addFrame msg f"] Cons.prems size
    by (simp add: Message_addFrame_def Frame_size_def)
  finally show ?case by (simp add: Frame_size_def add.assoc)
qed simp

lemma readMessage_encode:
  assumes "encodable m" and "length (encode m) \<le> n" and "n < 2 ^ 63"
  shows "Message_readMessage (encode m @ post) n = Inr m"
proof -
  let ?w = "le_bytes 4 (length (m_frames m))"
  have "mem_read (encode m @ post) 0 4 = Inr ?w"
    using mem_read_append [of "[]" 0 ?w 4 "encode_frames (m_frames m) @ post"] by (simp add: encode_def)
  moreover have "read_frames (encode m @ post) n 4 (length (m_frames m)) Message_new = Inr m"
    using assms read_frames_encode [of ?w 4 "m_frames m" n post 0 Message_new]
    by (simp add: encode_def encodable_def Message_new_def to_ssize_small)
  ultimately show ?thesis
    using assms by (simp add: Message_readMessage_def encodable_def le_value_word)
qed

lemma read_frames_inv:
  "read_frames buffer n current k msg = Inr msg' \<Longrightarrow> current \<le> length buffer \<Longrightarrow>
   \<exists>fs. msg' = msg\<lparr>m_frames := m_frames msg @ fs\<rparr> \<and> length fs = k \<and>
        current + length (encode_frames fs) \<le> length buffer \<and>
        take (length (encode_frames fs)) (drop current buffer) = encode_frames fs \<and>
        (fs = [] \<or> int (current + length (encode_frames fs)) \<le> to_ssize n)"
proof (induction k arbitrary: current msg)
  case 0
  then show ?case by (intro exI [of _ "[]"]) simp
next
  case (Suc k)
  from Suc.prems(1) obtain word f where step: "mem_read buffer current 4 = Inr word"
    "\<not> int (current + 4 + le_value word) > to_ssize n"
    "Frame_copy buffer (current + 4) (le_value word) = Inr f"
    "read_frames buffer n (current + 4 + le_value word) k (Message_addFrame msg f) = Inr msg'"
    by (auto simp: Let_def split: if_splits)
  from step(1) have word: "take 4 (drop current buffer) = word" "length word = 4"
    by (auto simp: mem_read_def split: if_splits)
  from step(3) have f: "frame_data f = take (le_value word) (drop (current + 4) buffer)"
    "Frame_size f = le_value word" "current + 4 + le_value word \<le> length buffer"
    by (auto simp: Frame_copy_def Frame_size_def mem_read_def split: if_splits)
  from Suc.IH [OF step(4) f(3)] obtain fs where fs:
    "msg' = (Message_addFrame msg f)\<lparr>m_frames := m_frames (Message_addFrame msg f) @ fs\<rparr>" "length fs = k"
    "current + 4 + le_value word + length (encode_frames fs) \<le> length buffer"
    "take (length (encode_frames fs)) (drop (current + 4 + le_value word) buffer) = encode_frames fs"
    "fs = [] \<or> int (current + 4 + le_value word + length (encode_frames fs)) \<le> to_ssize n"
    by blast
  have "take (4 + (le_value word + length (encode_frames fs))) (drop current buffer) =
      le_bytes 4 (le_value word) @ frame_data f @ encode_frames fs"
  proof -
    have "drop 4 (drop current buffer) = drop (current + 4) buffer"
      and "drop (le_value word) (drop (current + 4) buffer) = drop (current + 4 + le_value word) buffer"
      by (simp_all add: add.commute)
    then show ?thesis
      using word f(1) fs(4) le_bytes_le_value [of word 4] by (simp only: take_add)
  qed
  with fs f(2) step(2) have "length (encode_frames (f # fs)) = 4 + (le_value word + length (encode_frames fs))"
    "take (length (encode_frames (f # fs))) (drop current buffer) = encode_frames (f # fs)"
    by (simp_all add: Frame_size_def)
  with fs f(2) step(2) show ?case
    by (intro exI [of _ "f # fs"]) (auto simp: Message_addFrame_def)
qed

lemma read_frames_truncated:
  "length pre = current \<Longrightarrow> \<forall>f \<in> set fs. Frame_size f < 2 ^ 32 \<Longrightarrow> fs \<noteq> [] \<Longrightarrow>
   to_ssize n < int (current + length (encode_frames fs)) \<Longrightarrow>
   read_frames (pre @ encode_frames fs @ post) n current (length fs) msg =
   Inl (Throw (length_error ''Unable to construct Message: end of buffer''))"
proof (induction fs arbitrary: pre current msg)
  case (Cons f fs)
  let ?pre = "pre @ le_bytes 4 (Frame_size f) @ frame_data f"
  let ?buffer = "pre @ le_bytes 4 (Frame_size f) @ frame_data f @ encode_frames fs @ post"
  have turn: "read_frames ?buffer n current (Suc (length fs)) msg =
    (if int (current + 4 + Frame_size f) > to_ssize n
     then Inl (Throw (length_error ''Unable to construct Message: end of buffer''))
     else read_frames ?buffer n (current + 4 + Frame_size f) (length fs) (Message_addFrame msg f))"
    using Cons.prems by (intro read_frames_step) simp_all
  show ?case
  proof (cases "int (current + 4 + Frame_size f) > to_ssize n")
    case True
    with turn show ?thesis by simp
  next
    case False
    with Cons.prems have "fs \<noteq> []" by (auto simp: Frame_size_def)
    with Cons.IH [of ?pre "current + 4 + Frame_size f" "Message_addFrame msg f"] Cons.prems
    have "read_frames ?buffer n (current + 4 + Frame_size f) (length fs) (Message_addFrame msg f) =
      Inl (Throw (length_error ''Unable to construct Message: end of buffer''))"
      by (simp add: Frame_size_def)
    with turn False show ?thesis by simp
  qed
qed simp

lemma readMessage_header:
  "count < 2 ^ 32 \<Longrightarrow> Message_readMessage (le_bytes 4 count @ post) n =
     read_frames (le_bytes 4 count @ post) n 4 count Message_new"
  using mem_read_append [of "[]" 0 "le_bytes 4 count" 4 post]
  by (simp add: Message_readMessage_def le_value_word)

lemma string_bytes_inverse [simp]: "string_of_bytes (bytes_of_string s) = s"
  by (simp add: string_of_bytes_def bytes_of_string_def o_def unat_of_nat)

lemma frame_appended [simp]: "Message_frame (Message_append fv m v) (Message_size m) = Inr (fv v)"
  by (simp add: Message_frame_def Message_append_def Message_addFrame_def Message_size_def)

lemma frame_kept:
  "i < Message_size m \<Longrightarrow> Message_frame (Message_append fv m v) i = Message_frame m i"
  by (simp add: Message_frame_def Message_append_def Message_addFrame_def Message_size_def nth_append)

section \<open>Properties\<close>

text \<open>
  \<^verbatim>\<open>writeMessage\<close> into a buffer of \<^verbatim>\<open>messageSize()\<close> bytes, as
  \<^verbatim>\<open>sendMessage\<close> allocates it, stays inside the buffer and fills it with exactly the wire format of the
  message: the number of frames, then each frame's length and bytes, lengths as 32-bit
  little-endian words.
\<close>
lemma writeMessage_exact:
  assumes "length (encode m) < size_modulus" and "length buffer = Message_messageSize m"
  shows "Message_writeMessage m buffer = Inr (encode m)"
  using assms writeMessage_encode [of buffer m "[]"] by (simp add: messageSize_encode)

text \<open>
  C8 (message_roundtrip): reading a serialised message back gives the same message, whatever
  follows it in the buffer and whatever buffer of the right size it was written to.
\<close>
theorem message_roundtrip:
  assumes "encodable m" and "length buffer = Message_messageSize m"
  shows "\<exists>bytes. Message_writeMessage m buffer = Inr bytes \<and>
           Message_readMessage (bytes @ post) (Message_messageSize m) = Inr m"
proof -
  have "length (encode m) < size_modulus" using assms(1) by (simp add: encodable_def size_modulus_def)
  with assms show ?thesis
    using writeMessage_encode [of buffer m "[]"] readMessage_encode [of m "length (encode m)" post]
    by (simp add: messageSize_encode encodable_def)
qed

theorem message_roundtrip_witness:
  "\<exists>bytes. Message_writeMessage \<lparr>m_frames = [\<lparr>frame_data = [7, 8]\<rparr>, \<lparr>frame_data = []\<rparr>]\<rparr> (replicate 14 0) = Inr bytes \<and>
     Message_readMessage (bytes @ [9]) 14 = Inr \<lparr>m_frames = [\<lparr>frame_data = [7, 8]\<rparr>, \<lparr>frame_data = []\<rparr>]\<rparr>"
proof -
  let ?m = "\<lparr>m_frames = [\<lparr>frame_data = [7, 8 :: byte]\<rparr>, \<lparr>frame_data = []\<rparr>]\<rparr>"
  have size: "Message_messageSize ?m = 14"
    by (simp add: Message_messageSize_def Frame_size_def sz_add_def size_modulus_def)
  have "encodable ?m" by (simp add: encodable_def encode_def Frame_size_def)
  from message_roundtrip [OF this, of "replicate 14 0" "[9]"] size show ?thesis by simp
qed

text \<open>
  C26 (readMessage_canonical): whatever \<^verbatim>\<open>readMessage\<close> accepts is the wire format of the message it
  returns, found at the start of the buffer; and when the message has frames, it lies
  within the length the caller stated.
\<close>
theorem readMessage_canonical:
  assumes "Message_readMessage buffer n = Inr m"
  shows "take (length (encode m)) buffer = encode m \<and>
         (m_frames m = [] \<or> int (length (encode m)) \<le> to_ssize n)"
proof -
  from assms obtain word where word: "mem_read buffer 0 4 = Inr word"
    and frames: "read_frames buffer n 4 (le_value word) Message_new = Inr m"
    by (auto simp: Message_readMessage_def)
  from word have w: "take 4 buffer = word" "length word = 4" "4 \<le> length buffer"
    by (auto simp: mem_read_def split: if_splits)
  from read_frames_inv [OF frames w(3)] obtain fs where fs: "m = \<lparr>m_frames = fs\<rparr>" "length fs = le_value word"
    "take (length (encode_frames fs)) (drop 4 buffer) = encode_frames fs"
    "fs = [] \<or> int (4 + length (encode_frames fs)) \<le> to_ssize n"
    by (auto simp: Message_new_def)
  have "take (4 + length (encode_frames fs)) buffer = word @ encode_frames fs"
    using w(1) fs(3) by (simp only: take_add)
  with fs w le_bytes_le_value [of word 4] show ?thesis by (simp add: encode_def)
qed

theorem readMessage_canonical_witness:
  "take 10 ([1, 0, 0, 0, 2, 0, 0, 0, 5, 6, 77] :: byte list) = encode \<lparr>m_frames = [\<lparr>frame_data = [5, 6]\<rparr>]\<rparr>"
proof -
  let ?m = "\<lparr>m_frames = [\<lparr>frame_data = [5, 6 :: byte]\<rparr>]\<rparr>"
  have enc: "length (encode ?m) = 10" by (simp add: encode_def)
  have "Message_readMessage [1, 0, 0, 0, 2, 0, 0, 0, 5, 6, 77] 11 = Inr ?m"
    by code_simp
  from readMessage_canonical [OF this] enc show ?thesis by simp
qed

text \<open>
  When the stated length ends before the end of the last frame, the
  call throws \<^verbatim>\<open>std::length_error\<close>; it neither returns a shortened message nor reads the missing bytes.
\<close>
lemma readMessage_truncated:
  assumes "encodable m" and "m_frames m \<noteq> []" and "n < length (encode m)"
  shows "Message_readMessage (encode m @ post) n =
    Inl (Throw (length_error ''Unable to construct Message: end of buffer''))"
proof -
  let ?w = "le_bytes 4 (length (m_frames m))"
  have "to_ssize n = int n" using assms by (simp add: encodable_def to_ssize_small)
  with assms show ?thesis
    using readMessage_header [of "length (m_frames m)" "encode_frames (m_frames m) @ post" n]
      read_frames_truncated [of ?w 4 "m_frames m" n post Message_new]
    by (simp add: encode_def encodable_def)
qed

text \<open>
  The length words themselves are fetched without a check. A buffer that ends
  where a further frame is announced, with the caller stating its true length, is read
  past its end instead of being rejected with \<^verbatim>\<open>std::length_error\<close>.
\<close>
lemma readMessage_overread:
  assumes "\<forall>f \<in> set fs. Frame_size f < 2 ^ 32" and "length fs < count" and "count < 2 ^ 32"
    and "buffer = le_bytes 4 count @ encode_frames fs" and "length buffer < 2 ^ 63"
  shows "Message_readMessage buffer (length buffer) = Inl (Undefined OutOfBounds)"
proof -
  obtain k where k: "count = length fs + Suc k" using assms(2) less_imp_Suc_add by fastforce
  have "read_frames buffer (length buffer) 4 count Message_new =
      read_frames buffer (length buffer) (length buffer) (Suc k) (Message_new\<lparr>m_frames := fs\<rparr>)"
    using assms read_frames_encode [of "le_bytes 4 count" 4 fs "length buffer" "[]" "Suc k" Message_new] k
    by (simp add: to_ssize_small Message_new_def)
  also have "\<dots> = Inl (Undefined OutOfBounds)" by (simp add: mem_read_def)
  finally show ?thesis
    using readMessage_header [of count "encode_frames fs" "length buffer"] assms by simp
qed

text \<open>
  A value appended with \<^verbatim>\<open>operator<<\<close> is read back by the \<^verbatim>\<open>get\<close> of its type from the
  frame it was appended as, for the three integer types and for strings.
\<close>
lemma get_fromValue:
  "Message_get_uint8 (Message_append fromValue_uint8 m v8) (Message_size m) = Inr v8 \<and>
   Message_get_uint16 (Message_append fromValue_uint16 m v16) (Message_size m) = Inr v16 \<and>
   Message_get_uint32 (Message_append fromValue_uint32 m v32) (Message_size m) = Inr v32 \<and>
   Message_get_string (Message_append fromValue_string m s) (Message_size m) = Inr s"
proof -
  have "unat v8 < 256" "unat v16 < 65536" "unat v32 < 4294967296"
    using unsigned_less [of v8] unsigned_less [of v16] unsigned_less [of v32] by simp_all
  then show ?thesis
    by (simp add: Message_get_uint8_def Message_get_uint16_def Message_get_uint32_def
        Message_get_string_def fromValue_uint8_def fromValue_uint16_def fromValue_uint32_def
        fromValue_string_def mem_read_def le_value_le_bytes)
qed

end
