(* ===== verification/MessageProtocol.thy ===== *)
theory MessageProtocol
  imports Message
begin

text \<open>
  The class \<^verbatim>\<open>MessageProtocol\<close> of src/message.cpp: messages over an \<^verbatim>\<open>IoLine\<close>. The line is an object
  with virtual functions, so its \<^verbatim>\<open>read\<close> and \<^verbatim>\<open>write\<close> are arguments of the model: functions on the
  line's state that return the new state, the bytes stored in the caller's buffer (for
  a read) and the return value.

  What the protocol needs from a line to transfer a message is stated by the locales
  \<open>stream_source\<close> and \<open>stream_sink\<close>; a theory that models a line interprets them.
\<close>

type_synonym 's line_read = "'s \<Rightarrow> nat \<Rightarrow> failure + ('s \<times> byte list \<times> int)"
type_synonym 's line_write = "'s \<Rightarrow> byte list \<Rightarrow> failure + ('s \<times> int)"

section \<open>readMessage\<close>

text \<open>
  The loop \<^verbatim>\<open>while(bytesRead < n)\<close> that occurs three times in \<^verbatim>\<open>readMessage\<close>: fill the object
  \<open>buf\<close> from position \<open>bytesRead\<close> on. The result is \<open>Inl rc\<close> for the early return with the
  value of a read that is not positive.
\<close>

function fill :: "'s line_read \<Rightarrow> 's \<Rightarrow> byte list \<Rightarrow> nat \<Rightarrow> failure + ('s \<times> (int + byte list))" where
  "fill rd s buf bytesRead =
     (if bytesRead < length buf then
        bind_res (rd s (length buf - bytesRead)) (\<lambda>(s', out, rc).
        bind_res (mem_write buf bytesRead out (length out)) (\<lambda>buf'.
          let result = to_int32 rc in
          if result \<le> 0 then Inr (s', Inl result)
          else fill rd s' buf' (bytesRead + nat result)))
      else Inr (s, Inr buf))"
  by pat_completeness auto
termination
  by (relation "measure (\<lambda>(rd, s, buf, bytesRead). length buf - bytesRead)")
    (auto dest: mem_write_length)

declare fill.simps [simp del]

fun read_loop :: "'s line_read \<Rightarrow> 's \<Rightarrow> nat \<Rightarrow> message \<Rightarrow> failure + ('s \<times> message \<times> int)" where
  "read_loop rd s 0 m = Inr (s, m, 1)"
| "read_loop rd s (Suc frames) m =
     bind_res (fill rd s (replicate 4 0) 0) (\<lambda>(s1, r1).
       case r1 of
         Inl rc \<Rightarrow> Inr (s1, m, rc)
       | Inr word \<Rightarrow>
           bind_res (fill rd s1 (replicate (le_value word) 0) 0) (\<lambda>(s2, r2).
             case r2 of
               Inl rc \<Rightarrow> Inr (s2, m, rc)
             | Inr data \<Rightarrow> read_loop rd s2 frames (Message_addFrame m (Frame_move data))))"

definition MessageProtocol_readMessage ::
    "'s line_read \<Rightarrow> 's \<Rightarrow> message \<Rightarrow> failure + ('s \<times> message \<times> int)" where
  "MessageProtocol_readMessage rd s m =
     (if Message_size m \<noteq> 0 then Inl AssertionFailed
      else bind_res (fill rd s (replicate 4 0) 0) (\<lambda>(s1, r).
             case r of
               Inl rc \<Rightarrow> Inr (s1, m, rc)
             | Inr word \<Rightarrow> read_loop rd s1 (le_value word) m))"

section \<open>sendMessage\<close>

text \<open>
  The loop \<^verbatim>\<open>while(towrite > 0)\<close>. The return value of \<^verbatim>\<open>write\<close> is stored in a \<^verbatim>\<open>size_t\<close>, so
  \<^verbatim>\<open>towrite -= done\<close> and \<^verbatim>\<open>data += done\<close> act as the subtraction and addition of the signed value,
  modulo the width of the type. \<open>data\<close> is the offset of the pointer in the buffer; a call with a
  region that is not inside the buffer is undefined. The loop need not end: \<open>None\<close> is the
  result of a run that does not.
\<close>

partial_function (option) send_loop ::
    "'s line_write \<Rightarrow> 's \<Rightarrow> byte list \<Rightarrow> int \<Rightarrow> int \<Rightarrow> (failure + ('s \<times> int)) option" where
  "send_loop wr s buffer data towrite =
     (if towrite > 0 then
        (if 0 \<le> data \<and> data + towrite \<le> int (length buffer) then
           (case wr s (take (nat towrite) (drop (nat data) buffer)) of
              Inl e \<Rightarrow> Some (Inl e)
            | Inr r \<Rightarrow> send_loop wr (fst r) buffer (data + snd r) (to_int32 (towrite - snd r)))
         else Some (Inl (Undefined OutOfBounds)))
      else Some (Inr (s, 1)))"

definition MessageProtocol_sendMessage ::
    "'s line_write \<Rightarrow> 's \<Rightarrow> message \<Rightarrow> (failure + ('s \<times> int)) option" where
  "MessageProtocol_sendMessage wr s m =
     (case Message_writeMessage m (replicate (Message_messageSize m) 0) of
        Inl e \<Rightarrow> Some (Inl e)
      | Inr buffer \<Rightarrow> send_loop wr s buffer 0 (to_int32 (int (length buffer))))"

section \<open>The object\<close>

text \<open>
  A protocol owns an \<^verbatim>\<open>Impl\<close> with the pointer to its line; a protocol that was moved from has none. Both pointers
  are followed at every call of the line, without a check.
\<close>

record 'l protocol_impl =
  impl_line :: "'l option"

record 'l message_protocol =
  m_impl :: "'l protocol_impl option"

definition MessageProtocol_new :: "'l option \<Rightarrow> 'l message_protocol" where
  "MessageProtocol_new line = \<lparr>m_impl = Some \<lparr>impl_line = line\<rparr>\<rparr>"

text \<open>The new object, and what is left of \<^verbatim>\<open>other\<close>.\<close>

definition MessageProtocol_move :: "'l message_protocol \<Rightarrow> 'l message_protocol \<times> 'l message_protocol" where
  "MessageProtocol_move other = (\<lparr>m_impl = m_impl other\<rparr>, other\<lparr>m_impl := None\<rparr>)"

definition MessageProtocol_getLine :: "'l message_protocol \<Rightarrow> failure + 'l option" where
  "MessageProtocol_getLine p =
     (case m_impl p of None \<Rightarrow> Inl (Undefined NullPointer) | Some i \<Rightarrow> Inr (impl_line i))"

text \<open>\<^verbatim>\<open>m_impl->line->read\<close> and \<^verbatim>\<open>m_impl->line->write\<close>, for the functions of the line pointed to.\<close>

definition impl_read :: "('l \<Rightarrow> 's line_read) \<Rightarrow> 'l message_protocol \<Rightarrow> 's line_read" where
  "impl_read rd p s n =
     bind_res (MessageProtocol_getLine p) (\<lambda>line.
       case line of None \<Rightarrow> Inl (Undefined NullPointer) | Some l \<Rightarrow> rd l s n)"

definition impl_write :: "('l \<Rightarrow> 's line_write) \<Rightarrow> 'l message_protocol \<Rightarrow> 's line_write" where
  "impl_write wr p s bs =
     bind_res (MessageProtocol_getLine p) (\<lambda>line.
       case line of None \<Rightarrow> Inl (Undefined NullPointer) | Some l \<Rightarrow> wr l s bs)"

lemma impl_new [simp]:
  "impl_read rd (MessageProtocol_new (Some l)) = rd l" "impl_write wr (MessageProtocol_new (Some l)) = wr l"
  by (simp_all add: fun_eq_iff impl_read_def impl_write_def MessageProtocol_getLine_def MessageProtocol_new_def)

text \<open>Receiving a number of messages, one after the other, each into a new object.\<close>

fun receive_messages :: "'s line_read \<Rightarrow> 's \<Rightarrow> nat \<Rightarrow> failure + ('s \<times> (message \<times> int) list)" where
  "receive_messages rd s 0 = Inr (s, [])"
| "receive_messages rd s (Suc n) =
     bind_res (MessageProtocol_readMessage rd s Message_new) (\<lambda>(s1, m, rc).
     bind_res (receive_messages rd s1 n) (\<lambda>(s2, ms). Inr (s2, (m, rc) # ms)))"

fun send_messages :: "'s line_write \<Rightarrow> 's \<Rightarrow> message list \<Rightarrow> (failure + ('s \<times> int list)) option" where
  "send_messages wr s [] = Some (Inr (s, []))"
| "send_messages wr s (m # ms) =
     (case MessageProtocol_sendMessage wr s m of
        None \<Rightarrow> None
      | Some (Inl e) \<Rightarrow> Some (Inl e)
      | Some (Inr (s1, rc)) \<Rightarrow>
          map_option (map_sum id (map_prod id ((#) rc))) (send_messages wr s1 ms))"

section \<open>A line that delivers a stream\<close>

lemma Frame_move_data [simp]: "Frame_move (frame_data f) = f"
  by (simp add: Frame_move_def)

lemma Message_new_frames: "m_frames Message_new = []" "Message_new\<lparr>m_frames := m_frames m\<rparr> = m"
  by (simp_all add: Message_new_def)

text \<open>
  The frames that are complete in the first \<open>n\<close> bytes of their wire format: each takes four bytes for its length
  and those of its data.
\<close>

fun complete_frames :: "nat \<Rightarrow> frame list \<Rightarrow> frame list" where
  "complete_frames n [] = []"
| "complete_frames n (f # fs) =
     (if 4 + Frame_size f \<le> n then f # complete_frames (n - (4 + Frame_size f)) fs else [])"

lemma complete_frames_none [simp]: "n < 4 \<Longrightarrow> complete_frames n fs = []"
  by (cases fs) simp_all

text \<open>
  \<open>pending s\<close> are the bytes that reads from \<open>s\<close> will deliver. A read for a positive number of
  bytes, at most that of the pending ones, delivers at least one and at most that many of them.
\<close>

locale exact_source =
  fixes rd :: "'s line_read" and ok :: "'s \<Rightarrow> bool" and pending :: "'s \<Rightarrow> byte list"
  assumes read_available: "ok s \<Longrightarrow> 0 < n \<Longrightarrow> n \<le> length (pending s) \<Longrightarrow>
      \<exists>s' k. rd s n = Inr (s', take k (pending s), int k) \<and> 0 < k \<and> k \<le> n \<and>
             k \<le> length (pending s) \<and> k < 2 ^ 31 \<and> ok s' \<and> pending s' = drop k (pending s)"
begin

lemma fill_pending:
  "ok s \<Longrightarrow> pending s = xs @ rest \<Longrightarrow> length xs = length mid \<Longrightarrow>
   \<exists>s'. fill rd s (pre @ mid) (length pre) = Inr (s', Inr (pre @ xs)) \<and> ok s' \<and> pending s' = rest"
proof (induction "length mid" arbitrary: s pre mid xs rule: less_induct)
  case less
  show ?case
  proof (cases "mid = []")
    case True
    with less.prems show ?thesis by (simp add: fill.simps)
  next
    case False
    with less.prems obtain s1 k where k: "rd s (length mid) = Inr (s1, take k xs, int k)"
      "0 < k" "k \<le> length mid" "k < 2 ^ 31" "ok s1" "pending s1 = drop k xs @ rest"
      using read_available [of s "length mid"] by fastforce
    have "mem_write (pre @ mid) (length pre) (take k xs) k = Inr (pre @ take k xs @ drop k mid)"
      using k less.prems by (simp add: mem_write_def)
    moreover have "to_int32 (int k) = int k" using k by (simp add: to_int32_small)
    ultimately have "fill rd s (pre @ mid) (length pre) =
        fill rd s1 ((pre @ take k xs) @ drop k mid) (length (pre @ take k xs))"
      using False k less.prems by (subst fill.simps) (simp add: Let_def)
    moreover have "length (drop k mid) < length mid" using k False by simp
    ultimately show ?thesis
      using less.hyps [of "drop k mid" s1 "drop k xs" "pre @ take k xs"] k less.prems by simp
  qed
qed

corollary fill_object:
  assumes "ok s" and "pending s = xs @ rest" and "length xs = n"
  shows "\<exists>s'. fill rd s (replicate n 0) 0 = Inr (s', Inr xs) \<and> ok s' \<and> pending s' = rest"
  using fill_pending [OF assms(1,2), of "replicate n 0" "[]"] assms(3) by simp

lemma read_loop_pending:
  "ok s \<Longrightarrow> pending s = encode_frames fs @ rest \<Longrightarrow> \<forall>f \<in> set fs. Frame_size f < 2 ^ 32 \<Longrightarrow>
   \<exists>s'. read_loop rd s (length fs) m = Inr (s', m\<lparr>m_frames := m_frames m @ fs\<rparr>, 1) \<and> ok s' \<and> pending s' = rest"
proof (induction fs arbitrary: s m)
  case Nil
  then show ?case by simp
next
  case (Cons f fs)
  obtain s1 where s1: "fill rd s (replicate 4 0) 0 = Inr (s1, Inr (le_bytes 4 (Frame_size f)))" "ok s1"
    "pending s1 = frame_data f @ encode_frames fs @ rest"
    using fill_object [of s "le_bytes 4 (Frame_size f)" "frame_data f @ encode_frames fs @ rest" 4] Cons.prems
    by auto
  obtain s2 where s2: "fill rd s1 (replicate (Frame_size f) 0) 0 = Inr (s2, Inr (frame_data f))" "ok s2"
    "pending s2 = encode_frames fs @ rest"
    using fill_object [of s1 "frame_data f" "encode_frames fs @ rest" "Frame_size f"] s1 by (auto simp: Frame_size_def)
  have "le_value (le_bytes 4 (Frame_size f)) = Frame_size f" using Cons.prems by (simp add: le_value_word)
  with s1 s2 Cons.IH [OF s2(2,3), of "Message_addFrame m f"] Cons.prems show ?case
    by (simp add: Frame_move_data Message_addFrame_def)
qed

lemma readMessage_pending:
  assumes "ok s" and "pending s = encode m @ rest" and "encodable m"
  shows "\<exists>s'. MessageProtocol_readMessage rd s Message_new = Inr (s', m, 1) \<and> ok s' \<and> pending s' = rest"
proof -
  let ?w = "le_bytes 4 (length (m_frames m))"
  obtain s1 where s1: "fill rd s (replicate 4 0) 0 = Inr (s1, Inr ?w)" "ok s1"
    "pending s1 = encode_frames (m_frames m) @ rest"
    using fill_object [of s ?w "encode_frames (m_frames m) @ rest" 4] assms by (auto simp: encode_def)
  have "le_value ?w = length (m_frames m)" using assms by (simp add: le_value_word encodable_def)
  with s1 read_loop_pending [OF s1(2,3), of Message_new] assms show ?thesis
    by (simp add: MessageProtocol_readMessage_def Message_size_def encodable_def Message_new_frames)
qed

lemma receive_pending:
  "ok s \<Longrightarrow> pending s = concat (map encode ms) @ rest \<Longrightarrow> \<forall>m \<in> set ms. encodable m \<Longrightarrow>
   \<exists>s'. receive_messages rd s (length ms) = Inr (s', map (\<lambda>m. (m, 1)) ms) \<and> ok s' \<and> pending s' = rest"
proof (induction ms arbitrary: s)
  case (Cons m ms)
  then obtain s1 where s1: "MessageProtocol_readMessage rd s Message_new = Inr (s1, m, 1)" "ok s1"
    "pending s1 = concat (map encode ms) @ rest"
    using readMessage_pending [of s m "concat (map encode ms) @ rest"] by auto
  with Cons.IH [OF s1(2,3)] Cons.prems show ?case by auto
qed simp

end

text \<open>A source that also delivers what is pending when more is asked for.\<close>

locale stream_source =
  fixes rd :: "'s line_read" and ok :: "'s \<Rightarrow> bool" and pending :: "'s \<Rightarrow> byte list"
  assumes read_pending: "ok s \<Longrightarrow> pending s \<noteq> [] \<Longrightarrow> 0 < n \<Longrightarrow>
      \<exists>s' k. rd s n = Inr (s', take k (pending s), int k) \<and> 0 < k \<and> k \<le> n \<and>
             k \<le> length (pending s) \<and> k < 2 ^ 31 \<and> ok s' \<and> pending s' = drop k (pending s)"

lemma stream_source_exact:
  assumes "stream_source rd ok pending"
  shows "exact_source rd ok pending"
proof
  fix s and n :: nat
  assume "ok s" "0 < n" "n \<le> length (pending s)"
  then show "\<exists>s' k. rd s n = Inr (s', take k (pending s), int k) \<and> 0 < k \<and> k \<le> n \<and>
      k \<le> length (pending s) \<and> k < 2 ^ 31 \<and> ok s' \<and> pending s' = drop k (pending s)"
    by (intro stream_source.read_pending [OF assms]) auto
qed

sublocale stream_source \<subseteq> exact_source rd ok pending
  by (rule stream_source_exact [OF stream_source_axioms])

text \<open>
  A source whose end is reported by the return value \<open>stop\<close>: with nothing pending, a read returns
  this value, which is an error or 0.
\<close>

locale ending_source = stream_source +
  fixes stop :: int
  assumes stop_range: "- (2 ^ 31) \<le> stop" "stop \<le> 0"
    and read_end: "ok s \<Longrightarrow> pending s = [] \<Longrightarrow> 0 < n \<Longrightarrow>
      \<exists>s'. rd s n = Inr (s', [], stop) \<and> ok s' \<and> pending s' = []"
begin

lemma fill_short:
  "ok s \<Longrightarrow> length (pending s) < length mid \<Longrightarrow>
   \<exists>s'. fill rd s (pre @ mid) (length pre) = Inr (s', Inl stop) \<and> ok s' \<and> pending s' = []"
proof (induction "length mid" arbitrary: s pre mid rule: less_induct)
  case less
  show ?case
  proof (cases "pending s = []")
    case True
    with less.prems obtain s' where "rd s (length mid) = Inr (s', [], stop)" "ok s'" "pending s' = []"
      using read_end [of s "length mid"] by auto
    moreover have "to_int32 stop = stop" using stop_range by (simp add: to_int32_small)
    moreover have "mid \<noteq> []" using less.prems by auto
    ultimately show ?thesis
      using stop_range by (subst fill.simps) (simp add: mem_write_def Let_def)
  next
    case False
    with less.prems obtain s1 k where k: "rd s (length mid) = Inr (s1, take k (pending s), int k)"
      "0 < k" "k \<le> length (pending s)" "k < 2 ^ 31" "ok s1" "pending s1 = drop k (pending s)"
      using read_pending [of s "length mid"] by fastforce
    let ?out = "take k (pending s)"
    have "mem_write (pre @ mid) (length pre) ?out k = Inr (pre @ ?out @ drop k mid)"
      using k less.prems by (simp add: mem_write_def)
    moreover have "to_int32 (int k) = int k" using k by (simp add: to_int32_small)
    moreover have "mid \<noteq> []" using less.prems by auto
    ultimately have "fill rd s (pre @ mid) (length pre) =
        fill rd s1 ((pre @ ?out) @ drop k mid) (length (pre @ ?out))"
      using k less.prems by (subst fill.simps) (simp add: Let_def min_absorb2)
    moreover have "length (drop k mid) < length mid" using k less.prems by simp
    moreover have "length (pending s1) < length (drop k mid)" using k less.prems by simp
    ultimately show ?thesis
      using less.hyps [of "drop k mid" s1 "pre @ ?out"] k(5) by simp
  qed
qed

corollary fill_short_object:
  assumes "ok s" and "length (pending s) < n"
  shows "\<exists>s'. fill rd s (replicate n 0) 0 = Inr (s', Inl stop) \<and> ok s' \<and> pending s' = []"
  using fill_short [OF assms(1), of "replicate n 0" "[]"] assms(2) by simp

lemma read_loop_short:
  "ok s \<Longrightarrow> pending s @ missing = encode_frames fs \<Longrightarrow> missing \<noteq> [] \<Longrightarrow> \<forall>f \<in> set fs. Frame_size f < 2 ^ 32 \<Longrightarrow>
   \<exists>s'. read_loop rd s (length fs) m =
       Inr (s', m\<lparr>m_frames := m_frames m @ complete_frames (length (pending s)) fs\<rparr>, stop) \<and>
     ok s' \<and> pending s' = []"
proof (induction fs arbitrary: s m)
  case (Cons f fs)
  let ?w = "le_bytes 4 (Frame_size f)"
  have val: "le_value ?w = Frame_size f" using Cons.prems by (simp add: le_value_word)
  show ?case
  proof (cases "length (pending s) < 4")
    case True
    then obtain s1 where "fill rd s (replicate 4 0) 0 = Inr (s1, Inl stop)" "ok s1" "pending s1 = []"
      using fill_short_object [OF Cons.prems(1), of 4] by blast
    with True show ?thesis by (intro exI [of _ s1]) simp
  next
    case False
    with Cons.prems(2) obtain p1 where p1: "pending s = ?w @ p1" "p1 @ missing = frame_data f @ encode_frames fs"
      using append_split_at [of "pending s" missing ?w "frame_data f @ encode_frames fs"] by auto
    obtain s1 where s1: "fill rd s (replicate 4 0) 0 = Inr (s1, Inr ?w)" "ok s1" "pending s1 = p1"
      using fill_object [of s ?w p1 4] Cons.prems(1) p1(1) by auto
    show ?thesis
    proof (cases "length p1 < Frame_size f")
      case True
      then obtain s2 where "fill rd s1 (replicate (Frame_size f) 0) 0 = Inr (s2, Inl stop)" "ok s2" "pending s2 = []"
        using fill_short_object [OF s1(2), of "Frame_size f"] s1(3) by blast
      with s1 val p1(1) True show ?thesis by (intro exI [of _ s2]) simp
    next
      case False
      with p1(2) obtain p2 where p2: "p1 = frame_data f @ p2" "p2 @ missing = encode_frames fs"
        using append_split_at [OF p1(2)] by (auto simp: Frame_size_def)
      obtain s2 where s2: "fill rd s1 (replicate (Frame_size f) 0) 0 = Inr (s2, Inr (frame_data f))" "ok s2"
        "pending s2 = p2"
        using fill_object [of s1 "frame_data f" p2 "Frame_size f"] s1 p2 by (auto simp: Frame_size_def)
      from Cons.IH [OF s2(2), of "Message_addFrame m f"] s2(3) p2(2) Cons.prems(3,4)
      obtain s' where "read_loop rd s2 (length fs) (Message_addFrame m f) =
          Inr (s', m\<lparr>m_frames := m_frames m @ f # complete_frames (length p2) fs\<rparr>, stop)" "ok s'" "pending s' = []"
        by (auto simp: Message_addFrame_def)
      with s1 s2 val p1(1) p2(1) show ?thesis by (intro exI [of _ s']) (simp add: Frame_size_def)
    qed
  qed
qed simp

lemma readMessage_end:
  assumes "ok s" and "pending s = []"
  shows "\<exists>s'. MessageProtocol_readMessage rd s Message_new = Inr (s', Message_new, stop) \<and> ok s' \<and> pending s' = []"
proof -
  obtain s1 where "fill rd s (replicate 4 0) 0 = Inr (s1, Inl stop)" "ok s1" "pending s1 = []"
    using fill_short_object [OF assms(1), of 4] assms(2) by auto
  then show ?thesis by (simp add: MessageProtocol_readMessage_def Message_size_def Message_new_frames)
qed

lemma readMessage_short:
  assumes "ok s" and "pending s @ missing = encode m" and "missing \<noteq> []" and "encodable m"
  shows "\<exists>s' m'. MessageProtocol_readMessage rd s Message_new = Inr (s', m', stop) \<and> ok s' \<and> pending s' = [] \<and>
     m_frames m' = complete_frames (length (pending s) - 4) (m_frames m)"
proof (cases "length (pending s) < 4")
  case True
  then obtain s1 where "fill rd s (replicate 4 0) 0 = Inr (s1, Inl stop)" "ok s1" "pending s1 = []"
    using fill_short_object [OF assms(1), of 4] by blast
  then show ?thesis
    using True by (auto simp: MessageProtocol_readMessage_def Message_size_def Message_new_frames complete_frames_none)
next
  case False
  let ?w = "le_bytes 4 (length (m_frames m))"
  from False assms(2) obtain p1 where p1: "pending s = ?w @ p1" "p1 @ missing = encode_frames (m_frames m)"
    using append_split_at [of "pending s" missing ?w "encode_frames (m_frames m)"] by (auto simp: encode_def)
  obtain s1 where s1: "fill rd s (replicate 4 0) 0 = Inr (s1, Inr ?w)" "ok s1" "pending s1 = p1"
    using fill_object [of s ?w p1 4] assms(1) p1(1) by auto
  have "le_value ?w = length (m_frames m)" using assms(4) by (simp add: le_value_word encodable_def)
  with s1 read_loop_short [OF s1(2), of missing "m_frames m" Message_new] p1 assms(3,4) show ?thesis
    by (auto simp: MessageProtocol_readMessage_def Message_size_def encodable_def Message_new_frames)
qed

end

section \<open>A line that accepts a stream\<close>

text \<open>
  \<open>sent s\<close> are the bytes the line has accepted so far and \<open>room s\<close> a number of bytes it can still
  take without an error. A write that fits is accepted at least in part.
\<close>

lemma sendMessage_send_loop:
  assumes "length (encode m) < 2 ^ 31"
  shows "MessageProtocol_sendMessage wr s m = send_loop wr s (encode m) 0 (int (length (encode m)))"
proof -
  have size: "Message_messageSize m = length (encode m)"
    using assms by (simp add: messageSize_encode size_modulus_def)
  have "Message_writeMessage m (replicate (Message_messageSize m) 0) = Inr (encode m)"
    using writeMessage_encode [of "replicate (Message_messageSize m) 0" m "[]"] size by simp
  moreover have "to_int32 (int (length (encode m))) = int (length (encode m))"
    using assms by (simp add: to_int32_small)
  ultimately show ?thesis by (simp add: MessageProtocol_sendMessage_def)
qed

locale stream_sink =
  fixes wr :: "'s line_write" and ok :: "'s \<Rightarrow> bool" and sent :: "'s \<Rightarrow> byte list" and room :: "'s \<Rightarrow> nat"
  assumes write_accepted: "ok s \<Longrightarrow> bs \<noteq> [] \<Longrightarrow> length bs \<le> room s \<Longrightarrow>
      \<exists>s' k. wr s bs = Inr (s', int k) \<and> 0 < k \<and> k \<le> length bs \<and> ok s' \<and>
             sent s' = sent s @ take k bs \<and> room s - k \<le> room s'"
begin

lemma send_loop_accepted:
  "ok s \<Longrightarrow> length bs \<le> room s \<Longrightarrow> length bs < 2 ^ 31 \<Longrightarrow>
   \<exists>s'. send_loop wr s (sofar @ bs) (int (length sofar)) (int (length bs)) = Some (Inr (s', 1)) \<and> ok s' \<and>
        sent s' = sent s @ bs \<and> room s - length bs \<le> room s'"
proof (induction "length bs" arbitrary: s sofar bs rule: less_induct)
  case less
  show ?case
  proof (cases "bs = []")
    case True
    with less.prems show ?thesis by (simp add: send_loop.simps)
  next
    case False
    with less.prems obtain s1 k where k: "wr s bs = Inr (s1, int k)" "0 < k" "k \<le> length bs" "ok s1"
      "sent s1 = sent s @ take k bs" "room s - k \<le> room s1"
      using write_accepted by metis
    have "to_int32 (int (length bs) - int k) = int (length (drop k bs))"
      using k less.prems by (subst to_int32_small) auto
    with False k have "send_loop wr s (sofar @ bs) (int (length sofar)) (int (length bs)) =
        send_loop wr s1 ((sofar @ take k bs) @ drop k bs) (int (length (sofar @ take k bs))) (int (length (drop k bs)))"
      by (subst send_loop.simps) simp
    with less.hyps [of "drop k bs" s1 "sofar @ take k bs"] k False less.prems show ?thesis by fastforce
  qed
qed

lemma sendMessage_accepted:
  assumes "ok s" and "length (encode m) \<le> room s" and "length (encode m) < 2 ^ 31"
  shows "\<exists>s'. MessageProtocol_sendMessage wr s m = Some (Inr (s', 1)) \<and> ok s' \<and>
              sent s' = sent s @ encode m \<and> room s - length (encode m) \<le> room s'"
  using send_loop_accepted [OF assms, of "[]"] assms(3) by (simp add: sendMessage_send_loop)

lemma send_accepted:
  "ok s \<Longrightarrow> length (concat (map encode ms)) \<le> room s \<Longrightarrow> length (concat (map encode ms)) < 2 ^ 31 \<Longrightarrow>
   \<exists>s'. send_messages wr s ms = Some (Inr (s', replicate (length ms) 1)) \<and> ok s' \<and>
        sent s' = sent s @ concat (map encode ms)"
proof (induction ms arbitrary: s)
  case (Cons m ms)
  let ?rest = "concat (map encode ms)"
  have fits: "length (encode m) + length ?rest \<le> room s" "length (encode m) + length ?rest < 2 ^ 31"
    using Cons.prems by simp_all
  then obtain s1 where s1: "MessageProtocol_sendMessage wr s m = Some (Inr (s1, 1))" "ok s1"
    "sent s1 = sent s @ encode m" "room s - length (encode m) \<le> room s1"
    using sendMessage_accepted [OF Cons.prems(1), of m] by auto
  moreover have "length ?rest \<le> room s1" "length ?rest < 2 ^ 31" using fits s1(4) by linarith+
  ultimately obtain s2 where "send_messages wr s1 ms = Some (Inr (s2, replicate (length ms) 1))" "ok s2"
    "sent s2 = sent s1 @ ?rest"
    using Cons.IH [OF s1(2)] by blast
  with s1 show ?case by auto
qed simp

end

section \<open>Any line\<close>

text \<open>A line that returns from every read and stores no more than it was asked for.\<close>

definition respects_buffer :: "'s line_read \<Rightarrow> bool" where
  "respects_buffer rd \<longleftrightarrow> (\<forall>s n. \<exists>s' out rc. rd s n = Inr (s', out, rc) \<and> length out \<le> n)"

lemma fill_total:
  "respects_buffer rd \<Longrightarrow>
   \<exists>s' r. fill rd s buf bytesRead = Inr (s', r) \<and> (\<forall>rc. r = Inl rc \<longrightarrow> rc \<le> 0) \<and>
          (\<forall>bs. r = Inr bs \<longrightarrow> length bs = length buf)"
proof (induction "length buf - bytesRead" arbitrary: s buf bytesRead rule: less_induct)
  case less
  show ?case
  proof (cases "bytesRead < length buf")
    case True
    obtain s1 out rc where rd: "rd s (length buf - bytesRead) = Inr (s1, out, rc)"
      "length out \<le> length buf - bytesRead"
      using less.prems unfolding respects_buffer_def by blast
    with True have "bytesRead + length out \<le> length buf" by linarith
    then obtain buf' where buf': "mem_write buf bytesRead out (length out) = Inr buf'"
      by (auto simp: mem_write_def)
    with less.hyps [of buf' "bytesRead + nat (to_int32 rc)" s1] less.prems True rd mem_write_length [OF buf']
    show ?thesis by (subst (1) fill.simps) (auto simp: Let_def)
  next
    case False
    then show ?thesis by (simp add: fill.simps)
  qed
qed

lemma read_loop_total:
  "respects_buffer rd \<Longrightarrow>
   \<exists>s' m' rc. read_loop rd s frames m = Inr (s', m', rc) \<and> (rc = 1 \<or> rc \<le> 0) \<and>
     (\<exists>fs. m_frames m' = m_frames m @ fs \<and> length fs \<le> frames \<and> (rc = 1 \<longrightarrow> length fs = frames))"
proof (induction frames arbitrary: s m)
  case (Suc frames)
  obtain s1 r1 where s1: "fill rd s (replicate 4 0) 0 = Inr (s1, r1)" "\<forall>rc. r1 = Inl rc \<longrightarrow> rc \<le> 0"
    using fill_total [OF Suc.prems] by metis
  show ?case
  proof (cases r1)
    case (Inl rc)
    with s1 show ?thesis by (auto intro!: exI [of _ "[]"])
  next
    case (Inr word)
    obtain s2 r2 where s2: "fill rd s1 (replicate (le_value word) 0) 0 = Inr (s2, r2)" "\<forall>rc. r2 = Inl rc \<longrightarrow> rc \<le> 0"
      using fill_total [OF Suc.prems] by metis
    show ?thesis
    proof (cases r2)
      case (Inl rc)
      with s1 s2 Inr show ?thesis by (auto intro!: exI [of _ "[]"])
    next
      case (Inr data)
      from Suc.IH [OF Suc.prems, of s2 "Message_addFrame m (Frame_move data)"]
      obtain s' m' rc fs where
        "read_loop rd s2 frames (Message_addFrame m (Frame_move data)) = Inr (s', m', rc)" "rc = 1 \<or> rc \<le> 0"
        "m_frames m' = m_frames m @ Frame_move data # fs" "length fs \<le> frames" "rc = 1 \<longrightarrow> length fs = frames"
        by (auto simp: Message_addFrame_def)
      with s1 s2 Inr \<open>r1 = Inr word\<close> show ?thesis
        by (auto intro!: exI [of _ "Frame_move data # fs"])
    qed
  qed
qed simp

lemma send_loop_first:
  assumes "0 < length buffer" and "wr s buffer = Inr (s', rc)"
  shows "send_loop wr s buffer 0 (int (length buffer)) =
         send_loop wr s' buffer rc (to_int32 (int (length buffer) - rc))"
  using assms by (subst send_loop.simps) simp

lemma encode_nonempty [simp]: "encode m \<noteq> []" "0 < length (encode m)"
  by (simp_all add: encode_def le_bytes.simps(2) [of 3, simplified])

text \<open>
  An error from the line is not reported. The negative return value
  of \<^verbatim>\<open>write\<close> is stored in a \<^verbatim>\<open>size_t\<close> and subtracted from the number of bytes left, which
  grows, and added to the pointer, which moves in front of the buffer: the next call passes a region
  outside the buffer.
\<close>
lemma send_error:
  assumes "wr s (encode m) = Inr (s', rc)" and "rc < 0" and "int (length (encode m)) - rc < 2 ^ 31"
  shows "MessageProtocol_sendMessage wr s m = Some (Inl (Undefined OutOfBounds))"
proof -
  have "length (encode m) < 2 ^ 31" using assms by simp
  then have "MessageProtocol_sendMessage wr s m =
      send_loop wr s' (encode m) rc (int (length (encode m)) - rc)"
    using assms by (simp add: sendMessage_send_loop send_loop_first to_int32_small)
  also have "\<dots> = Some (Inl (Undefined OutOfBounds))"
    using assms by (subst send_loop.simps) simp
  finally show ?thesis .
qed

text \<open>
  A protocol keeps its line when it is moved; the object moved from, and one for no line, follow a null pointer at the
  first access to the line, also for an empty message.
\<close>

lemma fill_null: "\<lbrakk>\<And>k. rd s k = Inl e; n \<noteq> 0\<rbrakk> \<Longrightarrow> fill rd s (replicate n 0) 0 = Inl e"
  by (simp add: fill.simps)

lemma moved_protocol:
  assumes "length (encode m) < 2 ^ 31" and "MessageProtocol_move p = (new, old)"
  shows "impl_read rd new = impl_read rd p" "impl_write wr new = impl_write wr p"
    "MessageProtocol_readMessage (impl_read rd old) s Message_new = Inl (Undefined NullPointer)"
    "MessageProtocol_sendMessage (impl_write wr old) s m = Some (Inl (Undefined NullPointer))"
proof -
  have p: "m_impl new = m_impl p" "m_impl old = None" using assms(2) by (auto simp: MessageProtocol_move_def)
  then show "impl_read rd new = impl_read rd p" "impl_write wr new = impl_write wr p"
    by (simp_all add: fun_eq_iff impl_read_def impl_write_def MessageProtocol_getLine_def)
  have null: "impl_read rd old s k = Inl (Undefined NullPointer)" "impl_write wr old s bs = Inl (Undefined NullPointer)" for k bs
    using p(2) by (simp_all add: impl_read_def impl_write_def MessageProtocol_getLine_def)
  then show "MessageProtocol_readMessage (impl_read rd old) s Message_new = Inl (Undefined NullPointer)"
    by (simp add: MessageProtocol_readMessage_def Message_size_def Message_new_frames fill_null)
  show "MessageProtocol_sendMessage (impl_write wr old) s m = Some (Inl (Undefined NullPointer))"
    using assms(1) null(2) by (simp add: sendMessage_send_loop send_loop.simps)
qed

lemma send_loop_stuck:
  assumes ret: "send_loop wr s buffer data towrite = Some r"
    and zero: "\<And>s bs. P s \<Longrightarrow> \<exists>s'. wr s bs = Inr (s', 0) \<and> P s'"
  shows "P s \<longrightarrow> 0 < towrite \<longrightarrow> towrite < 2 ^ 31 \<longrightarrow> 0 \<le> data \<longrightarrow> data + towrite \<le> int (length buffer) \<longrightarrow> False"
proof -
  define Q where "Q = (\<lambda>wr' :: 'a line_write. \<forall>s bs. P s \<longrightarrow> (\<exists>s'. wr' s bs = Inr (s', 0) \<and> P s'))"
  have "Q wr \<longrightarrow> P s \<longrightarrow> 0 < towrite \<longrightarrow> towrite < 2 ^ 31 \<longrightarrow> 0 \<le> data \<longrightarrow> data + towrite \<le> int (length buffer) \<longrightarrow> False"
  proof (rule send_loop.raw_induct [where P = "\<lambda>wr s buffer data towrite r. Q wr \<longrightarrow> P s \<longrightarrow>
      0 < towrite \<longrightarrow> towrite < 2 ^ 31 \<longrightarrow> 0 \<le> data \<longrightarrow> data + towrite \<le> int (length buffer) \<longrightarrow> False", OF _ ret])
    fix send wr s buffer data towrite r
    assume IH: "\<And>wr s buffer data towrite r. send wr s buffer data towrite = Some r \<Longrightarrow> Q wr \<longrightarrow> P s \<longrightarrow>
        0 < towrite \<longrightarrow> towrite < 2 ^ 31 \<longrightarrow> 0 \<le> data \<longrightarrow> data + towrite \<le> int (length buffer) \<longrightarrow> False"
      and body: "(if towrite > 0 then
          (if 0 \<le> data \<and> data + towrite \<le> int (length buffer) then
             (case wr s (take (nat towrite) (drop (nat data) buffer)) of
                Inl e \<Rightarrow> Some (Inl e)
              | Inr r \<Rightarrow> send wr (fst r) buffer (data + snd r) (to_int32 (towrite - snd r)))
           else Some (Inl (Undefined OutOfBounds)))
        else Some (Inr (s, 1))) = Some r"
    show "Q wr \<longrightarrow> P s \<longrightarrow> 0 < towrite \<longrightarrow> towrite < 2 ^ 31 \<longrightarrow> 0 \<le> data \<longrightarrow> data + towrite \<le> int (length buffer) \<longrightarrow> False"
    proof (intro impI)
      assume Q: "Q wr" and range: "P s" "0 < towrite" "towrite < 2 ^ 31" "0 \<le> data" "data + towrite \<le> int (length buffer)"
      then obtain s1 where "wr s (take (nat towrite) (drop (nat data) buffer)) = Inr (s1, 0)" "P s1"
        unfolding Q_def by blast
      with range body have "send wr s1 buffer data towrite = Some r" "P s1" by (simp_all add: to_int32_small)
      with IH range Q show False by blast
    qed
  qed
  moreover have "Q wr" using zero by (simp add: Q_def)
  ultimately show ?thesis by blast
qed

text \<open>
  Over a line whose writes return 0 from some state on (as \<^verbatim>\<open>NamedPipeLine::write\<close> does when
  \<^verbatim>\<open>WriteFile\<close> fails), \<^verbatim>\<open>sendMessage\<close> does not return.
\<close>
lemma sendMessage_zero_diverges:
  assumes "P s" and "\<And>s bs. P s \<Longrightarrow> \<exists>s'. wr s bs = Inr (s', 0) \<and> P s'" and "length (encode m) < 2 ^ 31"
  shows "MessageProtocol_sendMessage wr s m = None"
proof (rule ccontr)
  assume "MessageProtocol_sendMessage wr s m \<noteq> None"
  then obtain r where "send_loop wr s (encode m) 0 (int (length (encode m))) = Some r"
    using assms(3) by (auto simp: sendMessage_send_loop)
  from send_loop_stuck [of wr s "encode m" 0 "int (length (encode m))" r P, OF this assms(2)] assms(1,3) show False by simp
qed

section \<open>Properties\<close>

text \<open>
  C36 (readMessage_total): over a line whose reads return and stay inside the buffer they are given,
  \<^verbatim>\<open>readMessage\<close> returns as well, accesses no memory outside its objects, and its value is 1 or
  not positive.
\<close>
theorem readMessage_total:
  assumes "respects_buffer rd"
  shows "\<exists>s' m' rc. MessageProtocol_readMessage rd s Message_new = Inr (s', m', rc) \<and> (rc = 1 \<or> rc \<le> 0)"
proof -
  obtain s1 r where s1: "fill rd s (replicate 4 0) 0 = Inr (s1, r)" "\<forall>rc. r = Inl rc \<longrightarrow> rc \<le> 0"
    using fill_total [OF assms] by metis
  show ?thesis
  proof (cases r)
    case (Inl rc)
    with s1 show ?thesis by (simp add: MessageProtocol_readMessage_def Message_size_def Message_new_frames)
  next
    case (Inr word)
    with s1 read_loop_total [OF assms, of s1 "le_value word" Message_new] show ?thesis
      by (auto simp: MessageProtocol_readMessage_def Message_size_def Message_new_frames)
  qed
qed

theorem readMessage_total_witness:
  "\<exists>s' m' rc. MessageProtocol_readMessage (\<lambda>s n. Inr (s + 1, [], eTimeout)) (0 :: nat) Message_new = Inr (s', m', rc) \<and>
     (rc = 1 \<or> rc \<le> 0)"
  by (rule readMessage_total) (simp add: respects_buffer_def)

end
