(* ===== verification/InprocProtocol.thy ===== *)
theory InprocProtocol
  imports Inproc MessageProtocol
begin

text \<open>
  Messages over inter-thread lines: the protocol of the theory \<open>MessageProtocol\<close> running on
  the lines of the theory \<open>Inproc\<close>. A line is shown to be a stream source and a stream sink for
  calls that are not interfered with (their wake lists are empty), so what the
  two locales prove holds of it.
\<close>

section \<open>An inter-thread line as an IoLine\<close>

definition inproc_read :: "nat \<Rightarrow> inproc line_read" where
  "inproc_read l st n = bind_res (InprocLine_read st l n []) (\<lambda>(st', out, rc, _). Inr (st', out, rc))"

definition inproc_write :: "nat \<Rightarrow> inproc line_write" where
  "inproc_write l st bs = bind_res (InprocLine_write st l bs []) (\<lambda>(st', rc, _). Inr (st', rc))"

text \<open>Reads and writes leave the lines as they are, which the third part of the invariant records.\<close>

definition line_state :: "(nat \<rightharpoonup> inproc_line) \<Rightarrow> nat \<Rightarrow> inproc \<Rightarrow> bool" where
  "line_state L l st \<longleftrightarrow> inproc_inv st \<and> lines st = L \<and> (\<exists>line. L l = Some line \<and> m_in line \<noteq> None)"

definition inbox :: "nat \<Rightarrow> inproc \<Rightarrow> byte list" where
  "inbox l st = (case in_queue st l of None \<Rightarrow> [] | Some q \<Rightarrow> dq_contents q)"

definition outbox :: "nat \<Rightarrow> inproc \<Rightarrow> byte list" where
  "outbox l st = (case out_queue st l of None \<Rightarrow> [] | Some q \<Rightarrow> dq_contents q)"

definition peer_there :: "nat \<Rightarrow> inproc \<Rightarrow> bool" where
  "peer_there l st = (case in_queue st l of None \<Rightarrow> False | Some q \<Rightarrow> m_connected q)"

definition space :: "nat \<Rightarrow> inproc \<Rightarrow> nat" where
  "space l st = inproc_buffer_size - 1 - length (outbox l st)"

lemma line_state_queues:
  assumes "line_state L l st"
  shows "\<exists>line i j qi qj. lines st l = Some line \<and> L l = Some line \<and> m_in line = Some i \<and> m_out line = Some j \<and>
     queues st i = Some qi \<and> dq_inv qi \<and> dq_capacity qi = inproc_buffer_size - 1 \<and>
     queues st j = Some qj \<and> dq_inv qj \<and> dq_capacity qj = inproc_buffer_size - 1 \<and>
     inbox l st = dq_contents qi \<and> outbox l st = dq_contents qj"
proof -
  obtain line where l: "L l = Some line" "m_in line \<noteq> None" "lines st l = Some line" "inproc_inv st"
    using assms by (auto simp: line_state_def)
  obtain i j qi qj where "m_in line = Some i" "m_out line = Some j"
    "queues st i = Some qi" "dq_inv qi" "dq_capacity qi = inproc_buffer_size - 1"
    "queues st j = Some qj" "dq_inv qj" "dq_capacity qj = inproc_buffer_size - 1"
    using line_queues [OF l(4,3,2)] by blast
  with l show ?thesis
    by (intro exI [of _ line] exI [of _ i] exI [of _ j] exI [of _ qi] exI [of _ qj])
      (simp add: inbox_def outbox_def in_queue_def out_queue_def)
qed

lemma inproc_read_law:
  assumes ok: "line_state L l st" and "inbox l st \<noteq> []" and "0 < n"
  shows "\<exists>st' k. inproc_read l st n = Inr (st', take k (inbox l st), int k) \<and> 0 < k \<and> k \<le> n \<and>
     k \<le> length (inbox l st) \<and> k < 2 ^ 31 \<and> line_state L l st' \<and> inbox l st' = drop k (inbox l st) \<and>
     peer_there l st' = peer_there l st"
proof -
  obtain line i j qi where q: "lines st l = Some line" "L l = Some line" "m_in line = Some i" "m_out line = Some j"
    "queues st i = Some qi" "dq_inv qi" "dq_capacity qi = inproc_buffer_size - 1" "inbox l st = dq_contents qi"
    using line_state_queues [OF ok] by blast
  have ne: "dq_contents qi \<noteq> []" using assms(2) q(8) by simp
  let ?k = "min n (length (dq_contents qi))"
  obtain q' where q': "DataQueue_finish_read qi n [] = Inr (q', take n (dq_contents qi), int ?k, [])"
    "dq_inv q'" "dq_capacity q' = dq_capacity qi" "dq_contents q' = drop n (dq_contents qi)" "m_connected q' = m_connected qi"
    by (rule finish_read_delivers [OF q(6) ne, of n "[]"]) (simp add: min.commute)
  let ?st = "st\<lparr>queues := (queues st)(i \<mapsto> q')\<rparr>"
  have "inproc_read l st n = Inr (?st, take ?k (dq_contents qi), int ?k)"
    using q q' ne
    by (simp add: inproc_read_def InprocLine_read_queue [OF q(1,3,5)] read_immediate DataQueue_readWithTimeout_def
        take_min_length)
  moreover have "inproc_inv ?st"
    using ok q q' by (intro queue_update_inv) (auto simp: line_state_def has_queue_def)
  then have "line_state L l ?st" using ok by (simp add: line_state_def)
  moreover have "inbox l ?st = drop ?k (dq_contents qi)"
    using q q' by (simp add: inbox_def in_queue_def min_def)
  moreover have "peer_there l ?st = peer_there l st"
    using q q' by (simp add: peer_there_def in_queue_def)
  moreover have "?k < 2 ^ 31" using dq_bounded [OF q(6)] q(7) by (simp add: inproc_buffer_size_def)
  ultimately show ?thesis using ne assms(3) q(8) by (intro exI [of _ ?st] exI [of _ ?k]) simp
qed

lemma inproc_write_law:
  assumes ok: "line_state L l st" and "bs \<noteq> []" and "length bs \<le> space l st"
  shows "\<exists>st' k. inproc_write l st bs = Inr (st', int k) \<and> 0 < k \<and> k \<le> length bs \<and> line_state L l st' \<and>
     outbox l st' = outbox l st @ take k bs \<and> space l st - k \<le> space l st'"
proof -
  obtain line i j qj where q: "lines st l = Some line" "L l = Some line" "m_in line = Some i" "m_out line = Some j"
    "queues st j = Some qj" "dq_inv qj" "dq_capacity qj = inproc_buffer_size - 1" "outbox l st = dq_contents qj"
    using line_state_queues [OF ok] by blast
  have room: "length bs \<le> dq_capacity qj - length (dq_contents qj)" "0 < length bs"
    using assms q by (simp_all add: space_def)
  obtain q' where q': "DataQueue_finish_write qj bs [] = Inr (q', int (length bs), [])"
    "dq_inv q'" "dq_capacity q' = dq_capacity qj" "dq_contents q' = dq_contents qj @ bs"
    by (rule finish_write_appends [OF q(6), of bs "[]"]) (use room in \<open>simp add: min_absorb1\<close>)
  have "DataQueue_write qj bs [] = Inr (q', int (length bs), [])"
    using q'(1) room by (subst write_immediate [OF q(6)]) linarith+
  then have "inproc_write l st bs = Inr (st\<lparr>queues := (queues st)(j \<mapsto> q')\<rparr>, int (length bs))"
    by (simp add: inproc_write_def InprocLine_write_queue [OF q(1,4,5)])
  moreover have "inproc_inv (st\<lparr>queues := (queues st)(j \<mapsto> q')\<rparr>)"
    using ok q q' by (intro queue_update_inv) (auto simp: line_state_def has_queue_def)
  then have "line_state L l (st\<lparr>queues := (queues st)(j \<mapsto> q')\<rparr>)" using ok by (simp add: line_state_def)
  moreover have "outbox l (st\<lparr>queues := (queues st)(j \<mapsto> q')\<rparr>) = dq_contents qj @ bs"
    using q q' by (simp add: outbox_def out_queue_def)
  ultimately show ?thesis using assms(2) q(8) by (auto simp: space_def)
qed

interpretation inproc_source: stream_source "inproc_read l" "line_state L l" "inbox l" for l L
  by unfold_locales (metis inproc_read_law)

interpretation inproc_sink: stream_sink "inproc_write l" "line_state L l" "outbox l" "space l" for l L
  by unfold_locales (rule inproc_write_law)

text \<open>
  The end of the stream: with an empty queue, a read reports the lost connection, or the timeout
  when one is set. The parameter \<open>c\<close> says whether the peer is there.
\<close>

definition ending_state :: "(nat \<rightharpoonup> inproc_line) \<Rightarrow> nat \<Rightarrow> bool \<Rightarrow> inproc \<Rightarrow> bool" where
  "ending_state L l c st \<longleftrightarrow> line_state L l st \<and> peer_there l st = c \<and>
     (c \<longrightarrow> (\<forall>line. L l = Some line \<longrightarrow> 0 < m_readTimeout line))"

definition end_code :: "bool \<Rightarrow> int" where
  "end_code c = (if c then eTimeout else eConnectionLost)"

lemma end_code_range: "- (2 ^ 31) \<le> end_code c" "end_code c \<le> 0"
  by (simp_all add: end_code_def error_code_defs)

lemma inproc_read_end:
  assumes "ending_state L l c st" and "inbox l st = []"
  shows "\<exists>st'. inproc_read l st n = Inr (st', [], end_code c) \<and> ending_state L l c st' \<and> inbox l st' = []"
proof -
  have ok: "line_state L l st" using assms(1) by (simp add: ending_state_def)
  obtain line i qi where q: "lines st l = Some line" "L l = Some line" "m_in line = Some i"
    "queues st i = Some qi" "dq_inv qi" "inbox l st = dq_contents qi"
    using line_state_queues [OF ok] by blast
  have c: "m_connected qi = c" "c \<longrightarrow> 0 < m_readTimeout line"
    using assms(1) q by (auto simp: ending_state_def peer_there_def in_queue_def)
  have "(if m_readTimeout line > 0 then DataQueue_readWithTimeout qi n [] else DataQueue_read qi n []) =
        Inr (qi, [], end_code c, [])"
    using q c assms(2) by (auto simp: DataQueue_readWithTimeout_def read_lost end_code_def)
  moreover have "st\<lparr>queues := (queues st)(i \<mapsto> qi)\<rparr> = st" using q(4) by (simp add: fun_upd_idem)
  ultimately have "inproc_read l st n = Inr (st, [], end_code c)"
    by (simp add: inproc_read_def InprocLine_read_queue [OF q(1,3,4)])
  with assms show ?thesis by blast
qed

interpretation inproc_ending: ending_source "inproc_read l" "ending_state L l c" "inbox l" "end_code c" for l L c
proof unfold_locales
  fix st and n :: nat
  assume st: "ending_state L l c st" "inbox l st \<noteq> []" "0 < n"
  then have "line_state L l st" by (simp add: ending_state_def)
  from inproc_read_law [OF this st(2,3)] st(1)
  show "\<exists>st' k. inproc_read l st n = Inr (st', take k (inbox l st), int k) \<and> 0 < k \<and> k \<le> n \<and>
      k \<le> length (inbox l st) \<and> k < 2 ^ 31 \<and> ending_state L l c st' \<and> inbox l st' = drop k (inbox l st)"
    unfolding ending_state_def by blast
qed (simp_all add: inproc_read_end end_code_range [simplified])

lemma peers_line_state:
  assumes "inproc_reachable st" and "peers st c s"
  shows "line_state (lines st) c st" and "line_state (lines st) s st" and "outbox c st = inbox s st"
  using assms reachable_inv [OF assms(1)] peers_out_in [OF assms(2)]
  by (auto simp: line_state_def peers_def inbox_def outbox_def)

text \<open>The pair of the example with the client destroyed.\<close>

definition alone :: inproc where
  "alone = (case InprocLine_destroy connected 1 of Inr st \<Rightarrow> st | Inl _ \<Rightarrow> connected)"

lemma alone_eq:
  "InprocLine_destroy connected 1 = Inr alone"
  "alone = connected\<lparr>queues := (queues connected)(2 \<mapsto> DataQueue_setConnectionFlag fresh_queue False,
                                                  3 \<mapsto> DataQueue_setConnectionFlag fresh_queue False),
                     lines := (lines connected)(1 := None)\<rparr>"
  using destroy_eq [OF reachable_inv [OF connected_reachable] connected_lines(1), of 3 2 fresh_queue fresh_queue]
    connected_lines(3,4)
  by (simp_all add: alone_def)

lemma alone_reachable: "inproc_reachable alone"
  using connected_reachable destroy_line [OF alone_eq(1)] by (rule inproc_reachable.step)

lemma alone_lines:
  "lines alone 4 = Some \<lparr>m_address = ''foo'', m_in = Some 2, m_out = Some 3, m_readTimeout = 0\<rparr>"
  "queues alone 2 = Some (DataQueue_setConnectionFlag fresh_queue False)"
  by (simp_all add: alone_eq(2) connected_lines)

text \<open>The client of the pair writes some bytes and goes.\<close>

lemma peer_writes_and_leaves:
  assumes "0 < length bs" and "length bs < inproc_buffer_size"
  shows "\<exists>st line. inproc_reachable st \<and> lines st 4 = Some line \<and> m_in line \<noteq> None \<and> inbox 4 st = bs \<and> \<not> peer_there 4 st"
proof -
  obtain q' where "DataQueue_finish_write fresh_queue bs [] = Inr (q', int (length bs), [])" "dq_contents q' = bs"
    by (rule finish_write_appends [OF fresh_queue_simps(3), of bs "[]"]) (use assms(2) in \<open>simp add: min_absorb1\<close>)
  moreover have "DataQueue_write fresh_queue bs [] = DataQueue_finish_write fresh_queue bs []"
    by (rule write_immediate) (use assms(2) in \<open>simp_all add: inproc_buffer_size_def\<close>)
  ultimately have q': "DataQueue_write fresh_queue bs [] = Inr (q', int (length bs), [])" "dq_contents q' = bs"
    by simp_all
  let ?st = "connected\<lparr>queues := (queues connected)(2 \<mapsto> q')\<rparr>"
    and ?client = "\<lparr>m_address = ''foo'', m_in = Some 3, m_out = Some 2, m_readTimeout = 0\<rparr> :: inproc_line"
  have "InprocLine_write connected 1 bs [] = Inr (?st, int (length bs), [])"
    by (subst InprocLine_write_queue [OF connected_lines(1), of 2 fresh_queue]) (use q' connected_lines in simp_all)
  then have reach: "inproc_reachable ?st" using inproc_reachable.step [OF connected_reachable] line_writes by blast
  let ?left = "?st\<lparr>queues := (queues ?st)(2 \<mapsto> DataQueue_setConnectionFlag q' False, 3 \<mapsto> DataQueue_setConnectionFlag fresh_queue False),
      lines := (lines ?st)(1 := None)\<rparr>"
  have "InprocLine_destroy ?st 1 = Inr ?left"
    using connected_lines by (intro destroy_eq [OF reachable_inv [OF reach], of 1 ?client]) simp_all
  then have "inproc_reachable ?left" using inproc_reachable.step [OF reach] destroy_line by blast
  moreover have "lines ?left 4 = lines connected 4" "inbox 4 ?left = bs" "\<not> peer_there 4 ?left"
    using connected_lines q'(2) by (simp_all add: inbox_def peer_there_def in_queue_def)
  ultimately show ?thesis using connected_lines(2) by (intro exI [of _ ?left]) auto
qed

text \<open>A server and its first client, on a fresh registry.\<close>

lemma session_connects:
  "\<exists>st1 st2 c s. InprocLineFactory_createServer inproc_init a = Inr (st1, Some 0) \<and>
     InprocLineFactory_createClient st1 a [0] = Inr (st2, c) \<and> peers st2 c s \<and> inbox s st2 = [] \<and> inproc_reachable st2"
proof -
  let ?st1 = "inproc_init\<lparr>acceptors := [0 \<mapsto> a], gs_acceptors := [0], fresh := 1\<rparr>"
  let ?line = "\<lparr>m_address = a, m_in = None, m_out = None, m_readTimeout = 0\<rparr> :: inproc_line"
  let ?st = "?st1\<lparr>lines := [1 \<mapsto> ?line], gs_connectQueue := [1], fresh := 2\<rparr>"
  have server: "InprocLineFactory_createServer inproc_init a = Inr (?st1, Some 0)"
    by (simp add: InprocLineFactory_createServer_def inproc_init_def)
  have enqueue: "createClient_enqueue ?st1 a = (?st, 1)"
    by (simp add: createClient_enqueue_def InprocLine_client_def inproc_init_def)
  have accept: "InprocAcceptor_accept ?st 0 = Inr (paired ?st 1 ?line [], Some 4)"
    by (simp add: InprocAcceptor_accept_def InprocLine_server_def Let_def paired_def fresh_queue_def)
  have "inproc_reachable ?st"
    using inproc_reachable.intros create_server [OF server] enqueue_client [OF enqueue] by blast
  then have reach: "inproc_reachable (paired ?st 1 ?line [])"
    using accept_client [OF accept] by (rule inproc_reachable.step)
  have p: "peers (paired ?st 1 ?line []) 1 4" "out_queue (paired ?st 1 ?line []) 1 = Some fresh_queue"
    using paired_peers [of 1 ?st ?line "[]"] by simp_all
  have "InprocLine_waitForConnection ?st 1 [0] = Inr (paired ?st 1 ?line [])"
    using _ accept peers_connected [OF p(1)]
    by (rule waitForConnection_once) (simp add: InprocLine_connected_def)
  then have client: "InprocLineFactory_createClient ?st1 a [0] = Inr (paired ?st 1 ?line [], 1)"
    by (simp only: InprocLineFactory_createClient_def enqueue Let_def prod.case bind_res_simps)
  have "in_queue (paired ?st 1 ?line []) 4 = Some fresh_queue"
    using peers_out_in [OF p(1)] p(2) by metis
  then have "inbox 4 (paired ?st 1 ?line []) = []" by (simp add: inbox_def)
  with server client p(1) reach show ?thesis by blast
qed

section \<open>Properties\<close>

text \<open>
  C9 (messages_in_order): messages sent one after the other on a line arrive at its peer in the same order
  and unchanged, as long as together they fit into the free space of the queue: every
  \<^verbatim>\<open>sendMessage\<close> and every \<^verbatim>\<open>readMessage\<close> returns 1 and no byte is left over.
\<close>
theorem messages_in_order:
  assumes "inproc_reachable st" and "peers st c s" and "inbox s st = []"
    and "\<forall>m \<in> set ms. encodable m" and "length (concat (map encode ms)) < inproc_buffer_size"
  shows "\<exists>st1 st2. send_messages (inproc_write c) st ms = Some (Inr (st1, replicate (length ms) 1)) \<and>
     receive_messages (inproc_read s) st1 (length ms) = Inr (st2, map (\<lambda>m. (m, 1)) ms) \<and> inbox s st2 = []"
proof -
  note p = peers_line_state [OF assms(1,2)]
  have "length (concat (map encode ms)) \<le> space c st" "length (concat (map encode ms)) < 2 ^ 31"
    using assms(3,5) p(3) by (simp_all add: space_def inproc_buffer_size_def)
  then obtain st1 where st1: "send_messages (inproc_write c) st ms = Some (Inr (st1, replicate (length ms) 1))"
    "line_state (lines st) c st1" "outbox c st1 = concat (map encode ms)"
    using inproc_sink.send_accepted [OF p(1), of ms] assms(3) p(3) by auto
  have same: "lines st1 = lines st" using st1(2) by (simp add: line_state_def)
  have "outbox c st1 = inbox s st1"
    using peers_out_in [of st1 c s] assms(2) same by (simp add: outbox_def inbox_def peers_def)
  moreover have "line_state (lines st) s st1" using st1(2) p(2) by (simp add: line_state_def)
  ultimately show ?thesis
    using inproc_source.receive_pending [of "lines st" s st1 ms "[]"] st1 assms(4) by auto
qed

theorem messages_in_order_witness:
  "\<exists>st1 st2. send_messages (inproc_write 1) connected [\<lparr>m_frames = [Frame_move [1, 2]]\<rparr>, Message_new] =
       Some (Inr (st1, [1, 1])) \<and>
     receive_messages (inproc_read 4) st1 2 =
       Inr (st2, [(\<lparr>m_frames = [Frame_move [1, 2]]\<rparr>, 1), (Message_new, 1)])"
proof -
  let ?ms = "[\<lparr>m_frames = [Frame_move [1, 2]]\<rparr>, Message_new]"
  have empty: "inbox 4 connected = []" by (simp add: inbox_def in_queue_def connected_lines)
  have "\<forall>m \<in> set ?ms. encodable m" "length (concat (map encode ?ms)) < inproc_buffer_size"
    by (simp_all add: encodable_def encode_def Message_new_def Frame_move_def Frame_size_def inproc_buffer_size_def)
  from messages_in_order [OF connected_reachable connected_lines(5) empty this] show ?thesis
    by (auto simp: numeral_2_eq_2)
qed

text \<open>
  C27 (message_cut_off): when the stream of a line ends inside a message, \<^verbatim>\<open>readMessage\<close> returns
  \<^verbatim>\<open>eConnectionLost\<close> if the peer is gone and \<^verbatim>\<open>eTimeout\<close> if it is there and a timeout is set,
  and the message object holds exactly the frames whose bytes had all arrived behind the four of the count. All bytes of the
  unfinished message have been taken out of the queue: after a timeout the rest of the message, when it arrives, is
  read as the beginning of another one.
\<close>
theorem message_cut_off:
  assumes "inproc_reachable st" and "lines st l = Some line" and "m_in line \<noteq> None"
    and "peer_there l st \<longrightarrow> 0 < m_readTimeout line"
    and "inbox l st @ missing = encode m" and "missing \<noteq> []" and "encodable m"
  shows "\<exists>st' m'. MessageProtocol_readMessage (inproc_read l) st Message_new =
       Inr (st', m', if peer_there l st then eTimeout else eConnectionLost) \<and>
     m_frames m' = complete_frames (length (inbox l st) - 4) (m_frames m) \<and> inbox l st' = []"
proof -
  have "ending_state (lines st) l (peer_there l st) st"
    using assms(2-4) reachable_inv [OF assms(1)] by (auto simp: ending_state_def line_state_def)
  from inproc_ending.readMessage_short [OF this assms(5-7)] show ?thesis
    by (auto simp: end_code_def)
qed

theorem message_cut_off_witness:
  "\<exists>st st' m'. inproc_reachable st \<and> inbox 4 st = [2, 0, 0, 0, 1, 0, 0, 0, 7, 2, 0, 0, 0, 8] \<and>
     MessageProtocol_readMessage (inproc_read 4) st Message_new = Inr (st', m', eConnectionLost) \<and>
     m_frames m' = [Frame_move [7]] \<and> inbox 4 st' = []"
proof -
  let ?bs = "[2, 0, 0, 0, 1, 0, 0, 0, 7, 2, 0, 0, 0, 8] :: byte list"
  let ?m = "\<lparr>m_frames = [Frame_move [7], Frame_move [8, 9]]\<rparr>"
  have cut: "?bs @ [9] = encode ?m" by code_simp
  obtain st line where st: "inproc_reachable st" "lines st 4 = Some line" "m_in line \<noteq> None" "inbox 4 st = ?bs"
    "\<not> peer_there 4 st" using peer_writes_and_leaves [of ?bs] by (auto simp: inproc_buffer_size_def)
  have "encodable ?m" using arg_cong [OF cut, of length] by (simp add: encodable_def Frame_move_def Frame_size_def)
  with message_cut_off [OF st(1-3), of "[9]" ?m] st(4,5) cut obtain st' m' where
    "MessageProtocol_readMessage (inproc_read 4) st Message_new = Inr (st', m', eConnectionLost)"
    "m_frames m' = complete_frames (length ?bs - 4) (m_frames ?m)" "inbox 4 st' = []" by auto
  with st(1,4) show ?thesis
    by (intro exI [of _ st] exI [of _ st'] exI [of _ m']) (simp add: Frame_move_def Frame_size_def)
qed

text \<open>
  C38 (big_message_undefined): a message whose wire format is larger than the queue of a line is refused by the
  line with \<^verbatim>\<open>eTooBigBuffer\<close>, whatever is in the queue, and \<^verbatim>\<open>sendMessage\<close> goes on with a pointer
  outside its buffer.
\<close>
theorem big_message_undefined:
  assumes "inproc_reachable st" and "lines st l = Some line" and "m_in line \<noteq> None"
    and "inproc_buffer_size \<le> length (encode m)" and "length (encode m) < 2 ^ 31 - 10"
  shows "MessageProtocol_sendMessage (inproc_write l) st m = Some (Inl (Undefined OutOfBounds))"
proof -
  have "line_state (lines st) l st"
    using assms(2,3) reachable_inv [OF assms(1)] by (auto simp: line_state_def)
  then obtain j qj where q: "m_out line = Some j" "queues st j = Some qj" "dq_inv qj"
    "dq_capacity qj = inproc_buffer_size - 1"
    using line_state_queues assms(2) by fastforce
  then have "DataQueue_write qj (encode m) [] = Inr (qj, eTooBigBuffer, [])"
    using assms(4) by (intro write_too_big) (simp_all add: inproc_buffer_size_def)
  then have "inproc_write l st (encode m) = Inr (st\<lparr>queues := (queues st)(j \<mapsto> qj)\<rparr>, eTooBigBuffer)"
    by (simp add: inproc_write_def InprocLine_write_queue [OF assms(2) q(1,2)])
  then show ?thesis by (rule send_error) (use assms(5) in \<open>simp_all add: error_code_defs\<close>)
qed

theorem big_message_undefined_witness:
  "MessageProtocol_sendMessage (inproc_write 1) connected \<lparr>m_frames = [Frame_move (replicate 65536 0)]\<rparr> =
     Some (Inl (Undefined OutOfBounds))"
  by (rule big_message_undefined [OF connected_reachable connected_lines(1)])
    (simp_all add: encode_def inproc_buffer_size_def Frame_move_def)

end
