(* ===== verification/Channel.thy ===== *)
theory Channel
  imports InprocProtocol
begin

text \<open>
  What a connected pair of inter-thread lines promises to its two users: a channel with two ends and a bounded stream of
  bytes in each direction. The lines, with their shared queues, connection flags and ring buffers, refine
  it: whatever calls the two ends make, one after the other, each call returns, fails or waits as the
  channel says.
\<close>

section \<open>Objects that answer calls\<close>

text \<open>The answers to a sequence of calls; the first failure is the last answer.\<close>

fun answers :: "('s \<Rightarrow> 'c \<Rightarrow> failure + ('s \<times> 'r)) \<Rightarrow> 's \<Rightarrow> 'c list \<Rightarrow> (failure + 'r) list" where
  "answers call s [] = []"
| "answers call s (c # cs) =
     (case call s c of Inl e \<Rightarrow> [Inl e] | Inr (s', r) \<Rightarrow> Inr r # answers call s' cs)"

text \<open>An implementation whose calls do what those of a specification do, for related states.\<close>

locale implements =
  fixes call :: "'s \<Rightarrow> 'c \<Rightarrow> failure + ('s \<times> 'r)" and spec :: "'a \<Rightarrow> 'c \<Rightarrow> failure + ('a \<times> 'r)" and rel :: "'s \<Rightarrow> 'a \<Rightarrow> bool"
  assumes fails: "rel s a \<Longrightarrow> spec a c = Inl e \<Longrightarrow> call s c = Inl e"
    and returns: "rel s a \<Longrightarrow> spec a c = Inr (a', r) \<Longrightarrow> \<exists>s'. call s c = Inr (s', r) \<and> rel s' a'"
begin

lemma same_answers: "rel s a \<Longrightarrow> answers call s cs = answers spec a cs"
proof (induction cs arbitrary: s a)
  case (Cons c cs)
  show ?case
  proof (cases "spec a c")
    case (Inl e)
    with fails [OF Cons.prems] show ?thesis by simp
  next
    case (Inr x)
    then obtain a' r where x: "spec a c = Inr (a', r)" by (cases x) auto
    from returns [OF Cons.prems x] obtain s' where s': "call s c = Inr (s', r)" "rel s' a'" by blast
    with Cons.IH [OF s'(2)] x show ?thesis by simp
  qed
qed simp

end

section \<open>The channel\<close>

datatype side = Client_side | Server_side

fun other :: "side \<Rightarrow> side" where
  "other Client_side = Server_side"
| "other Server_side = Client_side"

lemma other_simps [simp]: "other e \<noteq> e" "other (other e) = e"
  by (cases e; simp)+

lemma side_eq: "d = e \<or> d = other e"
  by (cases d; cases e; simp)

text \<open>The bytes on their way to each end, the ends still there, and the receive timeout of each end.\<close>

record channel =
  coming :: "side \<Rightarrow> byte list"
  present :: "side \<Rightarrow> bool"
  patience :: "side \<Rightarrow> int"

datatype channel_call =
  Call_read side nat | Call_write side "byte list" | Call_setOption side LineOption "32 word" | Call_destroy side

datatype channel_answer = Was_read "byte list" int | Was_written int | Done

fun channel_does :: "channel \<Rightarrow> channel_call \<Rightarrow> failure + (channel \<times> channel_answer)" where
  "channel_does ch (Call_read e n) =
     (if \<not> present ch e then Inl (Undefined DanglingPointer)
      else if coming ch e \<noteq> [] then
        Inr (ch\<lparr>coming := (coming ch)(e := drop n (coming ch e))\<rparr>,
             Was_read (take n (coming ch e)) (int (min n (length (coming ch e)))))
      else if \<not> present ch (other e) then Inr (ch, Was_read [] eConnectionLost)
      else if 0 < patience ch e then Inr (ch, Was_read [] eTimeout)
      else Inl Blocked)"
| "channel_does ch (Call_write e bs) =
     (let room = inproc_buffer_size - 1 - length (coming ch (other e))
      in if \<not> present ch e then Inl (Undefined DanglingPointer)
         else if inproc_buffer_size \<le> length bs then Inr (ch, Was_written eTooBigBuffer)
         else if room = 0 then (if present ch (other e) then Inl Blocked else Inr (ch, Was_written eConnectionLost))
         else Inr (ch\<lparr>coming := (coming ch)(other e := coming ch (other e) @ take room bs)\<rparr>,
                   Was_written (int (min (length bs) room))))"
| "channel_does ch (Call_setOption e option v) =
     (if \<not> present ch e then Inl (Undefined DanglingPointer)
      else if option = ReceiveTimeout then Inr (ch\<lparr>patience := (patience ch)(e := to_int32 (uint v))\<rparr>, Done)
      else Inl (Throw (UnsupportedOption '''')))"
| "channel_does ch (Call_destroy e) =
     (if \<not> present ch e then Inl (Undefined DanglingPointer)
      else Inr (ch\<lparr>present := (present ch)(e := False)\<rparr>, Done))"

section \<open>The lines\<close>

text \<open>The calls on a pair of lines, of which \<open>ends\<close> has the pointers; nobody else uses their queues meanwhile.\<close>

fun lines_call :: "(side \<Rightarrow> nat) \<Rightarrow> inproc \<Rightarrow> channel_call \<Rightarrow> failure + (inproc \<times> channel_answer)" where
  "lines_call ends st (Call_read e n) =
     bind_res (InprocLine_read st (ends e) n []) (\<lambda>(st', out, rc, _). Inr (st', Was_read out rc))"
| "lines_call ends st (Call_write e bs) =
     bind_res (InprocLine_write st (ends e) bs []) (\<lambda>(st', rc, _). Inr (st', Was_written rc))"
| "lines_call ends st (Call_setOption e option v) =
     bind_res (InprocLine_setOption st (ends e) option v) (\<lambda>st'. Inr (st', Done))"
| "lines_call ends st (Call_destroy e) = bind_res (InprocLine_destroy st (ends e)) (\<lambda>st'. Inr (st', Done))"

text \<open>\<open>qs e\<close> is the queue that the line at \<open>e\<close> reads from; both queues are connected while both lines are there.\<close>

definition queue_linked :: "(side \<Rightarrow> nat) \<Rightarrow> inproc \<Rightarrow> channel \<Rightarrow> side \<Rightarrow> bool" where
  "queue_linked qs st ch e \<longleftrightarrow> (\<exists>q. queues st (qs e) = Some q \<and> dq_inv q \<and> dq_capacity q = inproc_buffer_size - 1 \<and>
     dq_contents q = coming ch e \<and> m_connected q = (present ch e \<and> present ch (other e)))"

definition line_linked :: "(side \<Rightarrow> nat) \<Rightarrow> (side \<Rightarrow> nat) \<Rightarrow> inproc \<Rightarrow> channel \<Rightarrow> side \<Rightarrow> bool" where
  "line_linked ends qs st ch e \<longleftrightarrow>
     (if present ch e
      then \<exists>x. lines st (ends e) = Some x \<and> m_in x = Some (qs e) \<and> m_out x = Some (qs (other e)) \<and> m_readTimeout x = patience ch e
      else lines st (ends e) = None)"

definition linked :: "(side \<Rightarrow> nat) \<Rightarrow> (side \<Rightarrow> nat) \<Rightarrow> inproc \<Rightarrow> channel \<Rightarrow> bool" where
  "linked ends qs st ch \<longleftrightarrow> inj ends \<and> inj qs \<and> (\<forall>e. queue_linked qs st ch e \<and> line_linked ends qs st ch e)"

lemma side_distinct: "inj f \<Longrightarrow> f (other e) \<noteq> f e" for f :: "side \<Rightarrow> nat"
  by (auto dest: injD)

section \<open>The queues alone\<close>

lemma queue_reads:
  assumes "dq_inv q"
  shows "(if 0 < t then DataQueue_readWithTimeout q n [] else DataQueue_read q n []) =
    (if dq_contents q \<noteq> [] then DataQueue_finish_read q n []
     else if \<not> m_connected q then Inr (q, [], eConnectionLost, [])
     else if 0 < t then Inr (q, [], eTimeout, []) else Inl Blocked)"
  using assms by (auto simp: DataQueue_readWithTimeout_def read_immediate read_lost read_blocked)

lemma queue_writes:
  assumes "dq_inv q"
  shows "DataQueue_write q bs [] =
    (if Suc (dq_capacity q) \<le> length bs then Inr (q, eTooBigBuffer, [])
     else if dq_capacity q - length (dq_contents q) = 0 then
       (if m_connected q then Inl Blocked else Inr (q, eConnectionLost, []))
     else DataQueue_finish_write q bs [])"
  using assms by (auto simp: DataQueue_write_def)

section \<open>The lines implement the channel\<close>

lemma linkedD:
  assumes "linked ends qs st ch"
  obtains q where "queues st (qs e) = Some q" and "dq_inv q" and "dq_capacity q = inproc_buffer_size - 1"
    and "dq_contents q = coming ch e" and "m_connected q = (present ch e \<and> present ch (other e))"
  using assms by (auto simp: linked_def queue_linked_def)

lemma linked_line:
  assumes "linked ends qs st ch"
  shows "\<not> present ch e \<Longrightarrow> deref (lines st) (ends e) = Inl (Undefined DanglingPointer)"
    and "present ch e \<Longrightarrow> \<exists>x. lines st (ends e) = Some x \<and> m_in x = Some (qs e) \<and> m_out x = Some (qs (other e)) \<and>
      m_readTimeout x = patience ch e"
proof -
  have "line_linked ends qs st ch e" using assms by (simp add: linked_def)
  then show "\<not> present ch e \<Longrightarrow> deref (lines st) (ends e) = Inl (Undefined DanglingPointer)"
    "present ch e \<Longrightarrow> \<exists>x. lines st (ends e) = Some x \<and> m_in x = Some (qs e) \<and> m_out x = Some (qs (other e)) \<and>
      m_readTimeout x = patience ch e"
    by (simp_all add: line_linked_def deref_def)
qed

lemma linked_queue:
  assumes "linked ends qs st ch" and "dq_inv q'" and "dq_capacity q' = inproc_buffer_size - 1" and "dq_contents q' = bs"
    and "m_connected q' = (present ch d \<and> present ch (other d))"
  shows "linked ends qs (st\<lparr>queues := (queues st)(qs d \<mapsto> q')\<rparr>) (ch\<lparr>coming := (coming ch)(d := bs)\<rparr>)"
proof -
  have "queue_linked qs (st\<lparr>queues := (queues st)(qs d \<mapsto> q')\<rparr>) (ch\<lparr>coming := (coming ch)(d := bs)\<rparr>) e" for e
    using assms by (cases "e = d") (auto simp: linked_def queue_linked_def dest: injD)
  then show ?thesis using assms(1) by (simp add: linked_def line_linked_def)
qed

lemma linked_same: "linked ends qs st ch \<Longrightarrow> queues st (qs d) = Some q \<Longrightarrow> linked ends qs (st\<lparr>queues := (queues st)(qs d \<mapsto> q)\<rparr>) ch"
  by (simp add: fun_upd_idem)

lemma read_linked:
  assumes "linked ends qs st ch" and "present ch e"
  shows "case channel_does ch (Call_read e n) of
      Inl f \<Rightarrow> lines_call ends st (Call_read e n) = Inl f
    | Inr (ch', r) \<Rightarrow> \<exists>st'. lines_call ends st (Call_read e n) = Inr (st', r) \<and> linked ends qs st' ch'"
proof -
  obtain x where x: "lines st (ends e) = Some x" "m_in x = Some (qs e)" "m_readTimeout x = patience ch e"
    using linked_line(2) [OF assms] by blast
  obtain q where q: "queues st (qs e) = Some q" "dq_inv q" "dq_capacity q = inproc_buffer_size - 1"
    "dq_contents q = coming ch e" "m_connected q = (present ch e \<and> present ch (other e))"
    using linkedD [OF assms(1)] .
  have call: "lines_call ends st (Call_read e n) =
      bind_res (if coming ch e \<noteq> [] then DataQueue_finish_read q n []
        else if \<not> present ch (other e) then Inr (q, [], eConnectionLost, [])
        else if 0 < patience ch e then Inr (q, [], eTimeout, []) else Inl Blocked)
      (\<lambda>(q', out, rc, _). Inr (st\<lparr>queues := (queues st)(qs e \<mapsto> q')\<rparr>, Was_read out rc))"
    using queue_reads [OF q(2), of "patience ch e" n] x q(1,4,5) assms(2)
    by (cases "0 < patience ch e") (simp_all add: InprocLine_read_def deref_def deref_shared_def bind_res_assoc split_def)
  show ?thesis
  proof (cases "coming ch e = []")
    case True
    with assms linked_same [OF assms(1) q(1)] show ?thesis unfolding call by simp
  next
    case False
    then have "dq_contents q \<noteq> []" using q(4) by simp
    from finish_read_delivers [OF q(2) this, of n "[]"] obtain q' where q':
      "DataQueue_finish_read q n [] = Inr (q', take n (dq_contents q), int (length (take n (dq_contents q))), [])"
      "dq_inv q'" "dq_capacity q' = dq_capacity q" "dq_contents q' = drop n (dq_contents q)" "m_connected q' = m_connected q"
      by metis
    have "linked ends qs (st\<lparr>queues := (queues st)(qs e \<mapsto> q')\<rparr>) (ch\<lparr>coming := (coming ch)(e := drop n (coming ch e))\<rparr>)"
      using q q' by (intro linked_queue [OF assms(1)]) simp_all
    with False assms(2) q'(1) q(4) show ?thesis unfolding call by (simp add: min.commute)
  qed
qed

lemma write_linked:
  assumes "linked ends qs st ch" and "present ch e"
  shows "case channel_does ch (Call_write e bs) of
      Inl f \<Rightarrow> lines_call ends st (Call_write e bs) = Inl f
    | Inr (ch', r) \<Rightarrow> \<exists>st'. lines_call ends st (Call_write e bs) = Inr (st', r) \<and> linked ends qs st' ch'"
proof -
  obtain x where x: "lines st (ends e) = Some x" "m_out x = Some (qs (other e))" using linked_line(2) [OF assms] by blast
  obtain q where q: "queues st (qs (other e)) = Some q" "dq_inv q" "dq_capacity q = inproc_buffer_size - 1"
    "dq_contents q = coming ch (other e)" "m_connected q = (present ch (other e) \<and> present ch (other (other e)))"
    using linkedD [OF assms(1)] .
  let ?room = "inproc_buffer_size - 1 - length (coming ch (other e))"
  have size: "Suc (inproc_buffer_size - Suc 0) = inproc_buffer_size" by (simp add: inproc_buffer_size_def)
  note call = InprocLine_write_def deref_def deref_shared_def x q(1) queue_writes [OF q(2)] q(3,4) size q(5)
  show ?thesis
  proof (cases "inproc_buffer_size \<le> length bs \<or> ?room = 0")
    case True
    with assms linked_same [OF assms(1) q(1)] show ?thesis by (auto simp: call Let_def)
  next
    case False
    from finish_write_appends [OF q(2), of bs "[]"] obtain q' where q':
      "DataQueue_finish_write q bs [] = Inr (q', int (min (length bs) ?room), [])" "dq_inv q'" "dq_capacity q' = dq_capacity q"
      "m_connected q' = m_connected q" "dq_contents q' = coming ch (other e) @ take ?room bs"
      using q(3,4) by metis
    have "linked ends qs (st\<lparr>queues := (queues st)(qs (other e) \<mapsto> q')\<rparr>)
        (ch\<lparr>coming := (coming ch)(other e := coming ch (other e) @ take ?room bs)\<rparr>)"
      using q q' by (intro linked_queue [OF assms(1)]) simp_all
    with False assms(2) q'(1) show ?thesis by (simp add: call Let_def)
  qed
qed

lemma setOption_linked:
  assumes "linked ends qs st ch" and "present ch e"
  shows "case channel_does ch (Call_setOption e option v) of
      Inl f \<Rightarrow> lines_call ends st (Call_setOption e option v) = Inl f
    | Inr (ch', r) \<Rightarrow> \<exists>st'. lines_call ends st (Call_setOption e option v) = Inr (st', r) \<and> linked ends qs st' ch'"
proof -
  obtain x where x: "lines st (ends e) = Some x" "m_in x = Some (qs e)" "m_out x = Some (qs (other e))"
    using linked_line(2) [OF assms] by blast
  let ?st = "st\<lparr>lines := (lines st)(ends e \<mapsto> x\<lparr>m_readTimeout := to_int32 (uint v)\<rparr>)\<rparr>"
  let ?ch = "ch\<lparr>patience := (patience ch)(e := to_int32 (uint v))\<rparr>"
  have "ends (other e) \<noteq> ends e" "line_linked ends qs st ch (other e)"
    using assms(1) side_distinct [of ends e] by (simp_all add: linked_def)
  then have "line_linked ends qs ?st ?ch d" for d
    using assms(2) x side_eq [of d e] by (auto simp: line_linked_def)
  then have "linked ends qs ?st ?ch" using assms(1) by (simp add: linked_def queue_linked_def)
  with assms(2) x show ?thesis by (cases option) (auto simp: InprocLine_setOption_def deref_def)
qed

lemma destroy_linked:
  assumes "linked ends qs st ch" and "present ch e"
  shows "\<exists>st'. lines_call ends st (Call_destroy e) = Inr (st', Done) \<and>
    linked ends qs st' (ch\<lparr>present := (present ch)(e := False)\<rparr>)"
proof -
  obtain x where x: "lines st (ends e) = Some x" "m_in x = Some (qs e)" "m_out x = Some (qs (other e))"
    using linked_line(2) [OF assms] by blast
  obtain q where q: "queues st (qs e) = Some q" using linkedD [OF assms(1)] .
  obtain p where p: "queues st (qs (other e)) = Some p" using linkedD [OF assms(1)] .
  let ?ch = "ch\<lparr>present := (present ch)(e := False)\<rparr>"
  let ?st = "st\<lparr>queues := (queues st)(qs (other e) \<mapsto> DataQueue_setConnectionFlag p False, qs e \<mapsto> DataQueue_setConnectionFlag q False),
    lines := (lines st)(ends e := None)\<rparr>"
  have inj: "inj ends" "inj qs" and at: "queue_linked qs st ch e" "queue_linked qs st ch (other e)" "line_linked ends qs st ch (other e)"
    using assms(1) by (simp_all add: linked_def)
  have "InprocLine_destroy st (ends e) = Inr ?st"
    using x p q side_distinct [OF inj(2), of e]
    by (simp add: InprocLine_destroy_def deref_def set_flag_def deref_shared_def)
  moreover have "queue_linked qs ?st ?ch d" for d
    using side_eq [of d e] at(1,2) p q side_distinct [OF inj(2), of e] by (auto simp: queue_linked_def)
  moreover have "line_linked ends qs ?st ?ch d" for d
    using side_eq [of d e] at(3) side_distinct [OF inj(1), of e] by (auto simp: line_linked_def)
  ultimately show ?thesis using inj by (simp add: linked_def)
qed

lemma absent_linked:
  assumes "linked ends qs st ch" and "\<not> present ch e"
    and "c = Call_read e n \<or> c = Call_write e bs \<or> c = Call_setOption e option v \<or> c = Call_destroy e"
  shows "channel_does ch c = Inl (Undefined DanglingPointer)" and "lines_call ends st c = Inl (Undefined DanglingPointer)"
  using assms(2,3) linked_line(1) [OF assms(1,2)]
  by (auto simp: InprocLine_read_def InprocLine_write_def InprocLine_setOption_def InprocLine_destroy_def)

lemma call_linked:
  assumes "linked ends qs st ch"
  shows "case channel_does ch c of
      Inl f \<Rightarrow> lines_call ends st c = Inl f
    | Inr (ch', r) \<Rightarrow> \<exists>st'. lines_call ends st c = Inr (st', r) \<and> linked ends qs st' ch'"
proof -
  obtain e n bs option v where c: "c = Call_read e n \<or> c = Call_write e bs \<or> c = Call_setOption e option v \<or> c = Call_destroy e"
    by (cases c) blast+
  show ?thesis
  proof (cases "present ch e")
    case False
    with absent_linked [OF assms False c] show ?thesis by simp
  next
    case True
    have "case channel_does ch (Call_destroy e) of
        Inl f \<Rightarrow> lines_call ends st (Call_destroy e) = Inl f
      | Inr (ch', r) \<Rightarrow> \<exists>st'. lines_call ends st (Call_destroy e) = Inr (st', r) \<and> linked ends qs st' ch'"
      using destroy_linked [OF assms True] True by simp
    with c read_linked [OF assms True] write_linked [OF assms True] setOption_linked [OF assms True] show ?thesis
      by (elim disjE) (simp_all only:)
  qed
qed

interpretation pair: implements "lines_call ends" channel_does "linked ends qs" for ends qs
proof unfold_locales
  fix st ch c and f :: failure and ch' r
  assume l: "linked ends qs st ch"
  show "channel_does ch c = Inl f \<Longrightarrow> lines_call ends st c = Inl f" using call_linked [OF l, of c] by simp
  show "channel_does ch c = Inr (ch', r) \<Longrightarrow> \<exists>st'. lines_call ends st c = Inr (st', r) \<and> linked ends qs st' ch'"
    using call_linked [OF l, of c] by simp
qed

section \<open>Properties\<close>

text \<open>The channel between two lines with the bytes in their queues and their receive timeouts.\<close>

definition channel_of :: "inproc \<Rightarrow> (side \<Rightarrow> nat) \<Rightarrow> channel" where
  "channel_of st ends = \<lparr>coming = (\<lambda>e. inbox (ends e) st), present = (\<lambda>_. True),
     patience = (\<lambda>e. case lines st (ends e) of None \<Rightarrow> 0 | Some x \<Rightarrow> m_readTimeout x)\<rparr>"

lemma peers_linked:
  assumes "inproc_inv st" and "peers st (ends Client_side) (ends Server_side)"
    and "\<And>e. peer_there (ends e) st"
  shows "\<exists>qs. linked ends qs st (channel_of st ends)"
proof -
  obtain x y i j where p: "lines st (ends Client_side) = Some x" "lines st (ends Server_side) = Some y"
    "m_in x = Some i" "m_out x = Some j" "m_in y = Some j" "m_out y = Some i"
    using assms(2) unfolding peers_def by blast
  obtain qi qj where q: "i \<noteq> j" "queues st i = Some qi" "dq_inv qi" "dq_capacity qi = inproc_buffer_size - 1"
    "queues st j = Some qj" "dq_inv qj" "dq_capacity qj = inproc_buffer_size - 1"
    using line_queues [OF assms(1) p(1)] p(3,4) by auto
  have up: "m_connected qi" "m_connected qj"
    using assms(3) [of Client_side] assms(3) [of Server_side] p q by (simp_all add: peer_there_def in_queue_def)
  let ?qs = "\<lambda>e. case e of Client_side \<Rightarrow> i | Server_side \<Rightarrow> j"
  have "ends Client_side \<noteq> ends Server_side" using p q(1) by auto
  then have "d = e" if "ends d = ends e" for d e using that by (cases d; cases e) auto
  then have "inj ends" by (rule injI)
  moreover have "inj ?qs" using q(1) by (auto intro!: injI split: side.splits)
  moreover have "queue_linked ?qs st (channel_of st ends) e \<and> line_linked ends ?qs st (channel_of st ends) e" for e
    using p q up by (cases e) (simp_all add: queue_linked_def line_linked_def channel_of_def inbox_def in_queue_def)
  ultimately show ?thesis unfolding linked_def by blast
qed

text \<open>
  C2 (lines_are_channel): the contract of a connection. Two connected lines of a reachable registry answer every
  sequence of reads, writes, options and destructions that their two users make, one call after the other, as a channel does: bytes arrive
  once, in order and at the other end; a write takes what there is room for and refuses what can never fit;
  after one end is gone the other still gets the bytes that were sent to it, then learns that the connection is lost, and writes until the
  queue is full; an empty channel makes a reader wait, for at most its timeout if it has one; a destroyed line is not used again.
\<close>
theorem lines_are_channel:
  assumes "inproc_reachable st" and "peers st (ends Client_side) (ends Server_side)" and "\<And>e. peer_there (ends e) st"
  shows "answers (lines_call ends) st calls = answers channel_does (channel_of st ends) calls"
proof -
  from peers_linked [OF reachable_inv [OF assms(1)] assms(2,3)] obtain qs where "linked ends qs st (channel_of st ends)" by blast
  then show ?thesis by (rule pair.same_answers)
qed

theorem lines_are_channel_witness:
  "answers (lines_call (\<lambda>e. case e of Client_side \<Rightarrow> 1 | Server_side \<Rightarrow> 4)) connected
     [Call_write Client_side [7, 8, 9], Call_read Server_side 2, Call_destroy Client_side, Call_read Server_side 8,
      Call_read Server_side 8, Call_setOption Server_side SendTimeout 5] =
   [Inr (Was_written 3), Inr (Was_read [7, 8] 2), Inr Done, Inr (Was_read [9] 1), Inr (Was_read [] eConnectionLost),
    Inl (Throw (UnsupportedOption ''''))]"
proof -
  let ?ends = "\<lambda>e. case e of Client_side \<Rightarrow> 1 | Server_side \<Rightarrow> (4 :: nat)"
  have "peers connected (?ends Client_side) (?ends Server_side)" using connected_lines(5) by simp
  moreover have "peer_there (?ends e) connected" for e
    by (cases e) (simp_all add: peer_there_def in_queue_def connected_lines [unfolded One_nat_def] fresh_queue_def)
  moreover have "inbox (?ends e) connected = []" for e
    by (cases e) (simp_all add: inbox_def in_queue_def connected_lines [unfolded One_nat_def] fresh_queue_def)
  then have "channel_of connected ?ends = \<lparr>coming = (\<lambda>_. []), present = (\<lambda>_. True), patience = (\<lambda>_. 0)\<rparr>"
    by (auto simp: channel_of_def connected_lines [unfolded One_nat_def] split: side.split)
  ultimately have same: "answers (lines_call ?ends) connected calls =
      answers channel_does \<lparr>coming = (\<lambda>_. []), present = (\<lambda>_. True), patience = (\<lambda>_. 0)\<rparr> calls" for calls
    using lines_are_channel [OF connected_reachable, of ?ends] by (simp only:)
  show ?thesis unfolding same by (simp add: inproc_buffer_size_def Let_def)
qed

end
