(* ===== verification/LineManager.thy ===== *)
theory LineManager
  imports Cppio_Prelude
begin

text \<open>
  The class \<^verbatim>\<open>IoLineManager\<close> of src/iolinemanager.cpp, which splits an address of the form
  \<^verbatim>\<open>scheme://base\<close> and passes the rest on to the first registered factory that supports the
  scheme, and the interface \<^verbatim>\<open>IoLineFactory\<close> of include/cppio/ioline.h.

  A factory is an object with virtual functions: a record of functions on the state of the
  program, of type \<open>'s\<close>; \<open>'l\<close> and \<open>'a\<close> are the pointers to lines and acceptors it returns, \<open>None\<close>
  the null pointer. A factory function that throws may have changed the state before.
\<close>

record ('s, 'l, 'a) IoLineFactory =
  supportsScheme :: "string \<Rightarrow> bool"
  factory_createClient :: "'s \<Rightarrow> string \<Rightarrow> 's \<times> (failure + 'l option)"
  factory_createServer :: "'s \<Rightarrow> string \<Rightarrow> 's \<times> (failure + 'a option)"

record ('s, 'l, 'a) IoLineManager =
  factories :: "('s, 'l, 'a) IoLineFactory list"

definition IoLineManager_new :: "('s, 'l, 'a) IoLineManager" where
  "IoLineManager_new = \<lparr>factories = []\<rparr>"

definition IoLineManager_registerFactory ::
    "('s, 'l, 'a) IoLineManager \<Rightarrow> ('s, 'l, 'a) IoLineFactory \<Rightarrow> ('s, 'l, 'a) IoLineManager" where
  "IoLineManager_registerFactory m f = m\<lparr>factories := factories m @ [f]\<rparr>"

section \<open>Strings\<close>

text \<open>\<^verbatim>\<open>find_first_of(chars)\<close>: the position of the first character that is one of \<open>chars\<close>.\<close>

fun find_first_of :: "string \<Rightarrow> string \<Rightarrow> nat option" where
  "find_first_of [] chars = None"
| "find_first_of (c # cs) chars =
     (if c \<in> set chars then Some 0 else map_option Suc (find_first_of cs chars))"

text \<open>\<^verbatim>\<open>substr(pos)\<close> throws when the position is behind the end; \<^verbatim>\<open>substr(0, n)\<close> never throws.\<close>

definition substr_from :: "string \<Rightarrow> nat \<Rightarrow> failure + string" where
  "substr_from s pos = (if pos \<le> length s then Inr (drop pos s) else Inl (Throw out_of_range))"

section \<open>createClient and createServer\<close>

text \<open>The handler \<^verbatim>\<open>catch(const IoException&) { return nullptr; }\<close>.\<close>

definition null_on_IoException :: "'s \<times> (failure + 'p option) \<Rightarrow> 's \<times> (failure + 'p option)" where
  "null_on_IoException r =
     (case r of (s, Inl (Throw e)) \<Rightarrow> if is_IoException e then (s, Inr None) else r | _ \<Rightarrow> r)"

text \<open>The loop over the factories, for \<^verbatim>\<open>createClient\<close> and \<^verbatim>\<open>createServer\<close>; \<open>create\<close> is the function called.\<close>

fun dispatch ::
    "(('s, 'l, 'a) IoLineFactory \<Rightarrow> 's \<Rightarrow> string \<Rightarrow> 's \<times> (failure + 'p option)) \<Rightarrow>
     ('s, 'l, 'a) IoLineFactory list \<Rightarrow> 's \<Rightarrow> string \<Rightarrow> nat \<Rightarrow> 's \<times> (failure + 'p option)" where
  "dispatch create [] s address delimiter = (s, Inr None)"
| "dispatch create (f # fs) s address delimiter =
     (if supportsScheme f (take delimiter address) then
        null_on_IoException
          (case substr_from address (delimiter + 3) of
             Inl e \<Rightarrow> (s, Inl e)
           | Inr baseAddress \<Rightarrow> create f s baseAddress)
      else dispatch create fs s address delimiter)"

definition IoLineManager_createClient ::
    "('s, 'l, 'a) IoLineManager \<Rightarrow> 's \<Rightarrow> string \<Rightarrow> 's \<times> (failure + 'l option)" where
  "IoLineManager_createClient m s address =
     (case find_first_of address ''://'' of
        None \<Rightarrow> (s, Inr None)
      | Some delimiter \<Rightarrow> dispatch factory_createClient (factories m) s address delimiter)"

definition IoLineManager_createServer ::
    "('s, 'l, 'a) IoLineManager \<Rightarrow> 's \<Rightarrow> string \<Rightarrow> 's \<times> (failure + 'a option)" where
  "IoLineManager_createServer m s address =
     (case find_first_of address ''://'' of
        None \<Rightarrow> (s, Inr None)
      | Some delimiter \<Rightarrow> dispatch factory_createServer (factories m) s address delimiter)"

section \<open>Lemmas\<close>

definition plain :: "string \<Rightarrow> bool" where
  "plain scheme \<longleftrightarrow> CHR '':'' \<notin> set scheme \<and> CHR ''/'' \<notin> set scheme"

lemma find_first_of_plain:
  "plain scheme \<Longrightarrow> c = CHR '':'' \<or> c = CHR ''/'' \<Longrightarrow> find_first_of (scheme @ c # rest) ''://'' = Some (length scheme)"
  by (induction scheme) (auto simp: plain_def)

lemma find_first_of_None: "find_first_of address ''://'' = None \<longleftrightarrow> plain address"
  by (induction address) (auto simp: plain_def)

lemma find_first_of_Some:
  "find_first_of address ''://'' = Some d \<Longrightarrow>
   \<exists>c rest. address = take d address @ c # rest \<and> d < length address \<and> plain (take d address) \<and>
            (c = CHR '':'' \<or> c = CHR ''/'')"
  by (induction address arbitrary: d) (auto simp: plain_def split: if_splits)

lemma dispatch_find:
  "dispatch create fs s address delimiter =
     (case find (\<lambda>f. supportsScheme f (take delimiter address)) fs of
        None \<Rightarrow> (s, Inr None)
      | Some f \<Rightarrow> null_on_IoException
          (case substr_from address (delimiter + 3) of Inl e \<Rightarrow> (s, Inl e) | Inr b \<Rightarrow> create f s b))"
  by (induction fs) simp_all

lemma null_on_IoException_simps [simp]:
  "null_on_IoException (s, Inr p) = (s, Inr p)"
  "is_IoException e \<Longrightarrow> null_on_IoException (s, Inl (Throw e)) = (s, Inr None)"
  "\<not> is_IoException e \<Longrightarrow> null_on_IoException (s, Inl (Throw e)) = (s, Inl (Throw e))"
  by (simp_all add: null_on_IoException_def)

lemma substr_from_base: "length skipped = 2 \<Longrightarrow> substr_from (scheme @ c # skipped @ base) (length scheme + 3) = Inr base"
  by (simp add: substr_from_def)

text \<open>A factory for the examples below; its lines are the addresses, its state counts the calls.\<close>

definition echo_factory :: "string \<Rightarrow> (nat, string, nat) IoLineFactory" where
  "echo_factory scheme = \<lparr>supportsScheme = (=) scheme,
     factory_createClient = (\<lambda>s a. (Suc s, Inr (Some a))), factory_createServer = (\<lambda>s a. (s, Inr None))\<rparr>"

section \<open>Properties\<close>

text \<open>
  C32 (manager_dispatch): for an address \<^verbatim>\<open>scheme://base\<close> whose scheme contains neither a colon nor a slash, both
  functions call exactly the first registered factory that supports the scheme, with exactly
  the base address, and return what it returns, a null pointer in place of an
  \<^verbatim>\<open>IoException\<close>; with no such factory they return a null pointer and change nothing. Registering
  a factory leaves the ones before it in charge of their schemes.
\<close>
theorem manager_dispatch:
  assumes "plain scheme"
  shows "IoLineManager_createClient m s (scheme @ ''://'' @ base) =
      (case find (\<lambda>f. supportsScheme f scheme) (factories m) of
         None \<Rightarrow> (s, Inr None) | Some f \<Rightarrow> null_on_IoException (factory_createClient f s base)) \<and>
    IoLineManager_createServer m s (scheme @ ''://'' @ base) =
      (case find (\<lambda>f. supportsScheme f scheme) (factories m) of
         None \<Rightarrow> (s, Inr None) | Some f \<Rightarrow> null_on_IoException (factory_createServer f s base)) \<and>
    (find (\<lambda>f. supportsScheme f scheme) (factories m) = Some f \<longrightarrow>
       find (\<lambda>f. supportsScheme f scheme) (factories (IoLineManager_registerFactory m g)) = Some f)"
proof -
  have "find p (xs @ [y]) = Some x" if "find p xs = Some x" for p xs and x y :: "('a, 'b, 'c) IoLineFactory"
    using that by (induction xs) (auto split: if_splits)
  then show ?thesis
    using find_first_of_plain [OF assms, of "CHR '':''" "''//'' @ base"]
    by (auto simp: IoLineManager_createClient_def IoLineManager_createServer_def dispatch_find substr_from_def
        IoLineManager_registerFactory_def split: option.splits)
qed

theorem manager_dispatch_witness:
  "IoLineManager_createClient \<lparr>factories = [echo_factory ''tcp'', echo_factory ''inproc'']\<rparr> 0 ''inproc://foo'' =
     (1, Inr (Some ''foo''))"
  using manager_dispatch [of "''inproc''" "\<lparr>factories = [echo_factory ''tcp'', echo_factory ''inproc'']\<rparr>" 0 "''foo''"]
  by (simp add: plain_def echo_factory_def)

text \<open>
  The separator is searched with \<^verbatim>\<open>find_first_of\<close>, which looks for one of its
  characters. Every other address behaves as follows: without a colon and a slash the
  result is a null pointer; otherwise the text before the first of them is the scheme, the two
  characters behind it are skipped whatever they are, and when the address ends inside the
  separator and the scheme is supported, \<^verbatim>\<open>std::out_of_range\<close> leaves the function, since it is not an
  \<^verbatim>\<open>IoException\<close>.
\<close>
lemma manager_lax_separator:
  shows "(plain address \<longrightarrow> IoLineManager_createClient m s address = (s, Inr None)) \<and>
    (plain scheme \<longrightarrow> c \<in> {CHR '':'', CHR ''/''} \<longrightarrow> length skipped = 2 \<longrightarrow>
       IoLineManager_createClient m s (scheme @ c # skipped @ base) =
       IoLineManager_createClient m s (scheme @ ''://'' @ base)) \<and>
    (plain scheme \<longrightarrow> c \<in> {CHR '':'', CHR ''/''} \<longrightarrow> length short < 2 \<longrightarrow>
       (\<exists>f \<in> set (factories m). supportsScheme f scheme) \<longrightarrow>
       IoLineManager_createClient m s (scheme @ c # short) = (s, Inl (Throw out_of_range)))"
proof (intro conjI impI)
  assume "plain scheme" "c \<in> {CHR '':'', CHR ''/''}" "length skipped = 2"
  then show "IoLineManager_createClient m s (scheme @ c # skipped @ base) =
       IoLineManager_createClient m s (scheme @ ''://'' @ base)"
    using find_first_of_plain [of scheme c "skipped @ base"] find_first_of_plain [of scheme "CHR '':''" "''//'' @ base"]
      substr_from_base [of skipped scheme c base] substr_from_base [of "''//''" scheme "CHR '':''" base]
    by (auto simp: IoLineManager_createClient_def dispatch_find split: option.splits)
next
  assume *: "plain scheme" "c \<in> {CHR '':'', CHR ''/''}" "length short < 2"
    "\<exists>f \<in> set (factories m). supportsScheme f scheme"
  then obtain f where "find (\<lambda>f. supportsScheme f scheme) (factories m) = Some f"
    by (metis find_None_iff option.exhaust)
  with * show "IoLineManager_createClient m s (scheme @ c # short) = (s, Inl (Throw out_of_range))"
    using find_first_of_plain [of scheme c short]
    by (simp add: IoLineManager_createClient_def dispatch_find substr_from_def)
qed (simp add: IoLineManager_createClient_def find_first_of_None [symmetric])

end
