(* ===== verification/PosixSocket.thy ===== *)
theory PosixSocket
  imports MessageProtocol
begin

text \<open>
  The socket lines of src/posix/io_socket.cpp: \<^verbatim>\<open>UnixSocket\<close>, \<^verbatim>\<open>TcpSocket\<close>, their acceptors
  and factories. They are thin layers over system calls, and the operating system is not part of
  the sources: it is a parameter, a record of functions on the state of the kernel, and what a
  theorem needs of it is a hypothesis.
\<close>

section \<open>The operating system\<close>

datatype errno = ECONNRESET | ENOTCONN | EAGAIN | ETIMEDOUT | OtherErrno int

record timeval =
  tv_sec :: int
  tv_usec :: int

datatype sock_domain = AF_UNIX | AF_INET

text \<open>
  A socket address as it is passed to the kernel: the bytes of \<^verbatim>\<open>sa_data\<close> with the length given
  to the call, or the network address and the two bytes of \<^verbatim>\<open>sin_port\<close> as they are in memory.
\<close>

datatype sockaddr = Sockaddr_un string nat | Sockaddr_in "32 word" "int list"

datatype sockopt = SO_RCVTIMEO timeval | SO_SNDTIMEO timeval | SO_REUSEADDR int

record 'k kernel =
  sys_socket :: "'k \<Rightarrow> sock_domain \<Rightarrow> 'k \<times> int"
  sys_close :: "'k \<Rightarrow> int \<Rightarrow> 'k"
  sys_unlink :: "'k \<Rightarrow> string \<Rightarrow> 'k"
  sys_connect :: "'k \<Rightarrow> int \<Rightarrow> sockaddr \<Rightarrow> 'k \<times> int"
  sys_bind :: "'k \<Rightarrow> int \<Rightarrow> sockaddr \<Rightarrow> 'k \<times> int"
  sys_listen :: "'k \<Rightarrow> int \<Rightarrow> int \<Rightarrow> 'k \<times> int"
  sys_accept :: "'k \<Rightarrow> int \<Rightarrow> 'k \<times> int"
  sys_read :: "'k \<Rightarrow> int \<Rightarrow> nat \<Rightarrow> 'k \<times> byte list \<times> int"
  sys_write :: "'k \<Rightarrow> int \<Rightarrow> byte list \<Rightarrow> 'k \<times> int"
  sys_setsockopt :: "'k \<Rightarrow> int \<Rightarrow> sockopt \<Rightarrow> 'k \<times> int"
  sys_errno :: "'k \<Rightarrow> errno"
  errno_number :: "errno \<Rightarrow> int"
  inet_addr :: "string \<Rightarrow> 32 word"

section \<open>The C library\<close>

text \<open>\<^verbatim>\<open>c_str()\<close> as the C functions see it: up to the first NUL.\<close>

definition c_str :: "string \<Rightarrow> string" where
  "c_str s = takeWhile (\<lambda>c. c \<noteq> CHR 0x00) s"

definition strncpy :: "string \<Rightarrow> nat \<Rightarrow> string" where
  "strncpy src n = take n src @ replicate (n - length src) (CHR 0x00)"

definition strlen :: "string \<Rightarrow> failure + nat" where
  "strlen mem = (if CHR 0x00 \<in> set mem then Inr (length (c_str mem)) else Inl (Undefined UnterminatedString))"

definition digit_value :: "char \<Rightarrow> nat" where
  "digit_value c = of_char c - 48"

definition is_digit :: "char \<Rightarrow> bool" where
  "is_digit c \<longleftrightarrow> 48 \<le> (of_char c :: nat) \<and> (of_char c :: nat) \<le> 57"

definition is_space :: "char \<Rightarrow> bool" where
  "is_space c \<longleftrightarrow> (of_char c :: nat) = 32 \<or> 9 \<le> (of_char c :: nat) \<and> (of_char c :: nat) \<le> 13"

fun digits_value :: "nat \<Rightarrow> string \<Rightarrow> nat" where
  "digits_value acc [] = acc"
| "digits_value acc (c # cs) = (if is_digit c then digits_value (acc * 10 + digit_value c) cs else acc)"

definition atoi :: "string \<Rightarrow> failure + int" where
  "atoi s =
     (let t = dropWhile is_space s;
          (sign, ds) = (case t of c # cs \<Rightarrow> if c = CHR ''-'' then (- 1, cs)
                                           else if c = CHR ''+'' then (1, cs) else (1, t)
                        | [] \<Rightarrow> (1, []));
          v = sign * int (digits_value 0 ds)
      in if - (2 ^ 31) \<le> v \<and> v < 2 ^ 31 then Inr v else Inl (Undefined IntegerOverflow))"

text \<open>\<^verbatim>\<open>std::to_string\<close> of an integer.\<close>

fun nat_to_string :: "nat \<Rightarrow> string" where
  "nat_to_string n = (if n < 10 then [char_of (48 + n)] else nat_to_string (n div 10) @ [char_of (48 + n mod 10)])"

declare nat_to_string.simps [simp del]

definition to_string :: "int \<Rightarrow> string" where
  "to_string i = (if i < 0 then CHR ''-'' # nat_to_string (nat (- i)) else nat_to_string (nat i))"

text \<open>Integer division of C truncates towards 0. \<^verbatim>\<open>htons\<close>: the number modulo \<open>2 ^ 16\<close>, high byte first.\<close>

definition c_div :: "int \<Rightarrow> int \<Rightarrow> int" where
  "c_div a b = sgn a * sgn b * (\<bar>a\<bar> div \<bar>b\<bar>)"

definition htons :: "int \<Rightarrow> int list" where
  "htons port = (let p = port mod 2 ^ 16 in [p div 256, p mod 256])"

section \<open>What the two kinds of sockets share\<close>

text \<open>All four classes have the same two members.\<close>

record posix_socket =
  m_address :: string
  m_socket :: int

text \<open>The classes \<^verbatim>\<open>UnixSocketAcceptor\<close>, \<^verbatim>\<open>TcpSocket\<close> and \<^verbatim>\<open>TcpSocketAcceptor\<close> have the same two members.\<close>

type_synonym unix_acceptor = posix_socket
type_synonym tcp_socket = posix_socket
type_synonym tcp_acceptor = posix_socket

text \<open>The two bodies of \<^verbatim>\<open>read\<close> are the same; the mapping of the result of the system call.\<close>

definition read_code :: "int \<Rightarrow> errno \<Rightarrow> int" where
  "read_code rc e =
     (if rc < 0 then
        (if e = ECONNRESET \<or> e = ENOTCONN then eConnectionLost
         else if e = EAGAIN then eTimeout else eUnknown)
      else if rc = 0 then (if e \<noteq> ETIMEDOUT then eConnectionLost else eTimeout)
      else rc)"

definition timeval_of :: "int \<Rightarrow> timeval" where
  "timeval_of msecs =
     (let secs = c_div msecs 1000; restMsecs = msecs - secs * 1000
      in \<lparr>tv_sec = secs, tv_usec = restMsecs * 1000\<rparr>)"

section \<open>UnixSocket\<close>

type_synonym ('k, 'r) call = "'k \<times> (failure + 'r)"

definition UnixSocket_new :: "'k kernel \<Rightarrow> 'k \<Rightarrow> string \<Rightarrow> ('k, posix_socket) call" where
  "UnixSocket_new os k address =
     (let (k1, fd) = sys_socket os k AF_UNIX
      in if fd < 0 then (k1, Inl (Throw (IoException (''Unable to create socket: '' @ to_string fd))))
         else (k1, Inr \<lparr>m_address = address, m_socket = fd\<rparr>))"

definition UnixSocket_destroy :: "'k kernel \<Rightarrow> 'k \<Rightarrow> posix_socket \<Rightarrow> 'k" where
  "UnixSocket_destroy os k s = sys_unlink os (sys_close os k (m_socket s)) (c_str (m_address s))"

text \<open>The size of \<^verbatim>\<open>sa_data\<close> is 14, that of \<^verbatim>\<open>sa_family\<close> is 2.\<close>

definition unix_name :: "string \<Rightarrow> failure + sockaddr" where
  "unix_name address =
     (let sa_data = strncpy (c_str address) 14
      in bind_res (strlen sa_data) (\<lambda>n. Inr (Sockaddr_un sa_data (n + 2))))"

definition UnixSocket_connect :: "'k kernel \<Rightarrow> 'k \<Rightarrow> posix_socket \<Rightarrow> ('k, unit) call" where
  "UnixSocket_connect os k s =
     (case unix_name (m_address s) of
        Inl e \<Rightarrow> (k, Inl e)
      | Inr serverName \<Rightarrow>
          let (k1, rc) = sys_connect os k (m_socket s) serverName
          in if rc < 0 then (k1, Inl (Throw (IoException (''Unable to connect to socket: '' @ to_string rc @ ''/'' @
                               to_string (errno_number os (sys_errno os k1))))))
             else (k1, Inr ()))"

definition UnixSocket_read :: "'k kernel \<Rightarrow> posix_socket \<Rightarrow> 'k line_read" where
  "UnixSocket_read os s k buflen =
     (let (k1, out, rc) = sys_read os k (m_socket s) buflen
      in Inr (k1, out, read_code rc (sys_errno os k1)))"

definition UnixSocket_write :: "'k kernel \<Rightarrow> posix_socket \<Rightarrow> 'k line_write" where
  "UnixSocket_write os s k buffer =
     (let (k1, rc) = sys_write os k (m_socket s) buffer
      in Inr (k1, if rc \<le> 0 then
                    (if sys_errno os k1 = ECONNRESET \<or> sys_errno os k1 = ENOTCONN then eConnectionLost else eUnknown)
                  else rc))"

definition UnixSocket_setOption :: "'k kernel \<Rightarrow> 'k \<Rightarrow> posix_socket \<Rightarrow> LineOption \<Rightarrow> int \<Rightarrow> failure + 'k" where
  "UnixSocket_setOption os k s option msecs =
     (case option of
        ReceiveTimeout \<Rightarrow> Inr (fst (sys_setsockopt os k (m_socket s) (SO_RCVTIMEO (timeval_of msecs))))
      | SendTimeout \<Rightarrow> Inr (fst (sys_setsockopt os k (m_socket s) (SO_SNDTIMEO (timeval_of msecs))))
      | OtherOption _ \<Rightarrow> Inl (Throw (UnsupportedOption '''')))"

definition UnixSocketAcceptor_new :: "'k kernel \<Rightarrow> 'k \<Rightarrow> string \<Rightarrow> ('k, unix_acceptor) call" where
  "UnixSocketAcceptor_new os k address =
     (let (k1, fd) = sys_socket os k AF_UNIX
      in if fd < 0 then (k1, Inl (Throw (IoException (''Unable to create socket: '' @ to_string fd))))
         else case unix_name address of
           Inl e \<Rightarrow> (k1, Inl e)
         | Inr serverName \<Rightarrow>
             let (k2, rc) = sys_bind os k1 fd serverName
             in if rc < 0 then (k2, Inl (Throw (IoException (''Unable to bind socket: '' @ to_string rc))))
                else let (k3, rc') = sys_listen os k2 fd 10
                     in if rc' < 0 then (sys_unlink os (sys_close os k3 fd) (c_str address),
                                         Inl (Throw (IoException (''Unable to listen socket: '' @ to_string rc'))))
                        else (k3, Inr \<lparr>m_address = address, m_socket = fd\<rparr>))"

definition UnixSocketAcceptor_destroy :: "'k kernel \<Rightarrow> 'k \<Rightarrow> unix_acceptor \<Rightarrow> 'k" where
  "UnixSocketAcceptor_destroy os k a = sys_unlink os (sys_close os k (m_socket a)) (c_str (m_address a))"

text \<open>The constructor for a descriptor that \<^verbatim>\<open>accept\<close> returned.\<close>

definition UnixSocket_accepted :: "int \<Rightarrow> string \<Rightarrow> posix_socket" where
  "UnixSocket_accepted fd address = \<lparr>m_address = address, m_socket = fd\<rparr>"

text \<open>The timeout is not used.\<close>

definition UnixSocketAcceptor_waitConnection ::
    "'k kernel \<Rightarrow> 'k \<Rightarrow> unix_acceptor \<Rightarrow> int \<Rightarrow> 'k \<times> posix_socket option" where
  "UnixSocketAcceptor_waitConnection os k a timeoutInMs =
     (let (k1, newsock) = sys_accept os k (m_socket a)
      in if newsock > 0 then (k1, Some (UnixSocket_accepted newsock [])) else (k1, None))"

definition UnixSocketFactory_supportsScheme :: "string \<Rightarrow> bool" where
  "UnixSocketFactory_supportsScheme scheme \<longleftrightarrow> scheme = ''local''"

text \<open>When \<^verbatim>\<open>connect\<close> throws, the object created before is not deleted.\<close>

definition UnixSocketFactory_createClient :: "'k kernel \<Rightarrow> 'k \<Rightarrow> string \<Rightarrow> ('k, posix_socket option) call" where
  "UnixSocketFactory_createClient os k address =
     (case UnixSocket_new os k address of
        (k1, Inl e) \<Rightarrow> (k1, Inl e)
      | (k1, Inr s) \<Rightarrow>
          (case UnixSocket_connect os k1 s of
             (k2, Inl e) \<Rightarrow> (k2, Inl e)
           | (k2, Inr _) \<Rightarrow> (k2, Inr (Some s))))"

definition UnixSocketFactory_createServer :: "'k kernel \<Rightarrow> 'k \<Rightarrow> string \<Rightarrow> ('k, unix_acceptor option) call" where
  "UnixSocketFactory_createServer os k address =
     (case UnixSocketAcceptor_new os k address of (k1, Inl e) \<Rightarrow> (k1, Inl e) | (k1, Inr a) \<Rightarrow> (k1, Inr (Some a)))"

section \<open>TcpSocket\<close>

definition TcpSocket_new :: "'k kernel \<Rightarrow> 'k \<Rightarrow> string \<Rightarrow> ('k, tcp_socket) call" where
  "TcpSocket_new os k address =
     (let (k1, fd) = sys_socket os k AF_INET
      in if fd < 0 then (k1, Inl (Throw (IoException (''Unable to create socket: '' @ to_string fd))))
         else (k1, Inr \<lparr>m_address = address, m_socket = fd\<rparr>))"

definition TcpSocket_destroy :: "'k kernel \<Rightarrow> 'k \<Rightarrow> tcp_socket \<Rightarrow> 'k" where
  "TcpSocket_destroy os k s = sys_close os k (m_socket s)"

text \<open>
  The split at the first colon. Without one, \<^verbatim>\<open>find\<close> returns \<^verbatim>\<open>npos\<close>: the host is the whole address,
  and so is the port, since \<^verbatim>\<open>npos + 1\<close> is 0.
\<close>

fun split_address :: "string \<Rightarrow> string \<times> string" where
  "split_address address =
     (if CHR '':'' \<in> set address
      then (takeWhile (\<lambda>c. c \<noteq> CHR '':'') address, tl (dropWhile (\<lambda>c. c \<noteq> CHR '':'') address))
      else (address, address))"

declare split_address.simps [simp del]

definition TcpSocket_connect :: "'k kernel \<Rightarrow> 'k \<Rightarrow> tcp_socket \<Rightarrow> ('k, unit) call" where
  "TcpSocket_connect os k s =
     (let (host, port_text) = split_address (m_address s)
      in case atoi (c_str port_text) of
           Inl e \<Rightarrow> (k, Inl e)
         | Inr port \<Rightarrow>
             let (k1, rc) = sys_connect os k (m_socket s) (Sockaddr_in (inet_addr os (c_str host)) (htons port))
             in if rc < 0 then (k1, Inl (Throw (IoException (''Unable to connect socket: '' @ to_string rc @ ''/'' @
                                  to_string (errno_number os (sys_errno os k1))))))
                else (k1, Inr ()))"

definition TcpSocket_read :: "'k kernel \<Rightarrow> tcp_socket \<Rightarrow> 'k line_read" where
  "TcpSocket_read os s k buflen =
     (let (k1, out, rc) = sys_read os k (m_socket s) buflen
      in Inr (k1, out, read_code rc (sys_errno os k1)))"

definition TcpSocket_write :: "'k kernel \<Rightarrow> tcp_socket \<Rightarrow> 'k line_write" where
  "TcpSocket_write os s k buffer =
     (let (k1, rc) = sys_write os k (m_socket s) buffer
      in Inr (k1, if rc \<le> 0 then eUnknown else rc))"

definition TcpSocket_setOption :: "'k kernel \<Rightarrow> 'k \<Rightarrow> tcp_socket \<Rightarrow> LineOption \<Rightarrow> int \<Rightarrow> failure + 'k" where
  "TcpSocket_setOption os k s option msecs =
     (case option of
        ReceiveTimeout \<Rightarrow> Inr (fst (sys_setsockopt os k (m_socket s) (SO_RCVTIMEO (timeval_of msecs))))
      | SendTimeout \<Rightarrow> Inr (fst (sys_setsockopt os k (m_socket s) (SO_SNDTIMEO (timeval_of msecs))))
      | OtherOption _ \<Rightarrow> Inl (Throw (UnsupportedOption '''')))"

definition TcpSocketAcceptor_new :: "'k kernel \<Rightarrow> 'k \<Rightarrow> string \<Rightarrow> ('k, tcp_acceptor) call" where
  "TcpSocketAcceptor_new os k address =
     (let (k1, fd) = sys_socket os k AF_INET
      in if fd < 0 then (k1, Inl (Throw (IoException (''Unable to create socket: '' @ to_string fd))))
         else let (k2, rc) = sys_setsockopt os k1 fd (SO_REUSEADDR 1)
              in if rc < 0 then (k2, Inl (Throw (IoException (''Unable to set socket option: '' @ to_string fd))))
                 else let (host, port_text) = split_address address
                      in case atoi (c_str port_text) of
                           Inl e \<Rightarrow> (k2, Inl e)
                         | Inr port \<Rightarrow>
                             let addr = (if host \<noteq> ''*'' then inet_addr os (c_str host) else 0);
                                 (k3, rc') = sys_bind os k2 fd (Sockaddr_in addr (htons port))
                             in if rc' < 0
                                then (k3, Inl (Throw (IoException (''Unable to bind tcp socket: '' @ to_string rc' @ ''/'' @
                                           to_string (errno_number os (sys_errno os k3))))))
                                else let (k4, rc'') = sys_listen os k3 fd 10
                                     in if rc'' < 0
                                        then (sys_close os k4 fd,
                                              Inl (Throw (IoException (''Unable to listen socket: '' @ to_string rc''))))
                                        else (k4, Inr \<lparr>m_address = address, m_socket = fd\<rparr>))"

definition TcpSocketAcceptor_destroy :: "'k kernel \<Rightarrow> 'k \<Rightarrow> tcp_acceptor \<Rightarrow> 'k" where
  "TcpSocketAcceptor_destroy os k a = sys_close os k (m_socket a)"

definition TcpSocket_accepted :: "int \<Rightarrow> string \<Rightarrow> tcp_socket" where
  "TcpSocket_accepted fd address = \<lparr>m_address = address, m_socket = fd\<rparr>"

definition TcpSocketAcceptor_waitConnection ::
    "'k kernel \<Rightarrow> 'k \<Rightarrow> tcp_acceptor \<Rightarrow> int \<Rightarrow> 'k \<times> tcp_socket option" where
  "TcpSocketAcceptor_waitConnection os k a timeoutInMs =
     (let (k1, newsock) = sys_accept os k (m_socket a)
      in if newsock > 0 then (k1, Some (TcpSocket_accepted newsock [])) else (k1, None))"

definition TcpSocketFactory_supportsScheme :: "string \<Rightarrow> bool" where
  "TcpSocketFactory_supportsScheme scheme \<longleftrightarrow> scheme = ''tcp''"

definition TcpSocketFactory_createClient :: "'k kernel \<Rightarrow> 'k \<Rightarrow> string \<Rightarrow> ('k, tcp_socket option) call" where
  "TcpSocketFactory_createClient os k address =
     (case TcpSocket_new os k address of
        (k1, Inl e) \<Rightarrow> (k1, Inl e)
      | (k1, Inr s) \<Rightarrow>
          (case TcpSocket_connect os k1 s of
             (k2, Inl e) \<Rightarrow> (k2, Inl e)
           | (k2, Inr _) \<Rightarrow> (k2, Inr (Some s))))"

definition TcpSocketFactory_createServer :: "'k kernel \<Rightarrow> 'k \<Rightarrow> string \<Rightarrow> ('k, tcp_acceptor option) call" where
  "TcpSocketFactory_createServer os k address =
     (case TcpSocketAcceptor_new os k address of (k1, Inl e) \<Rightarrow> (k1, Inl e) | (k1, Inr a) \<Rightarrow> (k1, Inr (Some a)))"

section \<open>Lemmas\<close>

text \<open>Decimal numbers.\<close>

lemma of_char_char_of_digit: "d < 10 \<Longrightarrow> (of_char (char_of (48 + d)) :: nat) = 48 + d"
  by simp

lemma digit_char [simp]:
  assumes "d < 10"
  shows "is_digit (char_of (48 + d :: nat))" "digit_value (char_of (48 + d :: nat)) = d"
    "\<not> is_space (char_of (48 + d :: nat))"
  using assms by (simp_all add: is_digit_def digit_value_def is_space_def)

lemma digits_value_append:
  "\<forall>c \<in> set cs. is_digit c \<Longrightarrow> digits_value acc (cs @ ds) = digits_value (digits_value acc cs) ds"
  by (induction cs arbitrary: acc) auto

lemma nat_to_string_digits: "\<forall>c \<in> set (nat_to_string n). is_digit c"
proof (induction n rule: nat_to_string.induct)
  case (1 n)
  then show ?case by (subst nat_to_string.simps) auto
qed

lemma digits_value_nat_to_string: "digits_value 0 (nat_to_string n) = n"
proof (induction n rule: nat_to_string.induct)
  case (1 n)
  show ?case
  proof (cases "n < 10")
    case True
    then show ?thesis by (simp add: nat_to_string.simps [of n])
  next
    case False
    with 1 have "digits_value 0 (nat_to_string n) = digits_value (n div 10) [char_of (48 + n mod 10)]"
      by (subst nat_to_string.simps) (simp add: digits_value_append [OF nat_to_string_digits])
    then show ?thesis by simp
  qed
qed

lemma nat_to_string_nonempty: "nat_to_string n \<noteq> []"
  by (subst nat_to_string.simps) simp

lemma is_digit_plain: "is_digit c \<Longrightarrow> \<not> is_space c \<and> c \<noteq> CHR ''-'' \<and> c \<noteq> CHR ''+'' \<and> c \<noteq> CHR 0x00 \<and> c \<noteq> CHR '':''"
  by (auto simp: is_digit_def is_space_def)

lemma atoi_nat_to_string:
  assumes "n < 2 ^ 31"
  shows "atoi (nat_to_string n) = Inr (int n)"
proof -
  obtain c cs where c: "nat_to_string n = c # cs" using nat_to_string_nonempty by (meson list.exhaust)
  have "is_digit c" using nat_to_string_digits [of n] c by simp
  then have "\<not> is_space c" "c \<noteq> CHR ''-''" "c \<noteq> CHR ''+''" using is_digit_plain by blast+
  then show ?thesis using assms digits_value_nat_to_string [of n] by (simp add: atoi_def c Let_def)
qed

lemma c_str_plain: "CHR 0x00 \<notin> set s \<Longrightarrow> c_str s = s"
  by (auto simp: c_str_def takeWhile_eq_all_conv)

lemma c_str_nat_to_string: "c_str (nat_to_string n) = nat_to_string n"
  using nat_to_string_digits [of n] is_digit_plain by (intro c_str_plain) blast

lemma split_address_host_port:
  "CHR '':'' \<notin> set host \<Longrightarrow> split_address (host @ CHR '':'' # port) = (host, port)"
  by (auto simp: split_address.simps takeWhile_append dropWhile_append)

text \<open>Socket names.\<close>

lemma unix_name_eq:
  assumes "CHR 0x00 \<notin> set address"
  shows "unix_name address =
    (if length address < 14 then Inr (Sockaddr_un (address @ replicate (14 - length address) (CHR 0x00)) (length address + 2))
     else Inl (Undefined UnterminatedString))"
proof (cases "length address < 14")
  case True
  have "c_str (address @ replicate (14 - length address) (CHR 0x00)) = address"
    using assms True by (auto simp: c_str_def takeWhile_append)
  with True assms show ?thesis
    by (simp add: unix_name_def Let_def strncpy_def strlen_def c_str_plain)
next
  case False
  moreover from assms have "CHR 0x00 \<notin> set (take 14 address)" by (meson in_set_takeD)
  ultimately show ?thesis
    using assms by (simp add: unix_name_def Let_def strncpy_def strlen_def c_str_plain)
qed

text \<open>Timeouts.\<close>

lemma timeval_of_exact:
  fixes msecs :: int
  shows "tv_sec (timeval_of msecs) * 1000000 + tv_usec (timeval_of msecs) = msecs * 1000"
    and "\<bar>tv_usec (timeval_of msecs)\<bar> < 1000000"
    and "0 \<le> msecs \<Longrightarrow> 0 \<le> tv_sec (timeval_of msecs) \<and> 0 \<le> tv_usec (timeval_of msecs)"
    and "msecs < 0 \<Longrightarrow> tv_sec (timeval_of msecs) \<le> 0 \<and> tv_usec (timeval_of msecs) \<le> 0"
  by (auto simp: timeval_of_def Let_def c_div_def sgn_if)

text \<open>Streams.\<close>

definition receives :: "'k kernel \<Rightarrow> int \<Rightarrow> ('k \<Rightarrow> bool) \<Rightarrow> ('k \<Rightarrow> byte list) \<Rightarrow> bool" where
  "receives os fd ok pending \<longleftrightarrow> (\<forall>k n. ok k \<and> pending k \<noteq> [] \<and> 0 < n \<longrightarrow>
     (\<exists>k' j. sys_read os k fd n = (k', take j (pending k), int j) \<and> 0 < j \<and> j \<le> n \<and> j \<le> length (pending k) \<and>
             j < 2 ^ 31 \<and> ok k' \<and> pending k' = drop j (pending k)))"

definition transmits :: "'k kernel \<Rightarrow> int \<Rightarrow> ('k \<Rightarrow> bool) \<Rightarrow> ('k \<Rightarrow> byte list) \<Rightarrow> bool" where
  "transmits os fd ok sent \<longleftrightarrow> (\<forall>k bs. ok k \<and> bs \<noteq> [] \<longrightarrow>
     (\<exists>k' j. sys_write os k fd bs = (k', int j) \<and> 0 < j \<and> j \<le> length bs \<and> ok k' \<and> sent k' = sent k @ take j bs))"

lemma read_code_positive [simp]: "0 < rc \<Longrightarrow> read_code rc e = rc"
  by (simp add: read_code_def)

lemma socket_source:
  assumes "receives os (m_socket s) ok pending"
  shows "stream_source (UnixSocket_read os s) ok pending" and "stream_source (TcpSocket_read os s) ok pending"
proof -
  have "\<exists>k' j. UnixSocket_read os s k n = Inr (k', take j (pending k), int j) \<and>
      TcpSocket_read os s k n = Inr (k', take j (pending k), int j) \<and> 0 < j \<and> j \<le> n \<and>
      j \<le> length (pending k) \<and> j < 2 ^ 31 \<and> ok k' \<and> pending k' = drop j (pending k)"
    if "ok k" "pending k \<noteq> []" "0 < n" for k n
  proof -
    from that assms obtain k' j where j: "sys_read os k (m_socket s) n = (k', take j (pending k), int j)"
      "0 < j" "j \<le> n" "j \<le> length (pending k)" "j < 2 ^ 31" "ok k'" "pending k' = drop j (pending k)"
      unfolding receives_def by blast
    then show ?thesis
      by (intro exI [of _ k'] exI [of _ j]) (simp add: UnixSocket_read_def TcpSocket_read_def)
  qed
  then show "stream_source (UnixSocket_read os s) ok pending" "stream_source (TcpSocket_read os s) ok pending"
    by (unfold_locales) blast+
qed

lemma socket_sink:
  assumes "transmits os (m_socket s) ok sent"
  shows "stream_sink (UnixSocket_write os s) ok sent (\<lambda>_. n)" and "stream_sink (TcpSocket_write os s) ok sent (\<lambda>_. n)"
proof -
  have "\<exists>k' j. UnixSocket_write os s k bs = Inr (k', int j) \<and> TcpSocket_write os s k bs = Inr (k', int j) \<and>
      0 < j \<and> j \<le> length bs \<and> ok k' \<and> sent k' = sent k @ take j bs \<and> n - j \<le> n"
    if "ok k" "bs \<noteq> []" for k bs
  proof -
    from that assms obtain k' j where "sys_write os k (m_socket s) bs = (k', int j)" "0 < j" "j \<le> length bs"
      "ok k'" "sent k' = sent k @ take j bs"
      unfolding transmits_def by blast
    then show ?thesis
      by (intro exI [of _ k'] exI [of _ j]) (simp add: UnixSocket_write_def TcpSocket_write_def)
  qed
  then show "stream_sink (UnixSocket_write os s) ok sent (\<lambda>_. n)" "stream_sink (TcpSocket_write os s) ok sent (\<lambda>_. n)"
    by (unfold_locales) blast+
qed

text \<open>Descriptors: \<open>fds k\<close> are the open ones. Only \<^verbatim>\<open>close\<close> takes one away.\<close>

definition keeps_open :: "'k kernel \<Rightarrow> ('k \<Rightarrow> int set) \<Rightarrow> bool" where
  "keeps_open os fds \<longleftrightarrow>
     (\<forall>k fd a. fds k \<subseteq> fds (fst (sys_connect os k fd a))) \<and> (\<forall>k fd a. fds k \<subseteq> fds (fst (sys_bind os k fd a))) \<and>
     (\<forall>k fd o'. fds k \<subseteq> fds (fst (sys_setsockopt os k fd o')))"

lemma keeps_openD:
  assumes "keeps_open os fds" and "fd' \<in> fds k"
  shows "sys_connect os k fd a = (k', rc) \<Longrightarrow> fd' \<in> fds k'" and "sys_bind os k fd a = (k', rc) \<Longrightarrow> fd' \<in> fds k'"
  using assms unfolding keeps_open_def by (metis fst_conv subsetD)+

lemma connect_keeps_open:
  assumes "keeps_open os fds" and "fd \<in> fds k"
  shows "UnixSocket_connect os k s = (k', r) \<Longrightarrow> fd \<in> fds k'" and "TcpSocket_connect os k s = (k', r) \<Longrightarrow> fd \<in> fds k'"
proof -
  show "fd \<in> fds k'" if "UnixSocket_connect os k s = (k', r)"
    using that assms(2) keeps_openD(1) [OF assms]
    by (auto simp: UnixSocket_connect_def Let_def split: prod.splits sum.splits if_splits)
  show "fd \<in> fds k'" if "TcpSocket_connect os k s = (k', r)"
    using that assms(2) keeps_openD(1) [OF assms]
    by (auto simp: TcpSocket_connect_def Let_def split: prod.splits sum.splits if_splits)
qed

text \<open>
  An operating system for the examples: one stream of bytes, of which a call transfers at most
  three; a socket can be made, but neither connected nor bound.
\<close>

definition loop_kernel :: "(byte list \<times> int set) kernel" where
  "loop_kernel = \<lparr>
     sys_socket = (\<lambda>(q, fds) _. ((q, insert 5 fds), 5)),
     sys_close = (\<lambda>(q, fds) fd. (q, fds - {fd})),
     sys_unlink = (\<lambda>k _. k),
     sys_connect = (\<lambda>k _ _. (k, - 1)),
     sys_bind = (\<lambda>k _ _. (k, - 1)),
     sys_listen = (\<lambda>k _ _. (k, 0)),
     sys_accept = (\<lambda>k _. (k, - 1)),
     sys_read = (\<lambda>(q, fds) _ n. ((drop (min n 3) q, fds), take (min n 3) q, int (min (min n 3) (length q)))),
     sys_write = (\<lambda>(q, fds) _ bs. ((q @ take 3 bs, fds), int (min 3 (length bs)))),
     sys_setsockopt = (\<lambda>k _ _. (k, 0)),
     sys_errno = (\<lambda>_. OtherErrno 0),
     errno_number = (\<lambda>_. 0),
     inet_addr = (\<lambda>_. 0)\<rparr>"

lemma loop_kernel_receives: "receives loop_kernel fd (\<lambda>_. True) fst"
  unfolding receives_def
proof (intro allI impI)
  fix k :: "byte list \<times> int set" and n :: nat
  assume "True \<and> fst k \<noteq> [] \<and> 0 < n"
  then show "\<exists>k' j. sys_read loop_kernel k fd n = (k', take j (fst k), int j) \<and> 0 < j \<and> j \<le> n \<and>
      j \<le> length (fst k) \<and> j < 2 ^ 31 \<and> True \<and> fst k' = drop j (fst k)"
    by (intro exI [of _ "(drop (min n 3) (fst k), snd k)"] exI [of _ "min (min n 3) (length (fst k))"])
      (auto simp: loop_kernel_def split_beta min_def)
qed

lemma loop_kernel_transmits: "transmits loop_kernel fd (\<lambda>_. True) fst"
  unfolding transmits_def
proof (intro allI impI)
  fix k :: "byte list \<times> int set" and bs :: "byte list"
  assume "True \<and> bs \<noteq> []"
  then show "\<exists>k' j. sys_write loop_kernel k fd bs = (k', int j) \<and> 0 < j \<and> j \<le> length bs \<and> True \<and>
      fst k' = fst k @ take j bs"
    by (intro exI [of _ "(fst k @ take 3 bs, snd k)"] exI [of _ "min 3 (length bs)"])
      (auto simp: loop_kernel_def split_beta min_def)
qed

section \<open>Properties\<close>

text \<open>
  C34 (socket_messages_received): over a socket whose \<^verbatim>\<open>read\<close> delivers at least one byte as long as bytes are
  pending, however few at a time, successive calls of \<^verbatim>\<open>readMessage\<close> return the messages of the stream
  in their order and leave the rest of the stream pending, for both kinds of sockets.
\<close>
theorem socket_messages_received:
  assumes "receives os (m_socket s) ok pending" and "ok k"
    and "pending k = concat (map encode ms) @ rest" and "\<forall>m \<in> set ms. encodable m"
  shows "(\<exists>k'. receive_messages (UnixSocket_read os s) k (length ms) = Inr (k', map (\<lambda>m. (m, 1)) ms) \<and> pending k' = rest) \<and>
         (\<exists>k'. receive_messages (TcpSocket_read os s) k (length ms) = Inr (k', map (\<lambda>m. (m, 1)) ms) \<and> pending k' = rest)"
  using exact_source.receive_pending [OF stream_source_exact [OF socket_source(1) [OF assms(1)]] assms(2-4)]
    exact_source.receive_pending [OF stream_source_exact [OF socket_source(2) [OF assms(1)]] assms(2-4)] by blast

theorem socket_messages_received_witness:
  "\<exists>k'. receive_messages (TcpSocket_read loop_kernel \<lparr>m_address = [], m_socket = 5\<rparr>)
      ([1, 0, 0, 0, 2, 0, 0, 0, 7, 8], {}) 1 = Inr (k', [(\<lparr>m_frames = [Frame_move [7, 8]]\<rparr>, 1)])"
proof -
  let ?m = "\<lparr>m_frames = [Frame_move [7, 8]]\<rparr>" and ?k = "([1, 0, 0, 0, 2, 0, 0, 0, 7, 8], {}) :: byte list \<times> int set"
  have "encode ?m = [1, 0, 0, 0, 2, 0, 0, 0, 7, 8]" by code_simp
  then have "fst ?k = concat (map encode [?m]) @ []" "\<forall>m \<in> set [?m]. encodable m"
    by (simp_all add: encodable_def Frame_move_def Frame_size_def)
  from socket_messages_received [OF loop_kernel_receives [of "m_socket \<lparr>m_address = [], m_socket = 5\<rparr>"] TrueI this]
  show ?thesis by auto
qed

text \<open>
  C35 (socket_messages_sent): over a socket whose \<^verbatim>\<open>write\<close> accepts at least one byte of what it is given,
  successive calls of \<^verbatim>\<open>sendMessage\<close> return 1 and hand exactly the wire format of the messages to the
  kernel, in order, for both kinds of sockets.
\<close>
theorem socket_messages_sent:
  assumes "transmits os (m_socket s) ok sent" and "ok k" and "length (concat (map encode ms)) < 2 ^ 31"
  shows "(\<exists>k'. send_messages (UnixSocket_write os s) k ms = Some (Inr (k', replicate (length ms) 1)) \<and>
            sent k' = sent k @ concat (map encode ms)) \<and>
         (\<exists>k'. send_messages (TcpSocket_write os s) k ms = Some (Inr (k', replicate (length ms) 1)) \<and>
            sent k' = sent k @ concat (map encode ms))"
  using stream_sink.send_accepted [OF socket_sink(1) [OF assms(1)] assms(2) order_refl assms(3)]
    stream_sink.send_accepted [OF socket_sink(2) [OF assms(1)] assms(2) order_refl assms(3)] by blast

theorem socket_messages_sent_witness:
  "\<exists>k'. send_messages (UnixSocket_write loop_kernel \<lparr>m_address = [], m_socket = 5\<rparr>) ([], {})
      [\<lparr>m_frames = [Frame_move [7, 8]]\<rparr>] = Some (Inr (k', [1])) \<and> fst k' = [1, 0, 0, 0, 2, 0, 0, 0, 7, 8]"
proof -
  let ?m = "\<lparr>m_frames = [Frame_move [7, 8]]\<rparr>"
  have e: "encode ?m = [1, 0, 0, 0, 2, 0, 0, 0, 7, 8]" by code_simp
  then have "length (concat (map encode [?m])) < 2 ^ 31" by simp
  from socket_messages_sent [OF loop_kernel_transmits [of "m_socket \<lparr>m_address = [], m_socket = 5\<rparr>"] TrueI this, of "([], {})"] e
  show ?thesis by auto
qed

text \<open>
  An address \<^verbatim>\<open>host:port\<close> with a decimal port connects to that host and exactly that
  port, whose two bytes are stored in network order.
\<close>
lemma tcp_address_parsed:
  assumes "CHR '':'' \<notin> set host" and "CHR 0x00 \<notin> set host" and "port < 2 ^ 16"
    and "m_address s = host @ '':'' @ nat_to_string port"
    and "sys_connect os k (m_socket s) (Sockaddr_in (inet_addr os host) [int port div 256, int port mod 256]) = (k', rc)"
    and "0 \<le> rc"
  shows "TcpSocket_connect os k s = (k', Inr ())"
proof -
  have "split_address (m_address s) = (host, nat_to_string port)"
    using assms(1,4) by (simp add: split_address_host_port)
  moreover have "atoi (c_str (nat_to_string port)) = Inr (int port)"
    using assms(3) by (simp add: c_str_nat_to_string atoi_nat_to_string)
  moreover have "htons (int port) = [int port div 256, int port mod 256]"
    using assms(3) by (simp add: htons_def Let_def)
  ultimately show ?thesis using assms(2,5,6) by (simp add: TcpSocket_connect_def c_str_plain)
qed

text \<open>
  C39 (unix_name_limit): an address of at most 13 characters is passed to the kernel as it is, NUL-terminated and
  with its length; for a longer one \<^verbatim>\<open>strncpy\<close> leaves \<^verbatim>\<open>sa_data\<close> without a terminator and \<^verbatim>\<open>strlen\<close> reads past its
  end, for clients and servers.
\<close>
theorem unix_name_limit:
  assumes "CHR 0x00 \<notin> set address" and "sys_socket os k AF_UNIX = (k1, fd)" and "0 \<le> fd"
  shows "(length address \<le> 13 \<longrightarrow>
       unix_name address = Inr (Sockaddr_un (address @ replicate (14 - length address) (CHR 0x00)) (length address + 2))) \<and>
    (13 < length address \<longrightarrow>
       UnixSocketFactory_createClient os k address = (k1, Inl (Undefined UnterminatedString)) \<and>
       UnixSocketFactory_createServer os k address = (k1, Inl (Undefined UnterminatedString)))"
  using assms
  by (simp add: unix_name_eq UnixSocketFactory_createClient_def UnixSocketFactory_createServer_def UnixSocket_new_def
      UnixSocket_connect_def UnixSocketAcceptor_new_def)

theorem unix_name_limit_witness:
  "UnixSocketFactory_createServer loop_kernel ([], {}) ''/tmp/socket.sock'' =
     (([], {5}), Inl (Undefined UnterminatedString))"
  using unix_name_limit [of "''/tmp/socket.sock''" loop_kernel "([], {})" "([], {5})" 5]
  by (simp add: loop_kernel_def)

text \<open>
  When the connection fails, \<^verbatim>\<open>createClient\<close> throws without deleting the line, and when
  \<^verbatim>\<open>bind\<close> fails the constructor of an acceptor throws without closing its socket: the descriptor
  stays open, although no object is left that would close it.
\<close>
lemma failed_connect_leaks:
  assumes "sys_socket os k d = (k1, fd)" and "0 \<le> fd" and "fd \<in> fds k1" and "keeps_open os fds"
  shows "(d = AF_UNIX \<longrightarrow> UnixSocketFactory_createClient os k address = (k', Inl e) \<longrightarrow> fd \<in> fds k') \<and>
    (d = AF_INET \<longrightarrow> TcpSocketFactory_createClient os k address = (k', Inl e) \<longrightarrow> fd \<in> fds k') \<and>
    (d = AF_UNIX \<longrightarrow> unix_name address = Inr a \<longrightarrow> snd (sys_bind os k1 fd a) < 0 \<longrightarrow>
       UnixSocketFactory_createServer os k address = (k', Inl e) \<longrightarrow> fd \<in> fds k')"
proof (intro conjI impI)
  assume "d = AF_UNIX" "UnixSocketFactory_createClient os k address = (k', Inl e)"
  with assms(1,2) show "fd \<in> fds k'"
    using connect_keeps_open(1) [OF assms(4,3)]
    by (auto simp: UnixSocketFactory_createClient_def UnixSocket_new_def split: prod.splits sum.splits)
next
  assume "d = AF_INET" "TcpSocketFactory_createClient os k address = (k', Inl e)"
  with assms(1,2) show "fd \<in> fds k'"
    using connect_keeps_open(2) [OF assms(4,3)]
    by (auto simp: TcpSocketFactory_createClient_def TcpSocket_new_def split: prod.splits sum.splits)
next
  assume "d = AF_UNIX" "unix_name address = Inr a" "snd (sys_bind os k1 fd a) < 0"
    "UnixSocketFactory_createServer os k address = (k', Inl e)"
  with assms(1,2) show "fd \<in> fds k'"
    using keeps_openD(2) [OF assms(4,3), of fd a]
    by (auto simp: UnixSocketFactory_createServer_def UnixSocketAcceptor_new_def split: prod.splits)
qed

text \<open>
  A timeout of any number of milliseconds is passed to the kernel exactly, as seconds and
  a proper fraction of a second in microseconds, both of the sign of the number.
\<close>
lemma socket_timeouts:
  shows "\<exists>tv. (\<forall>os k s. UnixSocket_setOption os k s ReceiveTimeout msecs = Inr (fst (sys_setsockopt os k (m_socket s) (SO_RCVTIMEO tv))) \<and>
       UnixSocket_setOption os k s SendTimeout msecs = Inr (fst (sys_setsockopt os k (m_socket s) (SO_SNDTIMEO tv))) \<and>
       TcpSocket_setOption os k s ReceiveTimeout msecs = Inr (fst (sys_setsockopt os k (m_socket s) (SO_RCVTIMEO tv))) \<and>
       TcpSocket_setOption os k s SendTimeout msecs = Inr (fst (sys_setsockopt os k (m_socket s) (SO_SNDTIMEO tv)))) \<and>
     tv_sec tv * 1000000 + tv_usec tv = msecs * 1000 \<and> \<bar>tv_usec tv\<bar> < 1000000 \<and>
     (if msecs < 0 then tv_sec tv \<le> 0 \<and> tv_usec tv \<le> 0 else 0 \<le> tv_sec tv \<and> 0 \<le> tv_usec tv)"
  using timeval_of_exact [of msecs]
  by (intro exI [of _ "timeval_of msecs"]) (simp add: UnixSocket_setOption_def TcpSocket_setOption_def)

end
