(* ===== verification/CApi.thy ===== *)
theory CApi
  imports InprocProtocol LineManager PosixSocket
begin

text \<open>
  The library as its users see it: \<^verbatim>\<open>createLineManager\<close> of src/posix/createlinemanager.cpp, which
  registers the three factories, and the C interface of src/cppio_c.cpp, which calls the
  virtual functions of lines and acceptors through untyped pointers.

  The state is the registry of inter-thread lines with the state of the kernel. What other threads
  do during a call is an argument: \<open>accs\<close>, the acceptors that run while a client waits for its
  connection; \<open>turns\<close>, the clients that come while an acceptor waits; \<open>ws\<close>, the wake-ups of each
  read or write that waits.
\<close>

section \<open>Objects behind the interfaces\<close>

datatype any_line = Inproc_line nat | Unix_line posix_socket | Tcp_line tcp_socket

datatype any_acceptor = Inproc_acceptor nat | Unix_acceptor unix_acceptor | Tcp_acceptor tcp_acceptor

type_synonym 'k world = "inproc \<times> 'k"

definition in_inproc :: "'k world \<Rightarrow> failure + (inproc \<times> 'r) \<Rightarrow> ('r \<Rightarrow> 'p) \<Rightarrow> 'k world \<times> (failure + 'p)" where
  "in_inproc w r f = (case r of Inl e \<Rightarrow> (w, Inl e) | Inr (st, x) \<Rightarrow> ((st, snd w), Inr (f x)))"

definition in_kernel :: "'k world \<Rightarrow> 'k \<times> (failure + 'r) \<Rightarrow> ('r \<Rightarrow> 'p) \<Rightarrow> 'k world \<times> (failure + 'p)" where
  "in_kernel w r f = (case r of (k, x) \<Rightarrow> ((fst w, k), map_sum id f x))"

definition inproc_factory :: "nat list \<Rightarrow> ('k world, any_line, any_acceptor) IoLineFactory" where
  "inproc_factory accs = \<lparr>
     supportsScheme = InprocLineFactory_supportsScheme,
     factory_createClient = (\<lambda>w address.
       in_inproc w (InprocLineFactory_createClient (fst w) address accs) (\<lambda>l. Some (Inproc_line l))),
     factory_createServer = (\<lambda>w address.
       in_inproc w (InprocLineFactory_createServer (fst w) address) (map_option Inproc_acceptor))\<rparr>"

definition unix_factory :: "'k kernel \<Rightarrow> ('k world, any_line, any_acceptor) IoLineFactory" where
  "unix_factory os = \<lparr>
     supportsScheme = UnixSocketFactory_supportsScheme,
     factory_createClient = (\<lambda>w address.
       in_kernel w (UnixSocketFactory_createClient os (snd w) address) (map_option Unix_line)),
     factory_createServer = (\<lambda>w address.
       in_kernel w (UnixSocketFactory_createServer os (snd w) address) (map_option Unix_acceptor))\<rparr>"

definition tcp_factory :: "'k kernel \<Rightarrow> ('k world, any_line, any_acceptor) IoLineFactory" where
  "tcp_factory os = \<lparr>
     supportsScheme = TcpSocketFactory_supportsScheme,
     factory_createClient = (\<lambda>w address.
       in_kernel w (TcpSocketFactory_createClient os (snd w) address) (map_option Tcp_line)),
     factory_createServer = (\<lambda>w address.
       in_kernel w (TcpSocketFactory_createServer os (snd w) address) (map_option Tcp_acceptor))\<rparr>"

definition createLineManager :: "'k kernel \<Rightarrow> nat list \<Rightarrow> ('k world, any_line, any_acceptor) IoLineManager" where
  "createLineManager os accs =
     IoLineManager_registerFactory
       (IoLineManager_registerFactory
         (IoLineManager_registerFactory IoLineManager_new (inproc_factory accs)) (unix_factory os)) (tcp_factory os)"

text \<open>
  The destructor of that manager destroys its factories. Only the one of inter-thread lines does something: it
  clears the registry, which is shared by all managers.
\<close>

definition IoLineManager_destroy :: "'k world \<Rightarrow> 'k world" where
  "IoLineManager_destroy w = (InprocLineFactory_destroy (fst w), snd w)"

text \<open>The virtual functions of \<^verbatim>\<open>IoLine\<close>.\<close>

definition IoLine_read :: "'k kernel \<Rightarrow> wake list \<Rightarrow> any_line \<Rightarrow> 'k world line_read" where
  "IoLine_read os ws line w n =
     (case line of
        Inproc_line l \<Rightarrow> bind_res (InprocLine_read (fst w) l n ws) (\<lambda>(st, out, rc, _). Inr ((st, snd w), out, rc))
      | Unix_line s \<Rightarrow> bind_res (UnixSocket_read os s (snd w) n) (\<lambda>(k, out, rc). Inr ((fst w, k), out, rc))
      | Tcp_line s \<Rightarrow> bind_res (TcpSocket_read os s (snd w) n) (\<lambda>(k, out, rc). Inr ((fst w, k), out, rc)))"

definition IoLine_write :: "'k kernel \<Rightarrow> wake list \<Rightarrow> any_line \<Rightarrow> 'k world line_write" where
  "IoLine_write os ws line w bs =
     (case line of
        Inproc_line l \<Rightarrow> bind_res (InprocLine_write (fst w) l bs ws) (\<lambda>(st, rc, _). Inr ((st, snd w), rc))
      | Unix_line s \<Rightarrow> bind_res (UnixSocket_write os s (snd w) bs) (\<lambda>(k, rc). Inr ((fst w, k), rc))
      | Tcp_line s \<Rightarrow> bind_res (TcpSocket_write os s (snd w) bs) (\<lambda>(k, rc). Inr ((fst w, k), rc)))"

definition IoLine_setOption :: "'k kernel \<Rightarrow> any_line \<Rightarrow> 'k world \<Rightarrow> LineOption \<Rightarrow> 32 word \<Rightarrow> failure + 'k world" where
  "IoLine_setOption os line w option data =
     (case line of
        Inproc_line l \<Rightarrow> bind_res (InprocLine_setOption (fst w) l option data) (\<lambda>st. Inr (st, snd w))
      | Unix_line s \<Rightarrow> bind_res (UnixSocket_setOption os (snd w) s option (sint data)) (\<lambda>k. Inr (fst w, k))
      | Tcp_line s \<Rightarrow> bind_res (TcpSocket_setOption os (snd w) s option (sint data)) (\<lambda>k. Inr (fst w, k)))"

definition IoLine_destroy :: "'k kernel \<Rightarrow> any_line \<Rightarrow> 'k world \<Rightarrow> failure + 'k world" where
  "IoLine_destroy os line w =
     (case line of
        Inproc_line l \<Rightarrow> bind_res (InprocLine_destroy (fst w) l) (\<lambda>st. Inr (st, snd w))
      | Unix_line s \<Rightarrow> Inr (fst w, UnixSocket_destroy os (snd w) s)
      | Tcp_line s \<Rightarrow> Inr (fst w, TcpSocket_destroy os (snd w) s))"

text \<open>The virtual functions of \<^verbatim>\<open>IoAcceptor\<close>.\<close>

definition IoAcceptor_waitConnection ::
    "'k kernel \<Rightarrow> (nat \<times> string list) list \<Rightarrow> any_acceptor \<Rightarrow> 'k world \<Rightarrow> int \<Rightarrow>
     'k world \<times> (failure + any_line option)" where
  "IoAcceptor_waitConnection os turns acceptor w timeoutInMs =
     (case acceptor of
        Inproc_acceptor a \<Rightarrow>
          in_inproc w (InprocAcceptor_waitConnection (fst w) a timeoutInMs turns) (map_option Inproc_line)
      | Unix_acceptor s \<Rightarrow>
          (case UnixSocketAcceptor_waitConnection os (snd w) s timeoutInMs of
             (k, r) \<Rightarrow> ((fst w, k), Inr (map_option Unix_line r)))
      | Tcp_acceptor s \<Rightarrow>
          (case TcpSocketAcceptor_waitConnection os (snd w) s timeoutInMs of
             (k, r) \<Rightarrow> ((fst w, k), Inr (map_option Tcp_line r))))"

definition IoAcceptor_destroy :: "'k kernel \<Rightarrow> any_acceptor \<Rightarrow> 'k world \<Rightarrow> 'k world" where
  "IoAcceptor_destroy os acceptor w =
     (case acceptor of
        Inproc_acceptor a \<Rightarrow> (InprocAcceptor_destroy (fst w) a, snd w)
      | Unix_acceptor s \<Rightarrow> (fst w, UnixSocketAcceptor_destroy os (snd w) s)
      | Tcp_acceptor s \<Rightarrow> (fst w, TcpSocketAcceptor_destroy os (snd w) s))"

section \<open>src/cppio_c.cpp\<close>

definition cppio_create_line_manager where
  "cppio_create_line_manager = createLineManager"

definition cppio_create_client ::
    "('k world, any_line, any_acceptor) IoLineManager \<Rightarrow> 'k world \<Rightarrow> string \<Rightarrow> 'k world \<times> (failure + any_line option)" where
  "cppio_create_client manager w address =
     null_on_IoException (LineManager.IoLineManager_createClient manager w (c_str address))"

definition cppio_create_server ::
    "('k world, any_line, any_acceptor) IoLineManager \<Rightarrow> 'k world \<Rightarrow> string \<Rightarrow> 'k world \<times> (failure + any_acceptor option)" where
  "cppio_create_server manager w address =
     null_on_IoException (IoLineManager_createServer manager w (c_str address))"

text \<open>\<^verbatim>\<open>delete\<close> of a null pointer does nothing.\<close>

definition cppio_destroy_line :: "'k kernel \<Rightarrow> 'k world \<Rightarrow> any_line option \<Rightarrow> failure + 'k world" where
  "cppio_destroy_line os w line = (case line of None \<Rightarrow> Inr w | Some l \<Rightarrow> IoLine_destroy os l w)"

definition cppio_destroy_acceptor :: "'k kernel \<Rightarrow> 'k world \<Rightarrow> any_acceptor option \<Rightarrow> 'k world" where
  "cppio_destroy_acceptor os w acceptor = (case acceptor of None \<Rightarrow> w | Some a \<Rightarrow> IoAcceptor_destroy os a w)"

definition cppio_acceptor_wait_connection ::
    "'k kernel \<Rightarrow> (nat \<times> string list) list \<Rightarrow> 'k world \<Rightarrow> any_acceptor option \<Rightarrow> int \<Rightarrow>
     'k world \<times> (failure + any_line option)" where
  "cppio_acceptor_wait_connection os turns w acceptor timeout =
     (case acceptor of
        None \<Rightarrow> (w, Inl (Undefined NullPointer))
      | Some a \<Rightarrow> IoAcceptor_waitConnection os turns a w timeout)"

definition cppio_line_read :: "'k kernel \<Rightarrow> wake list \<Rightarrow> any_line option \<Rightarrow> 'k world line_read" where
  "cppio_line_read os ws line w n =
     (case line of None \<Rightarrow> Inl (Undefined NullPointer) | Some l \<Rightarrow> IoLine_read os ws l w n)"

definition cppio_line_write :: "'k kernel \<Rightarrow> wake list \<Rightarrow> any_line option \<Rightarrow> 'k world line_write" where
  "cppio_line_write os ws line w bs =
     (case line of None \<Rightarrow> Inl (Undefined NullPointer) | Some l \<Rightarrow> IoLine_write os ws l w bs)"

text \<open>The members of \<^verbatim>\<open>enum cppio_line_option\<close> in include/cppio/cppio_c.h, and their cast to the enumeration of C++.\<close>

definition cppio_receive_timeout :: int where
  "cppio_receive_timeout = 1"

definition cppio_send_timeout :: int where
  "cppio_send_timeout = 2"

definition LineOption_cast :: "int \<Rightarrow> LineOption" where
  "LineOption_cast option = (if option = 1 then ReceiveTimeout else if option = 2 then SendTimeout else OtherOption option)"

definition cppio_line_set_option ::
    "'k kernel \<Rightarrow> 'k world \<Rightarrow> any_line option \<Rightarrow> int \<Rightarrow> 32 word \<Rightarrow> failure + ('k world \<times> int)" where
  "cppio_line_set_option os w line option data =
     (case line of
        None \<Rightarrow> Inl (Undefined NullPointer)
      | Some l \<Rightarrow> bind_res (IoLine_setOption os l w (LineOption_cast option) data) (\<lambda>w'. Inr (w', 0)))"

definition cppio_create_message :: message where
  "cppio_create_message = Message_new"

definition cppio_message_add :: "message \<Rightarrow> byte list \<Rightarrow> nat \<Rightarrow> failure + message" where
  "cppio_message_add m buffer buffer_length =
     bind_res (Frame_copy buffer 0 buffer_length) (\<lambda>f. Inr (Message_addFrame m f))"

definition cppio_message_size :: "message \<Rightarrow> nat" where
  "cppio_message_size m = Message_size m"

definition cppio_message_get_frame :: "message \<Rightarrow> nat \<Rightarrow> failure + byte list" where
  "cppio_message_get_frame m part_number = bind_res (Message_frame m part_number) (\<lambda>f. Inr (frame_data f))"

definition cppio_message_get_frame_length :: "message \<Rightarrow> nat \<Rightarrow> failure + nat" where
  "cppio_message_get_frame_length m part_number = bind_res (Message_frame m part_number) (\<lambda>f. Inr (Frame_size f))"

definition cppio_message_clear :: "message \<Rightarrow> message" where
  "cppio_message_clear m = Message_clear m"

text \<open>
  The two protocol functions return the \<^verbatim>\<open>ssize_t\<close> of the C++ functions as a \<^verbatim>\<open>size_t\<close>. The functions of the line that the
  protocol has a pointer to are an argument.
\<close>

definition cppio_messageprotocol_send ::
    "('l \<Rightarrow> 's line_write) \<Rightarrow> 'l message_protocol \<Rightarrow> 's \<Rightarrow> message \<Rightarrow> (failure + ('s \<times> nat)) option" where
  "cppio_messageprotocol_send wr proto w m =
     map_option (map_sum id (map_prod id to_size)) (MessageProtocol_sendMessage (impl_write wr proto) w m)"

definition cppio_messageprotocol_read ::
    "('l \<Rightarrow> 's line_read) \<Rightarrow> 'l message_protocol \<Rightarrow> 's \<Rightarrow> message \<Rightarrow> failure + ('s \<times> message \<times> nat)" where
  "cppio_messageprotocol_read rd proto w m =
     map_sum id (map_prod id (map_prod id to_size)) (MessageProtocol_readMessage (impl_read rd proto) w m)"

section \<open>Lemmas\<close>

lemma IoLine_inproc:
  "IoLine_read os [] (Inproc_line l) w n =
     bind_res (inproc_read l (fst w) n) (\<lambda>(st, out, rc). Inr ((st, snd w), out, rc))"
  "IoLine_write os [] (Inproc_line l) w bs = bind_res (inproc_write l (fst w) bs) (\<lambda>(st, rc). Inr ((st, snd w), rc))"
  by (simp_all add: IoLine_read_def IoLine_write_def inproc_read_def inproc_write_def bind_res_def split: sum.splits)

text \<open>An inter-thread line, called through the interface, is still a source and a sink.\<close>

definition c_state :: "(nat \<rightharpoonup> inproc_line) \<Rightarrow> nat \<Rightarrow> 'k \<Rightarrow> 'k world \<Rightarrow> bool" where
  "c_state L l k w \<longleftrightarrow> line_state L l (fst w) \<and> snd w = k"

interpretation c_source: stream_source "IoLine_read os [] (Inproc_line l)" "c_state L l k" "\<lambda>w. inbox l (fst w)" for os l L k
proof unfold_locales
  fix w and n :: nat
  assume w: "c_state L l k w" "inbox l (fst w) \<noteq> []" "0 < n"
  then have "line_state L l (fst w)" by (simp add: c_state_def)
  from inproc_read_law [OF this w(2,3)] w(1)
  show "\<exists>w' j. IoLine_read os [] (Inproc_line l) w n = Inr (w', take j (inbox l (fst w)), int j) \<and> 0 < j \<and> j \<le> n \<and>
      j \<le> length (inbox l (fst w)) \<and> j < 2 ^ 31 \<and> c_state L l k w' \<and> inbox l (fst w') = drop j (inbox l (fst w))"
    by (fastforce simp: IoLine_inproc c_state_def)
qed

interpretation c_sink: stream_sink "IoLine_write os [] (Inproc_line l)" "c_state L l k" "\<lambda>w. outbox l (fst w)" "\<lambda>w. space l (fst w)" for os l L k
proof unfold_locales
  fix w and bs :: "byte list"
  assume w: "c_state L l k w" "bs \<noteq> []" "length bs \<le> space l (fst w)"
  then have "line_state L l (fst w)" by (simp add: c_state_def)
  from inproc_write_law [OF this w(2,3)] w(1)
  show "\<exists>w' j. IoLine_write os [] (Inproc_line l) w bs = Inr (w', int j) \<and> 0 < j \<and> j \<le> length bs \<and> c_state L l k w' \<and>
      outbox l (fst w') = outbox l (fst w) @ take j bs \<and> space l (fst w) - j \<le> space l (fst w')"
    by (fastforce simp: IoLine_inproc c_state_def)
qed

lemma manager_factories:
  "factories (createLineManager os accs) = [inproc_factory accs, unix_factory os, tcp_factory os]"
  by (simp add: createLineManager_def IoLineManager_registerFactory_def IoLineManager_new_def)

lemma create_plain:
  assumes "plain scheme"
  shows "LineManager.IoLineManager_createClient m w (scheme @ ''://'' @ address) =
      (case find (\<lambda>f. supportsScheme f scheme) (factories m) of
         None \<Rightarrow> (w, Inr None) | Some f \<Rightarrow> null_on_IoException (factory_createClient f w address))"
    and "IoLineManager_createServer m w (scheme @ ''://'' @ address) =
      (case find (\<lambda>f. supportsScheme f scheme) (factories m) of
         None \<Rightarrow> (w, Inr None) | Some f \<Rightarrow> null_on_IoException (factory_createServer f w address))"
  using find_first_of_plain [OF assms, of "CHR '':''" "''//'' @ address"]
  by (auto simp: LineManager.IoLineManager_createClient_def IoLineManager_createServer_def dispatch_find substr_from_def
      split: option.splits)

lemma null_on_IoException_idem [simp]: "null_on_IoException (null_on_IoException r) = null_on_IoException r"
  by (cases r; cases "snd r") (auto simp: null_on_IoException_def split: failure.splits)

lemma c_str_address: "CHR 0x00 \<notin> set a \<Longrightarrow> CHR 0x00 \<notin> set scheme \<Longrightarrow> c_str (scheme @ ''://'' @ a) = scheme @ ''://'' @ a"
  by (intro c_str_plain) simp

section \<open>Properties\<close>

text \<open>
  Over the manager that \<^verbatim>\<open>createLineManager\<close> builds, the C functions pass \<^verbatim>\<open>inproc://\<close>,
  \<^verbatim>\<open>local://\<close> and \<^verbatim>\<open>tcp://\<close> addresses, without the prefix, to the inter-thread, Unix and TCP factory, turning an
  \<^verbatim>\<open>IoException\<close> into a null pointer; for any other scheme they return a null pointer and change
  nothing.
\<close>
lemma schemes_routed:
  assumes "CHR 0x00 \<notin> set a" and "plain scheme" and "CHR 0x00 \<notin> set scheme"
    and "scheme \<noteq> ''inproc''" and "scheme \<noteq> ''local''" and "scheme \<noteq> ''tcp''"
  shows "cppio_create_client (createLineManager os accs) w (''inproc://'' @ a) =
      null_on_IoException (in_inproc w (InprocLineFactory_createClient (fst w) a accs) (\<lambda>l. Some (Inproc_line l))) \<and>
    cppio_create_client (createLineManager os accs) w (''local://'' @ a) =
      null_on_IoException (in_kernel w (UnixSocketFactory_createClient os (snd w) a) (map_option Unix_line)) \<and>
    cppio_create_client (createLineManager os accs) w (''tcp://'' @ a) =
      null_on_IoException (in_kernel w (TcpSocketFactory_createClient os (snd w) a) (map_option Tcp_line)) \<and>
    cppio_create_server (createLineManager os accs) w (''tcp://'' @ a) =
      null_on_IoException (in_kernel w (TcpSocketFactory_createServer os (snd w) a) (map_option Tcp_acceptor)) \<and>
    cppio_create_client (createLineManager os accs) w (scheme @ ''://'' @ a) = (w, Inr None)"
proof -
  note str = c_str_address [OF assms(1)]
  note route = cppio_create_client_def cppio_create_server_def manager_factories inproc_factory_def unix_factory_def
    tcp_factory_def InprocLineFactory_supportsScheme_def UnixSocketFactory_supportsScheme_def
    TcpSocketFactory_supportsScheme_def
  have plains: "plain ''inproc''" "plain ''local''" "plain ''tcp''" by (simp_all add: plain_def)
  show ?thesis
    using str [of "''inproc''"] str [of "''local''"] str [of "''tcp''"] str [OF assms(3)]
      create_plain [OF plains(1), of "createLineManager os accs" w a] create_plain [OF plains(2), of "createLineManager os accs" w a]
      create_plain [OF plains(3), of "createLineManager os accs" w a] create_plain [OF assms(2), of "createLineManager os accs" w a]
      assms(4-6)
    by (simp add: route)
qed

end
