(* ===== verification/CObjects.thy ===== *)
theory CObjects
  imports CApi
begin

text \<open>
  The objects behind the untyped pointers of src/cppio_c.cpp. Every function of the C interface takes or returns a
  \<^verbatim>\<open>void*\<close> and casts it: that the pointer is one of the right kind, still alive, is a convention between the caller and
  the library. Here the objects are in a heap, a call through a null pointer or to an object that is not there is
  undefined, and a context of types says which pointers the caller holds. A protocol has the address of its line, so
  it can outlive it.
\<close>

section \<open>The heap\<close>

record c_heap =
  c_managers :: "nat \<rightharpoonup> unit"
  c_lines :: "nat \<rightharpoonup> any_line"
  c_acceptors :: "nat \<rightharpoonup> any_acceptor"
  c_messages :: "nat \<rightharpoonup> message"
  c_protocols :: "nat \<rightharpoonup> nat message_protocol"
  c_next :: nat

definition c_heap_empty :: c_heap where
  "c_heap_empty = \<lparr>c_managers = Map.empty, c_lines = Map.empty, c_acceptors = Map.empty, c_messages = Map.empty,
     c_protocols = Map.empty, c_next = 0\<rparr>"

type_synonym ptr = "nat option"

definition c_deref :: "(nat \<rightharpoonup> 'a) \<Rightarrow> ptr \<Rightarrow> failure + 'a" where
  "c_deref objects p =
     (case p of
        None \<Rightarrow> Inl (Undefined NullPointer)
      | Some a \<Rightarrow> (case objects a of None \<Rightarrow> Inl (Undefined DanglingPointer) | Some x \<Rightarrow> Inr x))"

definition put_message :: "c_heap \<Rightarrow> ptr \<Rightarrow> message \<Rightarrow> c_heap" where
  "put_message h p m = (case p of None \<Rightarrow> h | Some a \<Rightarrow> h\<lparr>c_messages := (c_messages h)(a \<mapsto> m)\<rparr>)"

definition cppio_new_manager :: "c_heap \<Rightarrow> c_heap \<times> nat" where
  "cppio_new_manager h = (h\<lparr>c_managers := (c_managers h)(c_next h \<mapsto> ()), c_next := Suc (c_next h)\<rparr>, c_next h)"

definition cppio_new_message :: "c_heap \<Rightarrow> c_heap \<times> nat" where
  "cppio_new_message h =
     (h\<lparr>c_messages := (c_messages h)(c_next h \<mapsto> cppio_create_message), c_next := Suc (c_next h)\<rparr>, c_next h)"

text \<open>\<^verbatim>\<open>delete\<close> of a null pointer does nothing.\<close>

definition cppio_destroy_message :: "c_heap \<Rightarrow> ptr \<Rightarrow> failure + c_heap" where
  "cppio_destroy_message h p =
     (case p of
        None \<Rightarrow> Inr h
      | Some a \<Rightarrow> bind_res (c_deref (c_messages h) p) (\<lambda>_. Inr (h\<lparr>c_messages := (c_messages h)(a := None)\<rparr>)))"

text \<open>The pointer to the line is stored without being followed.\<close>

definition cppio_create_messageprotocol :: "c_heap \<Rightarrow> ptr \<Rightarrow> c_heap \<times> nat" where
  "cppio_create_messageprotocol h line =
     (h\<lparr>c_protocols := (c_protocols h)(c_next h \<mapsto> MessageProtocol_new line), c_next := Suc (c_next h)\<rparr>, c_next h)"

definition cppio_destroy_messageprotocol :: "c_heap \<Rightarrow> ptr \<Rightarrow> failure + c_heap" where
  "cppio_destroy_messageprotocol h p =
     (case p of
        None \<Rightarrow> Inr h
      | Some a \<Rightarrow> bind_res (c_deref (c_protocols h) p) (\<lambda>_. Inr (h\<lparr>c_protocols := (c_protocols h)(a := None)\<rparr>)))"

section \<open>Calls\<close>

text \<open>
  Addresses, buffers and the data of an option are given by what the pointers to them point to, which the caller owns; \<open>ptr\<close> is
  a pointer the library has returned. What other threads do during a call is part of it: the acceptors that run while a client waits to be connected,
  the clients that come while an acceptor waits.
\<close>

datatype c_call =
    C_create_manager
  | C_create_client ptr string "nat list" | C_destroy_line ptr
  | C_create_server ptr string | C_destroy_acceptor ptr | C_wait_connection ptr int "(nat \<times> string list) list"
  | C_line_read ptr nat | C_line_write ptr "byte list" | C_set_option ptr int "32 word"
  | Create_message | Destroy_message ptr
  | Message_add ptr "byte list" nat | Message_length ptr | Get_frame ptr nat | Get_frame_length ptr nat | Clear ptr
  | Create_protocol ptr | Destroy_protocol ptr
  | Send ptr ptr | Read ptr ptr

datatype c_result = Nothing | Null | Pointer nat | Size nat | Bytes "byte list" | Code int | Received "byte list" int

text \<open>A pointer to an object that was created by the call, or a null pointer.\<close>

definition return_line :: "c_heap \<Rightarrow> any_line option \<Rightarrow> c_heap \<times> c_result" where
  "return_line h l =
     (case l of
        None \<Rightarrow> (h, Null)
      | Some x \<Rightarrow> (h\<lparr>c_lines := (c_lines h)(c_next h \<mapsto> x), c_next := Suc (c_next h)\<rparr>, Pointer (c_next h)))"

definition return_acceptor :: "c_heap \<Rightarrow> any_acceptor option \<Rightarrow> c_heap \<times> c_result" where
  "return_acceptor h a =
     (case a of
        None \<Rightarrow> (h, Null)
      | Some x \<Rightarrow> (h\<lparr>c_acceptors := (c_acceptors h)(c_next h \<mapsto> x), c_next := Suc (c_next h)\<rparr>, Pointer (c_next h)))"

definition c_created :: "(c_heap \<Rightarrow> 'x option \<Rightarrow> c_heap \<times> c_result) \<Rightarrow> c_heap \<Rightarrow> 'k world \<times> (failure + 'x option) \<Rightarrow>
    failure + (c_heap \<times> 'k world \<times> c_result)" where
  "c_created ret h r = (case r of (w, x) \<Rightarrow> bind_res x (\<lambda>y. case ret h y of (h', v) \<Rightarrow> Inr (h', w, v)))"

text \<open>The functions of the line at an address, which a protocol calls.\<close>

definition line_read_at :: "'k kernel \<Rightarrow> wake list \<Rightarrow> c_heap \<Rightarrow> nat \<Rightarrow> 'k world line_read" where
  "line_read_at os ws h a w n = bind_res (c_deref (c_lines h) (Some a)) (\<lambda>l. IoLine_read os ws l w n)"

definition line_write_at :: "'k kernel \<Rightarrow> wake list \<Rightarrow> c_heap \<Rightarrow> nat \<Rightarrow> 'k world line_write" where
  "line_write_at os ws h a w bs = bind_res (c_deref (c_lines h) (Some a)) (\<lambda>l. IoLine_write os ws l w bs)"

lemma line_at:
  assumes "c_lines h a = Some l"
  shows "line_read_at os ws h a = IoLine_read os ws l" and "line_write_at os ws h a = IoLine_write os ws l"
  using assms by (simp_all add: line_read_at_def line_write_at_def c_deref_def fun_eq_iff)

text \<open>\<open>None\<close>: the call does not return.\<close>

fun c_exec :: "'k kernel \<Rightarrow> wake list \<Rightarrow> c_heap \<Rightarrow> 'k world \<Rightarrow> c_call \<Rightarrow> (failure + (c_heap \<times> 'k world \<times> c_result)) option" where
  "c_exec os ws h w C_create_manager = (case cppio_new_manager h of (h', a) \<Rightarrow> Some (Inr (h', w, Pointer a)))"
| "c_exec os ws h w (C_create_client man address accs) =
     Some (bind_res (c_deref (c_managers h) man) (\<lambda>_.
       c_created return_line h (cppio_create_client (cppio_create_line_manager os accs) w address)))"
| "c_exec os ws h w (C_destroy_line p) =
     Some (case p of
       None \<Rightarrow> Inr (h, w, Nothing)
     | Some a \<Rightarrow> bind_res (c_deref (c_lines h) p) (\<lambda>l. bind_res (cppio_destroy_line os w (Some l)) (\<lambda>w'.
         Inr (h\<lparr>c_lines := (c_lines h)(a := None)\<rparr>, w', Nothing))))"
| "c_exec os ws h w (C_create_server man address) =
     Some (bind_res (c_deref (c_managers h) man) (\<lambda>_.
       c_created return_acceptor h (cppio_create_server (cppio_create_line_manager os []) w address)))"
| "c_exec os ws h w (C_destroy_acceptor p) =
     Some (case p of
       None \<Rightarrow> Inr (h, w, Nothing)
     | Some a \<Rightarrow> bind_res (c_deref (c_acceptors h) p) (\<lambda>x.
         Inr (h\<lparr>c_acceptors := (c_acceptors h)(a := None)\<rparr>, cppio_destroy_acceptor os w (Some x), Nothing)))"
| "c_exec os ws h w (C_wait_connection p timeout turns) =
     Some (bind_res (c_deref (c_acceptors h) p) (\<lambda>x.
       c_created return_line h (cppio_acceptor_wait_connection os turns w (Some x) timeout)))"
| "c_exec os ws h w (C_line_read p n) =
     Some (bind_res (c_deref (c_lines h) p) (\<lambda>l.
           bind_res (cppio_line_read os ws (Some l) w n) (\<lambda>(w', out, rc). Inr (h, w', Received out rc))))"
| "c_exec os ws h w (C_line_write p bs) =
     Some (bind_res (c_deref (c_lines h) p) (\<lambda>l.
           bind_res (cppio_line_write os ws (Some l) w bs) (\<lambda>(w', rc). Inr (h, w', Code rc))))"
| "c_exec os ws h w (C_set_option p option data) =
     Some (bind_res (c_deref (c_lines h) p) (\<lambda>l.
           bind_res (cppio_line_set_option os w (Some l) option data) (\<lambda>(w', rc). Inr (h, w', Code rc))))"
| "c_exec os ws h w Create_message = (case cppio_new_message h of (h', a) \<Rightarrow> Some (Inr (h', w, Pointer a)))"
| "c_exec os ws h w (Destroy_message p) = Some (bind_res (cppio_destroy_message h p) (\<lambda>h'. Inr (h', w, Nothing)))"
| "c_exec os ws h w (Message_add p buffer n) =
     Some (bind_res (c_deref (c_messages h) p) (\<lambda>m.
           bind_res (cppio_message_add m buffer n) (\<lambda>m'. Inr (put_message h p m', w, Nothing))))"
| "c_exec os ws h w (Message_length p) =
     Some (bind_res (c_deref (c_messages h) p) (\<lambda>m. Inr (h, w, Size (cppio_message_size m))))"
| "c_exec os ws h w (Get_frame p i) =
     Some (bind_res (c_deref (c_messages h) p) (\<lambda>m.
           bind_res (cppio_message_get_frame m i) (\<lambda>bs. Inr (h, w, Bytes bs))))"
| "c_exec os ws h w (Get_frame_length p i) =
     Some (bind_res (c_deref (c_messages h) p) (\<lambda>m.
           bind_res (cppio_message_get_frame_length m i) (\<lambda>n. Inr (h, w, Size n))))"
| "c_exec os ws h w (Clear p) =
     Some (bind_res (c_deref (c_messages h) p) (\<lambda>m. Inr (put_message h p (cppio_message_clear m), w, Nothing)))"
| "c_exec os ws h w (Create_protocol line) = (case cppio_create_messageprotocol h line of (h', a) \<Rightarrow> Some (Inr (h', w, Pointer a)))"
| "c_exec os ws h w (Destroy_protocol p) = Some (bind_res (cppio_destroy_messageprotocol h p) (\<lambda>h'. Inr (h', w, Nothing)))"
| "c_exec os ws h w (Send p q) =
     (case (c_deref (c_protocols h) p, c_deref (c_messages h) q) of
        (Inl e, _) \<Rightarrow> Some (Inl e)
      | (_, Inl e) \<Rightarrow> Some (Inl e)
      | (Inr proto, Inr m) \<Rightarrow>
          map_option (map_sum id (\<lambda>(w', n). (h, w', Size n))) (cppio_messageprotocol_send (line_write_at os ws h) proto w m))"
| "c_exec os ws h w (Read p q) =
     (case (c_deref (c_protocols h) p, c_deref (c_messages h) q) of
        (Inl e, _) \<Rightarrow> Some (Inl e)
      | (_, Inl e) \<Rightarrow> Some (Inl e)
      | (Inr proto, Inr m) \<Rightarrow>
          Some (map_sum id (\<lambda>(w', m', n). (put_message h q m', w', Size n)) (cppio_messageprotocol_read (line_read_at os ws h) proto w m)))"

section \<open>Types\<close>

text \<open>The type of a protocol names the line it was made for.\<close>

datatype c_type = Manager_ptr | Line_ptr | Acceptor_ptr | Message_ptr | Protocol_ptr ptr

type_synonym c_context = "nat \<rightharpoonup> c_type"

definition typed_by :: "(nat \<rightharpoonup> 'a) \<Rightarrow> c_context \<Rightarrow> c_type \<Rightarrow> bool" where
  "typed_by objects \<Gamma> ty \<longleftrightarrow> (\<forall>a. objects a = None \<longleftrightarrow> \<Gamma> a \<noteq> Some ty)"

text \<open>The heap has the objects the context names, of those types, and new addresses are unused.\<close>

definition heap_typed :: "c_context \<Rightarrow> c_heap \<Rightarrow> bool" where
  "heap_typed \<Gamma> h \<longleftrightarrow>
     typed_by (c_managers h) \<Gamma> Manager_ptr \<and> typed_by (c_lines h) \<Gamma> Line_ptr \<and> typed_by (c_acceptors h) \<Gamma> Acceptor_ptr \<and>
     typed_by (c_messages h) \<Gamma> Message_ptr \<and>
     (\<forall>a p. c_protocols h a = Some p \<longleftrightarrow> (\<exists>l. \<Gamma> a = Some (Protocol_ptr l) \<and> p = MessageProtocol_new l)) \<and>
     (\<forall>a. \<Gamma> a \<noteq> None \<longrightarrow> a < c_next h)"

definition has_type :: "c_context \<Rightarrow> ptr \<Rightarrow> c_type \<Rightarrow> bool" where
  "has_type \<Gamma> p ty \<longleftrightarrow> (\<exists>a. p = Some a \<and> \<Gamma> a = Some ty)"

text \<open>A protocol can be used as long as the caller holds its line.\<close>

definition usable :: "c_context \<Rightarrow> ptr \<Rightarrow> bool" where
  "usable \<Gamma> p \<longleftrightarrow> (\<exists>l. has_type \<Gamma> p (Protocol_ptr l) \<and> has_type \<Gamma> l Line_ptr)"

fun call_typed :: "c_context \<Rightarrow> c_call \<Rightarrow> bool" where
  "call_typed \<Gamma> (C_create_client p _ _) = has_type \<Gamma> p Manager_ptr"
| "call_typed \<Gamma> (C_destroy_line p) = (p = None \<or> has_type \<Gamma> p Line_ptr)"
| "call_typed \<Gamma> (C_create_server p _) = has_type \<Gamma> p Manager_ptr"
| "call_typed \<Gamma> (C_destroy_acceptor p) = (p = None \<or> has_type \<Gamma> p Acceptor_ptr)"
| "call_typed \<Gamma> (C_wait_connection p _ _) = has_type \<Gamma> p Acceptor_ptr"
| "call_typed \<Gamma> (C_line_read p _) = has_type \<Gamma> p Line_ptr"
| "call_typed \<Gamma> (C_line_write p _) = has_type \<Gamma> p Line_ptr"
| "call_typed \<Gamma> (C_set_option p _ _) = has_type \<Gamma> p Line_ptr"
| "call_typed \<Gamma> (Destroy_message p) = (p = None \<or> has_type \<Gamma> p Message_ptr)"
| "call_typed \<Gamma> (Message_add p buffer n) = has_type \<Gamma> p Message_ptr"
| "call_typed \<Gamma> (Message_length p) = has_type \<Gamma> p Message_ptr"
| "call_typed \<Gamma> (Get_frame p i) = has_type \<Gamma> p Message_ptr"
| "call_typed \<Gamma> (Get_frame_length p i) = has_type \<Gamma> p Message_ptr"
| "call_typed \<Gamma> (Clear p) = has_type \<Gamma> p Message_ptr"
| "call_typed \<Gamma> (Create_protocol p) = has_type \<Gamma> p Line_ptr"
| "call_typed \<Gamma> (Destroy_protocol p) = (p = None \<or> (\<exists>l. has_type \<Gamma> p (Protocol_ptr l)))"
| "call_typed \<Gamma> (Send p q) = (usable \<Gamma> p \<and> has_type \<Gamma> q Message_ptr)"
| "call_typed \<Gamma> (Read p q) = (usable \<Gamma> p \<and> has_type \<Gamma> q Message_ptr)"
| "call_typed \<Gamma> _ = True"

text \<open>What the caller holds after a call: a new pointer of the type created, or one pointer less.\<close>

fun created_type :: "c_call \<Rightarrow> c_type option" where
  "created_type C_create_manager = Some Manager_ptr"
| "created_type (C_create_client _ _ _) = Some Line_ptr"
| "created_type (C_create_server _ _) = Some Acceptor_ptr"
| "created_type (C_wait_connection _ _ _) = Some Line_ptr"
| "created_type Create_message = Some Message_ptr"
| "created_type (Create_protocol l) = Some (Protocol_ptr l)"
| "created_type _ = None"

fun destroyed :: "c_call \<Rightarrow> ptr" where
  "destroyed (C_destroy_line p) = p"
| "destroyed (C_destroy_acceptor p) = p"
| "destroyed (Destroy_message p) = p"
| "destroyed (Destroy_protocol p) = p"
| "destroyed _ = None"

definition retype :: "c_context \<Rightarrow> c_call \<Rightarrow> c_result \<Rightarrow> c_context" where
  "retype \<Gamma> c r =
     (case (r, created_type c, destroyed c) of
        (Pointer a, Some ty, _) \<Rightarrow> \<Gamma>(a \<mapsto> ty)
      | (_, _, Some a) \<Rightarrow> \<Gamma>(a := None)
      | _ \<Rightarrow> \<Gamma>)"

lemma retype_simps:
  "created_type c = Some ty \<Longrightarrow> retype \<Gamma> c (Pointer a) = \<Gamma>(a \<mapsto> ty)"
  "created_type c = None \<Longrightarrow> retype \<Gamma> c r = (case destroyed c of None \<Rightarrow> \<Gamma> | Some a \<Rightarrow> \<Gamma>(a := None))"
  "destroyed c = None \<Longrightarrow> retype \<Gamma> c Null = \<Gamma>"
  by (auto simp: retype_def split: c_result.splits option.splits)

section \<open>Typing is kept\<close>

lemma typed_by_simps:
  "typed_by m \<Gamma> ty \<Longrightarrow> typed_by (m(a \<mapsto> x)) (\<Gamma>(a \<mapsto> ty)) ty"
  "typed_by m \<Gamma> ty \<Longrightarrow> \<Gamma> a = None \<Longrightarrow> ty' \<noteq> ty \<Longrightarrow> typed_by m (\<Gamma>(a \<mapsto> ty')) ty"
  "typed_by m \<Gamma> ty \<Longrightarrow> \<Gamma> a = Some ty \<Longrightarrow> typed_by (m(a \<mapsto> x)) \<Gamma> ty"
  "typed_by m \<Gamma> ty \<Longrightarrow> typed_by (m(a := None)) (\<Gamma>(a := None)) ty"
  "typed_by m \<Gamma> ty \<Longrightarrow> \<Gamma> a = Some ty' \<Longrightarrow> ty' \<noteq> ty \<Longrightarrow> typed_by m (\<Gamma>(a := None)) ty"
  by (auto simp: typed_by_def)

lemma typed_deref:
  assumes "typed_by objects \<Gamma> ty" and "has_type \<Gamma> p ty"
  shows "\<exists>x. c_deref objects p = Inr x"
proof -
  obtain a where a: "p = Some a" "\<Gamma> a = Some ty" using assms(2) by (auto simp: has_type_def)
  then obtain x where "objects a = Some x" using assms(1) by (cases "objects a") (auto simp: typed_by_def)
  with a(1) show ?thesis by (simp add: c_deref_def)
qed

lemma deref_typed:
  assumes "heap_typed \<Gamma> h"
  shows "has_type \<Gamma> p Manager_ptr \<Longrightarrow> c_deref (c_managers h) p = Inr ()"
    and "has_type \<Gamma> p Line_ptr \<Longrightarrow> \<exists>l. c_deref (c_lines h) p = Inr l"
    and "has_type \<Gamma> p Acceptor_ptr \<Longrightarrow> \<exists>a. c_deref (c_acceptors h) p = Inr a"
    and "has_type \<Gamma> p Message_ptr \<Longrightarrow> \<exists>m. c_deref (c_messages h) p = Inr m"
    and "has_type \<Gamma> p (Protocol_ptr l) \<Longrightarrow> c_deref (c_protocols h) p = Inr (MessageProtocol_new l)"
proof -
  show "c_deref (c_protocols h) p = Inr (MessageProtocol_new l)" if ty: "has_type \<Gamma> p (Protocol_ptr l)"
  proof -
    obtain a where a: "p = Some a" "\<Gamma> a = Some (Protocol_ptr l)" using ty by (auto simp: has_type_def)
    then have "c_protocols h a = Some (MessageProtocol_new l)" using assms by (simp add: heap_typed_def)
    with a(1) show ?thesis by (simp add: c_deref_def)
  qed
qed (use assms typed_deref [of "c_managers h" \<Gamma> Manager_ptr] in \<open>auto simp: heap_typed_def intro: typed_deref\<close>)

lemma deref_usable:
  assumes "heap_typed \<Gamma> h" and "usable \<Gamma> p"
  obtains a l where "c_deref (c_protocols h) p = Inr (MessageProtocol_new (Some a))" and "c_lines h a = Some l"
proof -
  obtain a where a: "has_type \<Gamma> p (Protocol_ptr (Some a))" "\<Gamma> a = Some Line_ptr"
    using assms(2) by (auto simp: usable_def has_type_def)
  moreover obtain l where "c_lines h a = Some l"
    using assms(1) a(2) by (cases "c_lines h a") (auto simp: heap_typed_def typed_by_def)
  ultimately show thesis using deref_typed(5) [OF assms(1)] that by blast
qed

lemma heap_typed_put:
  "heap_typed \<Gamma> h \<Longrightarrow> has_type \<Gamma> p Message_ptr \<Longrightarrow> heap_typed \<Gamma> (put_message h p m)"
  by (auto simp: heap_typed_def has_type_def put_message_def typed_by_simps)

lemma fresh_address:
  assumes "heap_typed \<Gamma> h"
  shows "\<Gamma> (c_next h) = None" and "c_protocols h (c_next h) = None"
proof -
  show "\<Gamma> (c_next h) = None" using assms by (auto simp: heap_typed_def)
  with assms show "c_protocols h (c_next h) = None" by (cases "c_protocols h (c_next h)") (auto simp: heap_typed_def)
qed

lemma heap_typed_new:
  assumes "heap_typed \<Gamma> h"
  shows "cppio_new_manager h = (h', a) \<Longrightarrow> heap_typed (\<Gamma>(a \<mapsto> Manager_ptr)) h'"
    and "cppio_new_message h = (h', a) \<Longrightarrow> heap_typed (\<Gamma>(a \<mapsto> Message_ptr)) h'"
    and "cppio_create_messageprotocol h line = (h', a) \<Longrightarrow> heap_typed (\<Gamma>(a \<mapsto> Protocol_ptr line)) h'"
    and "return_line h l = (h', Pointer a) \<Longrightarrow> heap_typed (\<Gamma>(a \<mapsto> Line_ptr)) h'"
    and "return_acceptor h x = (h', Pointer a) \<Longrightarrow> heap_typed (\<Gamma>(a \<mapsto> Acceptor_ptr)) h'"
  using assms fresh_address [OF assms]
  by (auto simp: heap_typed_def cppio_new_manager_def cppio_new_message_def cppio_create_messageprotocol_def return_line_def
      return_acceptor_def typed_by_simps less_Suc_eq split: option.splits)

lemma return_null:
  "return_line h l = (h', r) \<Longrightarrow> h' = h \<and> r = Null \<or> (\<exists>a. r = Pointer a)"
  "return_acceptor h x = (h', r) \<Longrightarrow> h' = h \<and> r = Null \<or> (\<exists>a. r = Pointer a)"
  by (auto simp: return_line_def return_acceptor_def split: option.splits)

lemma heap_typed_destroy:
  assumes "heap_typed \<Gamma> h"
  shows "has_type \<Gamma> (Some a) Message_ptr \<Longrightarrow> heap_typed (\<Gamma>(a := None)) (h\<lparr>c_messages := (c_messages h)(a := None)\<rparr>)"
    and "has_type \<Gamma> (Some a) Line_ptr \<Longrightarrow> heap_typed (\<Gamma>(a := None)) (h\<lparr>c_lines := (c_lines h)(a := None)\<rparr>)"
    and "has_type \<Gamma> (Some a) Acceptor_ptr \<Longrightarrow> heap_typed (\<Gamma>(a := None)) (h\<lparr>c_acceptors := (c_acceptors h)(a := None)\<rparr>)"
    and "has_type \<Gamma> (Some a) (Protocol_ptr l) \<Longrightarrow> heap_typed (\<Gamma>(a := None)) (h\<lparr>c_protocols := (c_protocols h)(a := None)\<rparr>)"
  using assms by (auto simp: heap_typed_def has_type_def typed_by_simps)

lemma c_created_eq:
  "c_created ret h x = Inr (h', w', r) \<longleftrightarrow> (\<exists>y. x = (w', Inr y) \<and> ret h y = (h', r))"
  by (cases x) (auto simp: c_created_def split_beta prod_eq_iff)

lemma c_created_typed:
  assumes "heap_typed \<Gamma> h" and "destroyed c = None"
  shows "c_created return_line h x = Inr (h', w', r) \<Longrightarrow> created_type c = Some Line_ptr \<Longrightarrow> heap_typed (retype \<Gamma> c r) h'"
    and "c_created return_acceptor h y = Inr (h', w', r) \<Longrightarrow> created_type c = Some Acceptor_ptr \<Longrightarrow> heap_typed (retype \<Gamma> c r) h'"
proof -
  show "heap_typed (retype \<Gamma> c r) h'" if r: "c_created return_line h x = Inr (h', w', r)" "created_type c = Some Line_ptr"
  proof -
    obtain y where y: "return_line h y = (h', r)" using r(1) by (auto simp: c_created_eq)
    from return_null(1) [OF this] r(2) y heap_typed_new(4) [OF assms(1), of y h'] assms show ?thesis
      by (auto simp: retype_simps)
  qed
  show "heap_typed (retype \<Gamma> c r) h'" if r: "c_created return_acceptor h y = Inr (h', w', r)" "created_type c = Some Acceptor_ptr"
  proof -
    obtain z where z: "return_acceptor h z = (h', r)" using r(1) by (auto simp: c_created_eq)
    from return_null(2) [OF this] r(2) z heap_typed_new(5) [OF assms(1), of z h'] assms show ?thesis
      by (auto simp: retype_simps)
  qed
qed

lemma map_sum_id_eq:
  "map_sum id f x = Inl e \<longleftrightarrow> x = Inl e" "map_sum id f x = Inr y \<longleftrightarrow> (\<exists>z. x = Inr z \<and> y = f z)"
  by (cases x; auto)+

lemma c_exec_preserves:
  assumes "heap_typed \<Gamma> h" and "call_typed \<Gamma> c" and "c_exec os ws h w c = Some (Inr (h', w', r))"
  shows "heap_typed (retype \<Gamma> c r) h'"
proof (cases c)
  case (Read p q)
  then have "\<exists>m. h' = put_message h q m" using assms(3)
    by (auto simp: map_sum_id_eq split: sum.splits)
  with assms(1,2) Read show ?thesis by (auto simp: heap_typed_put retype_simps)
next
  case (Send p q)
  then have "h' = h" using assms(3) by (auto simp: map_sum_id_eq split: sum.splits)
  with assms(1) Send show ?thesis by (simp add: retype_simps)
next
  case (Destroy_message p)
  with assms heap_typed_destroy(1) [OF assms(1)] show ?thesis
    by (cases p) (auto simp: cppio_destroy_message_def retype_simps)
next
  case (Destroy_protocol p)
  with assms heap_typed_destroy(4) [OF assms(1)] show ?thesis
    by (cases p) (auto simp: cppio_destroy_messageprotocol_def retype_simps)
next
  case (C_destroy_line p)
  with assms heap_typed_destroy(2) [OF assms(1)] show ?thesis by (cases p) (auto simp: retype_simps)
next
  case (C_destroy_acceptor p)
  with assms heap_typed_destroy(3) [OF assms(1)] show ?thesis by (cases p) (auto simp: retype_simps)
next
  case (C_create_client p address accs)
  with assms(3) show ?thesis by (auto intro: c_created_typed(1) [OF assms(1)])
next
  case (C_create_server p address)
  with assms(3) show ?thesis by (auto intro: c_created_typed(2) [OF assms(1)])
next
  case (C_wait_connection p timeout turns)
  with assms(3) show ?thesis by (auto intro: c_created_typed(1) [OF assms(1)])
qed (use assms heap_typed_new(1-3) [OF assms(1)] in \<open>auto simp: heap_typed_put retype_simps split: prod.splits\<close>)

end
