(* ===== verification/CSafety.thy ===== *)
theory CSafety
  imports CObjects
begin

text \<open>
  Type safety of the whole C interface. A caller that keeps to the convention of the theory \<open>CObjects\<close> (pointers of the right
  kind that are still alive, a protocol only while its line is) makes the library follow no null or dangling pointer,
  neither one of the caller's nor one inside the library: the inter-thread lines the caller holds are connected, no two
  pointers are to the same one, and the registry keeps its invariant.
\<close>

section \<open>Failures through pointers\<close>

definition bad_pointer :: "failure \<Rightarrow> bool" where
  "bad_pointer e \<longleftrightarrow> e = Undefined NullPointer \<or> e = Undefined DanglingPointer"

lemma bad_pointer_simps [simp]:
  "\<not> bad_pointer Blocked" "\<not> bad_pointer AssertionFailed" "\<not> bad_pointer (Throw x)"
  "\<not> bad_pointer (Undefined OutOfBounds)" "\<not> bad_pointer (Undefined UnterminatedString)"
  "\<not> bad_pointer (Undefined IntegerOverflow)"
  by (simp_all add: bad_pointer_def)

text \<open>A result that is a value with a property, or a failure not through a pointer.\<close>

definition sound :: "('x \<Rightarrow> bool) \<Rightarrow> failure + 'x \<Rightarrow> bool" where
  "sound P r \<longleftrightarrow> (case r of Inl e \<Rightarrow> \<not> bad_pointer e | Inr x \<Rightarrow> P x)"

lemma sound_simps [simp]: "sound P (Inl e) \<longleftrightarrow> \<not> bad_pointer e" "sound P (Inr x) \<longleftrightarrow> P x"
  by (simp_all add: sound_def)

lemma sound_bind: "sound P r \<Longrightarrow> (\<And>x. P x \<Longrightarrow> sound Q (f x)) \<Longrightarrow> sound Q (bind_res r f)"
  by (cases r) simp_all

lemma sound_mono: "sound P r \<Longrightarrow> (\<And>x. P x \<Longrightarrow> Q x) \<Longrightarrow> sound Q r"
  by (cases r) simp_all

lemma sound_mem [simp]: "sound (\<lambda>_. True) (mem_write m off src n)"
  by (simp add: mem_write_def)

section \<open>The registry only grows\<close>

definition connected_to :: "inproc \<Rightarrow> nat \<Rightarrow> bool" where
  "connected_to st l \<longleftrightarrow> (\<exists>line. lines st l = Some line \<and> m_in line \<noteq> None)"

definition grows :: "inproc \<Rightarrow> inproc \<Rightarrow> bool" where
  "grows st st' \<longleftrightarrow> inproc_inv st' \<and> (\<forall>l. lines st l \<noteq> None \<longrightarrow> lines st' l \<noteq> None) \<and>
     (\<forall>l. connected_to st l \<longrightarrow> connected_to st' l) \<and> (\<forall>a. acceptors st a \<noteq> None \<longrightarrow> acceptors st' a \<noteq> None)"

lemma grows_refl [simp]: "inproc_inv st \<Longrightarrow> grows st st"
  by (simp add: grows_def)

lemma grows_trans: "grows st st1 \<Longrightarrow> grows st1 st2 \<Longrightarrow> grows st st2"
  by (auto simp: grows_def)

lemma same_lines_grow: "lines st' = lines st \<Longrightarrow> acceptors st' = acceptors st \<Longrightarrow> inproc_inv st' \<Longrightarrow> grows st st'"
  by (simp add: grows_def connected_to_def)

lemma read_sound:
  assumes "inproc_inv st" and "connected_to st l"
  shows "sound (\<lambda>(st', _). grows st st') (InprocLine_read st l n ws)"
proof (cases "InprocLine_read st l n ws")
  case (Inl e)
  obtain line where "lines st l = Some line" "m_in line \<noteq> None" using assms(2) by (auto simp: connected_to_def)
  from InprocLine_read_safe [OF assms(1) this, of n ws] Inl show ?thesis by auto
next
  case (Inr x)
  obtain st' out rc ws' where x: "x = (st', out, rc, ws')" by (cases x)
  have "lines st' = lines st" "acceptors st' = acceptors st" using Inr x by (auto simp: InprocLine_read_def)
  with Inr x read_line [OF assms(1)] show ?thesis by (simp add: same_lines_grow)
qed

lemma write_sound:
  assumes "inproc_inv st" and "connected_to st l"
  shows "sound (\<lambda>(st', _). grows st st') (InprocLine_write st l bs ws)"
proof (cases "InprocLine_write st l bs ws")
  case (Inl e)
  obtain line where "lines st l = Some line" "m_in line \<noteq> None" using assms(2) by (auto simp: connected_to_def)
  from InprocLine_write_safe [OF assms(1) this, of bs ws] Inl show ?thesis by auto
next
  case (Inr x)
  obtain st' rc ws' where x: "x = (st', rc, ws')" by (cases x)
  have "lines st' = lines st" "acceptors st' = acceptors st" using Inr x by (auto simp: InprocLine_write_def)
  with Inr x write_line [OF assms(1)] show ?thesis by (simp add: same_lines_grow)
qed

lemma setOption_sound:
  assumes "inproc_inv st" and "connected_to st l"
  shows "sound (grows st) (InprocLine_setOption st l option v)"
proof (cases "InprocLine_setOption st l option v")
  case (Inl e)
  with assms(2) show ?thesis
    by (auto simp: InprocLine_setOption_def connected_to_def deref_def split: LineOption.splits)
next
  case (Inr st')
  then have "\<forall>k. connected_to st k \<longrightarrow> connected_to st' k" "acceptors st' = acceptors st"
    "\<forall>k. lines st k \<noteq> None \<longrightarrow> lines st' k \<noteq> None"
    by (cases option; auto simp: InprocLine_setOption_def connected_to_def deref_def split: option.split_asm)+
  with Inr setOption_inv [OF assms(1) Inr] show ?thesis by (simp add: grows_def)
qed

lemma accept_sound:
  assumes "inproc_inv st" and "acceptors st a \<noteq> None"
  shows "sound (\<lambda>(st', r). grows st st' \<and> (\<forall>s. r = Some s \<longrightarrow> connected_to st' s \<and> \<not> connected_to st s))
    (InprocAcceptor_accept st a)"
proof -
  obtain address where a: "acceptors st a = Some address" using assms(2) by auto
  have new: "lines st (Suc (Suc (fresh st))) = None" using assms(1) by (simp add: inproc_inv_def ids_ok_def)
  from accept_cases [OF assms(1) a] show ?thesis
  proof (elim disjE exE conjE)
    fix pre l post line
    assume l: "gs_connectQueue st = pre @ l # post" "lines st l = Some line"
      "InprocAcceptor_accept st a = Inr (paired st l line (pre @ post), Some (fresh st + 2))"
    have "grows st (paired st l line (pre @ post))" "connected_to (paired st l line (pre @ post)) (fresh st + 2)"
      using paired_inv [OF assms(1) l(1,2)] by (auto simp: grows_def connected_to_def paired_def)
    with l(3) new show ?thesis by (simp add: connected_to_def)
  qed (use assms(1) in simp)
qed

lemma enqueue_grows:
  assumes "inproc_inv st"
  shows "grows st (fst (createClient_enqueue st address))"
    and "lines (fst (createClient_enqueue st address)) (snd (createClient_enqueue st address)) \<noteq> None"
    and "\<not> connected_to st (snd (createClient_enqueue st address))"
proof -
  have "lines st (fresh st) = None" using assms by (simp add: inproc_inv_def ids_ok_def)
  then show "grows st (fst (createClient_enqueue st address))"
    "lines (fst (createClient_enqueue st address)) (snd (createClient_enqueue st address)) \<noteq> None"
    "\<not> connected_to st (snd (createClient_enqueue st address))"
    using client_inv [OF assms, of address]
    by (auto simp: grows_def connected_to_def createClient_enqueue_def InprocLine_client_def)
qed

lemma enqueue_all_grows: "inproc_inv st \<Longrightarrow> grows st (enqueue_all st as)"
proof (induction as arbitrary: st)
  case (Cons a as)
  from Cons.IH [OF client_inv [OF Cons.prems]] enqueue_grows(1) [OF Cons.prems, of a] show ?case
    by (auto intro: grows_trans)
qed simp

lemma waitConnection_sound:
  "inproc_inv st \<Longrightarrow> acceptors st a \<noteq> None \<Longrightarrow>
   sound (\<lambda>(st', r). grows st st' \<and> (\<forall>s. r = Some s \<longrightarrow> connected_to st' s \<and> \<not> connected_to st s))
     (InprocAcceptor_waitConnection st a t turns)"
proof (induction turns arbitrary: st)
  case Nil
  with accept_sound show ?case by simp
next
  case (Cons turn turns)
  obtain elapsed clients where turn: "turn = (elapsed, clients)" by (cases turn)
  let ?P = "\<lambda>st (st', r). grows st st' \<and> (\<forall>s. r = Some s \<longrightarrow> connected_to st' s \<and> \<not> connected_to st s)"
  show ?case unfolding turn InprocAcceptor_waitConnection.simps
  proof (rule sound_bind [OF accept_sound [OF Cons.prems]], clarify)
    fix st1 r
    assume g: "grows st st1" "\<forall>s. r = Some s \<longrightarrow> connected_to st1 s \<and> \<not> connected_to st s"
    then have inv: "inproc_inv st1" "acceptors st1 a \<noteq> None" using Cons.prems(2) by (auto simp: grows_def)
    note later = enqueue_all_grows [OF inv(1), of clients]
    have "sound (?P (enqueue_all st1 clients)) (InprocAcceptor_waitConnection (enqueue_all st1 clients) a t turns)"
      using later inv(2) by (intro Cons.IH) (auto simp: grows_def)
    then have "sound (?P st) (InprocAcceptor_waitConnection (enqueue_all st1 clients) a t turns)"
    proof (rule sound_mono, clarify)
      fix st2 s
      assume "grows (enqueue_all st1 clients) st2"
        "\<forall>u. s = Some u \<longrightarrow> connected_to st2 u \<and> \<not> connected_to (enqueue_all st1 clients) u"
      then show "grows st st2 \<and> (\<forall>u. s = Some u \<longrightarrow> connected_to st2 u \<and> \<not> connected_to st u)"
        using g(1) later by (metis grows_def grows_trans)
    qed
    with g show "sound (?P st) (case r of Some s \<Rightarrow> Inr (st1, Some s) | None \<Rightarrow>
        if t * 1000000 - int elapsed < 0 then Inr (st1, None)
        else InprocAcceptor_waitConnection (enqueue_all st1 clients) a t turns)"
      by (cases r) simp_all
  qed
qed

lemma waitForConnection_sound:
  "inproc_inv st \<Longrightarrow> lines st l \<noteq> None \<Longrightarrow> \<forall>a \<in> set as. acceptors st a \<noteq> None \<Longrightarrow>
   sound (\<lambda>st'. grows st st' \<and> connected_to st' l) (InprocLine_waitForConnection st l as)"
proof (induction as arbitrary: st)
  case Nil
  then show ?case by (auto simp: InprocLine_connected_def deref_def connected_to_def)
next
  case (Cons a as)
  obtain line where l: "lines st l = Some line" using Cons.prems(2) by auto
  then have c: "InprocLine_connected st l = Inr (m_in line \<noteq> None \<and> m_out line \<noteq> None)"
    by (simp add: InprocLine_connected_def deref_def)
  show ?case
  proof (cases "m_in line \<noteq> None \<and> m_out line \<noteq> None")
    case True
    with c l Cons.prems(1) show ?thesis by (simp add: connected_to_def)
  next
    case False
    have a: "acceptors st a \<noteq> None" using Cons.prems(3) by simp
    have "sound (\<lambda>st'. grows st st' \<and> connected_to st' l)
        (bind_res (InprocAcceptor_accept st a) (\<lambda>(st', _). InprocLine_waitForConnection st' l as))"
    proof (rule sound_bind [OF accept_sound [OF Cons.prems(1) a]], clarify)
      fix st1 :: inproc and r :: "nat option"
      assume g: "grows st st1"
      then have "sound (\<lambda>st'. grows st1 st' \<and> connected_to st' l) (InprocLine_waitForConnection st1 l as)"
        using Cons.prems(2,3) by (intro Cons.IH) (auto simp: grows_def)
      then show "sound (\<lambda>st'. grows st st' \<and> connected_to st' l) (InprocLine_waitForConnection st1 l as)"
        by (rule sound_mono) (use g in \<open>auto intro: grows_trans\<close>)
    qed
    with c False show ?thesis by auto
  qed
qed

lemma createClient_sound:
  assumes "inproc_inv st" and "\<forall>a \<in> set as. acceptors st a \<noteq> None"
  shows "sound (\<lambda>(st', l). grows st st' \<and> connected_to st' l \<and> \<not> connected_to st l) (InprocLineFactory_createClient st address as)"
proof -
  obtain st1 l where e: "createClient_enqueue st address = (st1, l)" by fastforce
  note q = enqueue_grows [OF assms(1), of address, unfolded e fst_conv snd_conv]
  have "sound (\<lambda>st'. grows st1 st' \<and> connected_to st' l) (InprocLine_waitForConnection st1 l as)"
    using q assms(2) by (intro waitForConnection_sound) (auto simp: grows_def)
  then show ?thesis
    unfolding InprocLineFactory_createClient_def e Let_def prod.case
    by (rule sound_bind) (use q in \<open>auto intro: grows_trans\<close>)
qed

lemma createServer_sound:
  assumes "inproc_inv st"
  shows "sound (\<lambda>(st', r). grows st st' \<and> (\<forall>a. r = Some a \<longrightarrow> acceptors st' a \<noteq> None \<and> acceptors st a = None))
    (InprocLineFactory_createServer st address)"
proof -
  have "acceptors st (fresh st) = None" using assms by (simp add: inproc_inv_def ids_ok_def)
  then show ?thesis
    using assms createServer_inv [OF assms, of address]
    by (auto simp: createServer_eq [OF assms] grows_def connected_to_def)
qed

section \<open>Messages over a sound line\<close>

text \<open>
  A line whose accesses keep \<open>P\<close> and do not fail through a pointer. The protocol over it keeps \<open>P\<close> as well, and adds no
  failure through a pointer.
\<close>

locale sound_line =
  fixes rd :: "'s line_read" and wr :: "'s line_write" and P :: "'s \<Rightarrow> bool"
  assumes read_keeps: "P s \<Longrightarrow> sound (\<lambda>(s', _). P s') (rd s n)"
    and write_keeps: "P s \<Longrightarrow> sound (\<lambda>(s', _). P s') (wr s bs)"
begin

lemma fill_sound: "P s \<Longrightarrow> sound (\<lambda>(s', _). P s') (fill rd s buf k)"
proof (induction "length buf - k" arbitrary: s buf k rule: less_induct)
  case less
  show ?case
  proof (cases "k < length buf")
    case True
    have "sound (\<lambda>(s', _). P s')
        (bind_res (rd s (length buf - k)) (\<lambda>(s', out, rc).
         bind_res (mem_write buf k out (length out)) (\<lambda>buf'.
           let result = to_int32 rc in
           if result \<le> 0 then Inr (s', Inl result) else fill rd s' buf' (k + nat result))))"
    proof (rule sound_bind [OF read_keeps [OF less.prems]], clarify)
      fix s1 out and rc :: int
      assume "P s1"
      have "sound (\<lambda>b. length b = length buf) (mem_write buf k out (length out))"
        by (cases "mem_write buf k out (length out)") (auto simp: mem_write_def split: if_splits)
      then show "sound (\<lambda>(s', _). P s')
          (bind_res (mem_write buf k out (length out)) (\<lambda>buf'.
             let result = to_int32 rc in
             if result \<le> 0 then Inr (s1, Inl result) else fill rd s1 buf' (k + nat result)))"
      proof (rule sound_bind)
        fix buf' :: "byte list"
        assume "length buf' = length buf"
        with less.hyps [of buf' "k + nat (to_int32 rc)" s1] True \<open>P s1\<close>
        show "sound (\<lambda>(s', _). P s')
            (let result = to_int32 rc in if result \<le> 0 then Inr (s1, Inl result) else fill rd s1 buf' (k + nat result))"
          by (auto simp: Let_def)
      qed
    qed
    with True show ?thesis by (subst fill.simps) simp
  qed (use less.prems in \<open>simp add: fill.simps\<close>)
qed

lemma read_loop_sound: "P s \<Longrightarrow> sound (\<lambda>(s', _). P s') (read_loop rd s n m)"
proof (induction n arbitrary: s m)
  case (Suc n)
  have last: "sound (\<lambda>(s', _). P s') (bind_res (fill rd s1 (replicate (le_value word) 0) 0) (\<lambda>(s2, r2).
      case r2 of Inl rc \<Rightarrow> Inr (s2, m, rc)
      | Inr data \<Rightarrow> read_loop rd s2 n (Message_addFrame m (Frame_move data))))" if "P s1" for s1 word
    by (rule sound_bind [OF fill_sound [OF that]]) (auto simp: Suc.IH split: sum.splits)
  show ?case unfolding read_loop.simps
    by (rule sound_bind [OF fill_sound [OF Suc.prems]]) (auto simp: last split: sum.splits)
qed simp

lemma readMessage_sound:
  assumes "P s"
  shows "sound (\<lambda>(s', _). P s') (MessageProtocol_readMessage rd s m)"
proof -
  have "sound (\<lambda>(s', _). P s') (bind_res (fill rd s (replicate 4 0) 0) (\<lambda>(s1, r).
      case r of Inl rc \<Rightarrow> Inr (s1, m, rc) | Inr word \<Rightarrow> read_loop rd s1 (le_value word) m))"
    by (rule sound_bind [OF fill_sound [OF assms]]) (auto simp: read_loop_sound split: sum.splits)
  then show ?thesis by (simp add: MessageProtocol_readMessage_def)
qed

lemma send_loop_sound:
  assumes "send_loop wr' s buffer data towrite = Some r"
  shows "wr' = wr \<Longrightarrow> P s \<Longrightarrow> sound (\<lambda>(s', _). P s') r"
  using assms
proof (induction wr' s buffer data towrite r rule: send_loop.raw_induct [rotated, consumes 1, case_names step])
  case (step loop wr1 s buffer data towrite r)
  let ?bs = "take (nat towrite) (drop (nat data) buffer)"
  have keeps: "sound (\<lambda>(s', _). P s') (wr s ?bs)" using step.prems by (simp add: write_keeps)
  show ?case
  proof (cases "wr s ?bs")
    case (Inl e)
    then have "r = Inl e \<or> r = Inl (Undefined OutOfBounds) \<or> r = Inr (s, 1)"
      using step.hyps step.prems by (simp split: if_splits)
    with keeps Inl step.prems show ?thesis by auto
  next
    case (Inr x)
    with keeps have "P (fst x)" by (auto simp: split_beta)
    with step Inr show ?thesis by (auto split: if_splits)
  qed
qed

lemma sendMessage_sound:
  assumes "P s" and "MessageProtocol_sendMessage wr s m = Some r"
  shows "sound (\<lambda>(s', _). P s') r"
proof (cases "Message_writeMessage m (replicate (Message_messageSize m) 0)")
  case (Inl e)
  have "sound (\<lambda>_. True) (write_frames buffer b fs)" for buffer b fs
  proof (induction fs arbitrary: buffer b)
    case (Cons f fs)
    then show ?case unfolding write_frames.simps by (auto intro!: sound_bind [OF sound_mem])
  qed simp
  then have "sound (\<lambda>_. True) (Message_writeMessage m (replicate (Message_messageSize m) 0))"
    unfolding Message_writeMessage_def by (auto intro!: sound_bind [OF sound_mem])
  with Inl assms(2) show ?thesis by (auto simp: MessageProtocol_sendMessage_def)
next
  case (Inr buffer)
  with assms send_loop_sound show ?thesis by (simp add: MessageProtocol_sendMessage_def)
qed

end

section \<open>The virtual functions\<close>

definition ready :: "inproc \<Rightarrow> any_line \<Rightarrow> bool" where
  "ready st line \<longleftrightarrow> (case line of Inproc_line l \<Rightarrow> connected_to st l | _ \<Rightarrow> True)"

definition alive :: "inproc \<Rightarrow> any_acceptor \<Rightarrow> bool" where
  "alive st acceptor \<longleftrightarrow> (case acceptor of Inproc_acceptor a \<Rightarrow> acceptors st a \<noteq> None | _ \<Rightarrow> True)"

lemma ready_simps [simp]:
  "ready st (Inproc_line l) \<longleftrightarrow> connected_to st l" "ready st (Unix_line s)" "ready st (Tcp_line s)"
  "alive st (Inproc_acceptor a) \<longleftrightarrow> acceptors st a \<noteq> None" "alive st (Unix_acceptor s)" "alive st (Tcp_acceptor s)"
  by (simp_all add: ready_def alive_def)

lemma ready_grows: "grows st st' \<Longrightarrow> ready st line \<Longrightarrow> ready st' line"
  by (cases line) (auto simp: ready_def grows_def)

lemma IoLine_read_sound:
  assumes "inproc_inv (fst w)" and "ready (fst w) line"
  shows "sound (\<lambda>(w', _). grows (fst w) (fst w')) (IoLine_read os ws line w n)"
proof (cases line)
  case (Inproc_line l)
  then have "connected_to (fst w) l" using assms(2) by (simp add: ready_def)
  from read_sound [OF assms(1) this] Inproc_line show ?thesis
    by (auto simp: IoLine_read_def intro!: sound_bind)
qed (use assms in \<open>auto simp: IoLine_read_def UnixSocket_read_def TcpSocket_read_def split_beta\<close>)

lemma IoLine_write_sound:
  assumes "inproc_inv (fst w)" and "ready (fst w) line"
  shows "sound (\<lambda>(w', _). grows (fst w) (fst w')) (IoLine_write os ws line w bs)"
proof (cases line)
  case (Inproc_line l)
  then have "connected_to (fst w) l" using assms(2) by (simp add: ready_def)
  from write_sound [OF assms(1) this] Inproc_line show ?thesis
    by (auto simp: IoLine_write_def intro!: sound_bind)
qed (use assms in \<open>auto simp: IoLine_write_def UnixSocket_write_def TcpSocket_write_def split_beta\<close>)

lemma IoLine_setOption_sound:
  assumes "inproc_inv (fst w)" and "ready (fst w) line"
  shows "sound (\<lambda>w'. grows (fst w) (fst w')) (IoLine_setOption os line w option data)"
proof (cases line)
  case (Inproc_line l)
  then have "connected_to (fst w) l" using assms(2) by (simp add: ready_def)
  from setOption_sound [OF assms(1) this] Inproc_line show ?thesis
    by (auto simp: IoLine_setOption_def intro!: sound_bind)
qed (use assms in \<open>auto simp: IoLine_setOption_def UnixSocket_setOption_def TcpSocket_setOption_def split: LineOption.splits\<close>)

interpretation any_line: sound_line "IoLine_read os ws line" "IoLine_write os ws line" "\<lambda>w. grows st (fst w) \<and> ready (fst w) line"
  for os ws line st
proof unfold_locales
  fix w :: "'a world" and n :: nat and bs :: "byte list"
  assume w: "grows st (fst w) \<and> ready (fst w) line"
  then have inv: "inproc_inv (fst w)" by (simp add: grows_def)
  have later: "grows st (fst w') \<and> ready (fst w') line" if "grows (fst w) (fst w')" for w' :: "'a world"
    using that w by (auto intro: grows_trans ready_grows)
  show "sound (\<lambda>(w', _). grows st (fst w') \<and> ready (fst w') line) (IoLine_read os ws line w n)"
    by (rule sound_mono [OF IoLine_read_sound [OF inv]]) (use w later in auto)
  show "sound (\<lambda>(w', _). grows st (fst w') \<and> ready (fst w') line) (IoLine_write os ws line w bs)"
    by (rule sound_mono [OF IoLine_write_sound [OF inv]]) (use w later in auto)
qed

text \<open>The end of a line takes nothing but the line away.\<close>

lemma destroy_sound:
  assumes "inproc_inv st" and "connected_to st l"
  shows "\<exists>st'. InprocLine_destroy st l = Inr st' \<and> inproc_inv st' \<and> acceptors st' = acceptors st \<and>
    (\<forall>k. k \<noteq> l \<longrightarrow> connected_to st k \<longrightarrow> connected_to st' k)"
proof -
  obtain line where line: "lines st l = Some line" "m_in line \<noteq> None" using assms(2) by (auto simp: connected_to_def)
  obtain i j qi qj where q: "m_in line = Some i" "m_out line = Some j" "queues st i = Some qi" "queues st j = Some qj"
    using line_queues [OF assms(1) line] by blast
  note d = destroy_eq [OF assms(1) line(1) q]
  from destroy_inv [OF assms(1) d] d show ?thesis by (simp add: connected_to_def)
qed

text \<open>A call that returns an object, or fails.\<close>

definition makes :: "(inproc \<Rightarrow> inproc \<Rightarrow> 'x \<Rightarrow> bool) \<Rightarrow> 'k world \<Rightarrow> 'k world \<times> (failure + 'x) \<Rightarrow> bool" where
  "makes Q w r \<longleftrightarrow> grows (fst w) (fst (fst r)) \<and> sound (Q (fst w) (fst (fst r))) (snd r)"

definition new_line :: "inproc \<Rightarrow> inproc \<Rightarrow> any_line option \<Rightarrow> bool" where
  "new_line st st' y \<longleftrightarrow> (\<forall>l. y = Some (Inproc_line l) \<longrightarrow> connected_to st' l \<and> \<not> connected_to st l)"

definition new_acceptor :: "inproc \<Rightarrow> inproc \<Rightarrow> any_acceptor option \<Rightarrow> bool" where
  "new_acceptor st st' y \<longleftrightarrow> (\<forall>a. y = Some (Inproc_acceptor a) \<longrightarrow> acceptors st' a \<noteq> None \<and> acceptors st a = None)"

lemmas new_defs = new_line_def new_acceptor_def

lemma makes_in_inproc:
  assumes "inproc_inv (fst w)" and "sound (\<lambda>(st', x). grows (fst w) st' \<and> Q (fst w) st' (f x)) r"
  shows "makes Q w (in_inproc w r f)"
  using assms by (cases r) (auto simp: makes_def in_inproc_def)

lemma makes_in_kernel:
  assumes "inproc_inv (fst w)" and "sound (\<lambda>x. Q (fst w) (fst w) (f x)) (snd r)"
  shows "makes Q w (in_kernel w r f)"
  using assms by (cases r; cases "snd r") (auto simp: makes_def in_kernel_def)

lemma makes_null: "makes Q w r \<Longrightarrow> (\<And>st'. Q (fst w) st' None) \<Longrightarrow> makes Q w (null_on_IoException r)"
  by (cases r; cases "snd r") (auto simp: makes_def null_on_IoException_def split: failure.splits)

section \<open>The manager\<close>

lemma unix_name_sound [simp]: "sound (\<lambda>_. True) (unix_name address)"
  unfolding unix_name_def Let_def by (rule sound_bind [where P = "\<lambda>_. True"]) (simp_all add: strlen_def)

lemma atoi_sound [simp]: "sound (\<lambda>_. True) (atoi s)"
  by (simp add: atoi_def Let_def split_beta)

lemma sound_Inl: "sound P r \<Longrightarrow> r = Inl e \<Longrightarrow> \<not> bad_pointer e"
  by simp

lemmas name_failures = unix_name_sound [THEN sound_Inl] atoi_sound [THEN sound_Inl]

lemma posix_factories_sound:
  "sound (\<lambda>_. True) (snd (UnixSocketFactory_createClient os k a))" "sound (\<lambda>_. True) (snd (UnixSocketFactory_createServer os k a))"
  "sound (\<lambda>_. True) (snd (TcpSocketFactory_createClient os k a))" "sound (\<lambda>_. True) (snd (TcpSocketFactory_createServer os k a))"
  by (auto simp: UnixSocketFactory_createClient_def UnixSocketFactory_createServer_def UnixSocket_new_def UnixSocket_connect_def
      UnixSocketAcceptor_new_def TcpSocketFactory_createClient_def TcpSocketFactory_createServer_def TcpSocket_new_def
      TcpSocket_connect_def TcpSocketAcceptor_new_def Let_def split_beta dest: name_failures split: prod.splits sum.splits)

lemma dispatch_makes:
  assumes "inproc_inv (fst w)" and "\<forall>f \<in> set fs. \<forall>b. makes Q w (create f w b)" and "\<And>st'. Q (fst w) st' None"
  shows "makes Q w (dispatch create fs w address delimiter)"
  using assms(2)
proof (induction fs)
  case (Cons f fs)
  have "makes Q w (case substr_from address (delimiter + 3) of Inl e \<Rightarrow> (w, Inl e) | Inr b \<Rightarrow> create f w b)"
    using Cons.prems assms(1) by (simp add: substr_from_def makes_def)
  with Cons assms(3) show ?case by (auto intro: makes_null)
qed (use assms in \<open>simp add: makes_def\<close>)

lemma manager_makes:
  assumes "inproc_inv (fst w)" and "\<And>f b. f \<in> set fs \<Longrightarrow> makes Q w (create f w b)" and "\<And>st'. Q (fst w) st' None"
  shows "makes Q w (null_on_IoException (case find_first_of address ''://'' of
    None \<Rightarrow> (w, Inr None) | Some delimiter \<Rightarrow> dispatch create fs w address delimiter))"
proof (rule makes_null)
  have "makes Q w (dispatch create fs w address delimiter)" for delimiter
    using assms by (intro dispatch_makes) auto
  moreover have "makes Q w (w, Inr None)" using assms(1,3) by (simp add: makes_def)
  ultimately show "makes Q w (case find_first_of address ''://'' of
      None \<Rightarrow> (w, Inr None) | Some delimiter \<Rightarrow> dispatch create fs w address delimiter)"
    by (simp split: option.split)
qed (rule assms(3))

lemma create_client_makes:
  assumes "inproc_inv (fst w)" and "\<forall>a \<in> set accs. acceptors (fst w) a \<noteq> None"
  shows "makes new_line w (cppio_create_client (cppio_create_line_manager os accs) w address)"
proof -
  have "makes new_line w (factory_createClient f w b)" if "f \<in> set [inproc_factory accs, unix_factory os, tcp_factory os]" for f b
    using that createClient_sound [OF assms, of b] assms(1) posix_factories_sound(1,3) [of os "snd w" b]
    by (auto simp: inproc_factory_def unix_factory_def tcp_factory_def new_line_def elim!: sound_mono
        intro!: makes_in_inproc makes_in_kernel)
  then show ?thesis
    unfolding cppio_create_client_def cppio_create_line_manager_def LineManager.IoLineManager_createClient_def manager_factories
    by (rule manager_makes [OF assms(1)]) (simp_all add: new_line_def)
qed

lemma create_server_makes:
  assumes "inproc_inv (fst w)"
  shows "makes new_acceptor w (cppio_create_server (cppio_create_line_manager os accs) w address)"
proof -
  have "makes new_acceptor w (factory_createServer f w b)" if "f \<in> set [inproc_factory accs, unix_factory os, tcp_factory os]" for f b
    using that createServer_sound [OF assms, of b] assms posix_factories_sound(2,4) [of os "snd w" b]
    by (auto simp: inproc_factory_def unix_factory_def tcp_factory_def new_acceptor_def elim!: sound_mono
        intro!: makes_in_inproc makes_in_kernel)
  then show ?thesis
    unfolding cppio_create_server_def cppio_create_line_manager_def IoLineManager_createServer_def manager_factories
    by (rule manager_makes [OF assms]) (simp_all add: new_acceptor_def)
qed

lemma wait_connection_makes:
  assumes "inproc_inv (fst w)" and "alive (fst w) acceptor"
  shows "makes new_line w (cppio_acceptor_wait_connection os turns w (Some acceptor) timeout)"
proof (cases acceptor)
  case (Inproc_acceptor a)
  then have "acceptors (fst w) a \<noteq> None" using assms(2) by (simp add: alive_def)
  from waitConnection_sound [OF assms(1) this, of timeout turns] Inproc_acceptor assms(1) show ?thesis
    by (auto simp: cppio_acceptor_wait_connection_def IoAcceptor_waitConnection_def new_line_def elim!: sound_mono
        intro!: makes_in_inproc)
qed (use assms in \<open>auto simp: cppio_acceptor_wait_connection_def IoAcceptor_waitConnection_def makes_def new_line_def split_beta\<close>)

section \<open>The objects of a caller\<close>

text \<open>The inter-thread lines the caller holds are connected, the acceptors registered, and no object has two pointers to it.\<close>

definition world_ok :: "c_heap \<Rightarrow> inproc \<Rightarrow> bool" where
  "world_ok h st \<longleftrightarrow> inproc_inv st \<and>
     (\<forall>p line. c_lines h p = Some line \<longrightarrow> ready st line) \<and>
     (\<forall>p acceptor. c_acceptors h p = Some acceptor \<longrightarrow> alive st acceptor) \<and>
     (\<forall>p q l. c_lines h p = Some (Inproc_line l) \<longrightarrow> c_lines h q = Some (Inproc_line l) \<longrightarrow> p = q) \<and>
     (\<forall>p q a. c_acceptors h p = Some (Inproc_acceptor a) \<longrightarrow> c_acceptors h q = Some (Inproc_acceptor a) \<longrightarrow> p = q)"

lemma alive_grows: "grows st st' \<Longrightarrow> alive st acceptor \<Longrightarrow> alive st' acceptor"
  by (cases acceptor) (auto simp: alive_def grows_def)

lemma world_ok_grows:
  assumes "world_ok h st" and "grows st st'" and "c_lines h' = c_lines h" and "c_acceptors h' = c_acceptors h"
  shows "world_ok h' st'"
  using assms ready_grows [OF assms(2)] alive_grows [OF assms(2)] unfolding world_ok_def grows_def by auto

lemma put_message_frame [simp]: "c_lines (put_message h p m) = c_lines h" "c_acceptors (put_message h p m) = c_acceptors h"
  by (cases p; simp add: put_message_def)+

lemma new_frame:
  "cppio_new_manager h = (h', a) \<Longrightarrow> c_lines h' = c_lines h \<and> c_acceptors h' = c_acceptors h"
  "cppio_new_message h = (h', a) \<Longrightarrow> c_lines h' = c_lines h \<and> c_acceptors h' = c_acceptors h"
  "cppio_create_messageprotocol h line = (h', a) \<Longrightarrow> c_lines h' = c_lines h \<and> c_acceptors h' = c_acceptors h"
  by (auto simp: cppio_new_manager_def cppio_new_message_def cppio_create_messageprotocol_def)

lemma world_ok_line:
  assumes "world_ok h st" and "grows st st'" and "new_line st st' y"
  shows "world_ok (fst (return_line h y)) st'"
proof -
  have "world_ok h st'" using world_ok_grows [OF assms(1,2)] by simp
  moreover have "ready st' line" if "y = Some line" for line
    using that assms(3) by (cases line) (auto simp: new_line_def ready_def)
  moreover have "c_lines h p \<noteq> Some (Inproc_line l)" if "y = Some (Inproc_line l)" for p l
    using that assms(1,3) unfolding new_line_def world_ok_def by (metis ready_simps(1))
  ultimately show ?thesis by (auto simp: world_ok_def return_line_def split: option.split)
qed

lemma world_ok_acceptor:
  assumes "world_ok h st" and "grows st st'" and "new_acceptor st st' y"
  shows "world_ok (fst (return_acceptor h y)) st'"
proof -
  have "world_ok h st'" using world_ok_grows [OF assms(1,2)] by simp
  moreover have "alive st' acceptor" if "y = Some acceptor" for acceptor
    using that assms(3) by (cases acceptor) (auto simp: new_acceptor_def alive_def)
  moreover have "c_acceptors h p \<noteq> Some (Inproc_acceptor a)" if "y = Some (Inproc_acceptor a)" for p a
    using that assms(1,3) unfolding new_acceptor_def world_ok_def by (metis ready_simps(4))
  ultimately show ?thesis by (auto simp: world_ok_def return_acceptor_def split: option.split)
qed

lemma c_created_ok:
  assumes "makes Q w r" and "\<And>st' y. grows (fst w) st' \<Longrightarrow> Q (fst w) st' y \<Longrightarrow> world_ok (fst (ret h y)) st'"
  shows "sound (\<lambda>(h', w', _). world_ok h' (fst w')) (c_created ret h r)"
  using assms by (cases r; cases "snd r") (auto simp: makes_def c_created_def split_beta)

lemma destroy_line_ok:
  assumes "world_ok h (fst w)" and "c_lines h a = Some line"
  shows "\<exists>w'. cppio_destroy_line os w (Some line) = Inr w' \<and> world_ok (h\<lparr>c_lines := (c_lines h)(a := None)\<rparr>) (fst w')"
proof (cases line)
  case (Inproc_line l)
  then have "inproc_inv (fst w)" "connected_to (fst w) l" using assms by (fastforce simp: world_ok_def ready_def)+
  then obtain st' where st': "InprocLine_destroy (fst w) l = Inr st'" "inproc_inv st'" "acceptors st' = acceptors (fst w)"
    "\<forall>k. k \<noteq> l \<longrightarrow> connected_to (fst w) k \<longrightarrow> connected_to st' k" using destroy_sound by blast
  have "ready st' x" if "c_lines h p = Some x" "p \<noteq> a" for p x
  proof (cases x)
    case (Inproc_line k)
    then have "k \<noteq> l" using that assms(2) \<open>line = Inproc_line l\<close> assms(1) by (auto simp: world_ok_def)
    moreover have "ready (fst w) x" using assms(1) that(1) by (simp add: world_ok_def)
    ultimately show ?thesis using st'(4) Inproc_line by (simp add: ready_def)
  qed (simp_all add: ready_def)
  moreover have "alive st' = alive (fst w)" using st'(3) by (intro ext) (simp add: alive_def split: any_acceptor.split)
  ultimately have "world_ok (h\<lparr>c_lines := (c_lines h)(a := None)\<rparr>) st'"
    using st'(2) assms(1) by (auto simp: world_ok_def)
  with st'(1) Inproc_line show ?thesis by (simp add: cppio_destroy_line_def IoLine_destroy_def)
qed (use assms(1) in \<open>auto simp: cppio_destroy_line_def IoLine_destroy_def world_ok_def\<close>)

lemma destroy_acceptor_ok:
  assumes "world_ok h (fst w)" and "c_acceptors h p = Some acceptor"
  shows "world_ok (h\<lparr>c_acceptors := (c_acceptors h)(p := None)\<rparr>) (fst (cppio_destroy_acceptor os w (Some acceptor)))"
proof (cases acceptor)
  case (Inproc_acceptor a)
  let ?st = "InprocAcceptor_destroy (fst w) a"
  have inv: "inproc_inv ?st" using assms(1) by (auto simp: world_ok_def intro: acceptor_destroy_inv)
  have "alive ?st x" if "c_acceptors h q = Some x" "q \<noteq> p" for q x
  proof (cases x)
    case (Inproc_acceptor b)
    then have "b \<noteq> a" using that assms(2) \<open>acceptor = Inproc_acceptor a\<close> assms(1) by (auto simp: world_ok_def)
    moreover have "alive (fst w) x" using assms(1) that(1) by (simp add: world_ok_def)
    ultimately show ?thesis using Inproc_acceptor by (simp add: alive_def InprocAcceptor_destroy_def)
  qed (simp_all add: alive_def)
  moreover have "ready ?st = ready (fst w)"
    by (intro ext) (simp add: ready_def connected_to_def InprocAcceptor_destroy_def split: any_line.split)
  ultimately have "world_ok (h\<lparr>c_acceptors := (c_acceptors h)(p := None)\<rparr>) ?st"
    using inv assms(1) by (auto simp: world_ok_def)
  with Inproc_acceptor show ?thesis by (simp add: cppio_destroy_acceptor_def IoAcceptor_destroy_def)
qed (use assms(1) in \<open>auto simp: cppio_destroy_acceptor_def IoAcceptor_destroy_def world_ok_def\<close>)

section \<open>Calls\<close>

text \<open>The acceptors that run while a client waits are registered ones.\<close>

fun helpers_alive :: "'k world \<Rightarrow> c_call \<Rightarrow> bool" where
  "helpers_alive w (C_create_client _ _ accs) \<longleftrightarrow> (\<forall>a \<in> set accs. acceptors (fst w) a \<noteq> None)"
| "helpers_alive w _ \<longleftrightarrow> True"

lemma protocol_sound:
  assumes "world_ok h (fst w)" and "c_lines h a = Some line"
  shows "sound (\<lambda>(w', _). grows (fst w) (fst w'))
      (cppio_messageprotocol_read (line_read_at os ws h) (MessageProtocol_new (Some a)) w m)"
    and "cppio_messageprotocol_send (line_write_at os ws h) (MessageProtocol_new (Some a)) w m = Some r \<Longrightarrow>
      sound (\<lambda>(w', _). grows (fst w) (fst w')) r"
proof -
  note at = line_at [OF assms(2), of os ws]
  have w: "grows (fst w) (fst w) \<and> ready (fst w) line" using assms by (simp add: world_ok_def)
  from any_line.readMessage_sound [OF w, of os ws m]
  show "sound (\<lambda>(w', _). grows (fst w) (fst w'))
      (cppio_messageprotocol_read (line_read_at os ws h) (MessageProtocol_new (Some a)) w m)"
    unfolding cppio_messageprotocol_read_def impl_new at
    by (cases "MessageProtocol_readMessage (IoLine_read os ws line) w m") auto
  assume "cppio_messageprotocol_send (line_write_at os ws h) (MessageProtocol_new (Some a)) w m = Some r"
  then obtain r' where r': "MessageProtocol_sendMessage (IoLine_write os ws line) w m = Some r'"
    "r = map_sum id (map_prod id to_size) r'" by (auto simp: cppio_messageprotocol_send_def at)
  from any_line.sendMessage_sound [OF w r'(1)] show "sound (\<lambda>(w', _). grows (fst w) (fst w')) r"
    by (cases r') (auto simp: r'(2))
qed

lemma message_calls_sound [simp]:
  "sound (\<lambda>_. True) (cppio_message_add m buffer n)"
  "sound (\<lambda>_. True) (cppio_message_get_frame m i)" "sound (\<lambda>_. True) (cppio_message_get_frame_length m i)"
  by (simp_all add: cppio_message_add_def cppio_message_get_frame_def cppio_message_get_frame_length_def Frame_copy_def
      mem_read_def Message_frame_def)

lemmas sound_calls = message_calls_sound [THEN sound_bind]

lemma held_ok:
  assumes "world_ok h (fst w)"
  shows "c_deref (c_lines h) p = Inr l \<Longrightarrow> ready (fst w) l" and "c_deref (c_acceptors h) p = Inr a \<Longrightarrow> alive (fst w) a"
  using assms by (cases p; auto simp: c_deref_def world_ok_def split: option.splits)+

text \<open>The calls in groups, with what they need of the typing.\<close>

abbreviation keeps_world :: "failure + (c_heap \<times> 'k world \<times> c_result) \<Rightarrow> bool" where
  "keeps_world r \<equiv> sound (\<lambda>(h', w', _). world_ok h' (fst w')) r"

lemma create_calls_sound:
  assumes "heap_typed \<Gamma> h" and "world_ok h (fst w)" and "call_typed \<Gamma> c" and "helpers_alive w c"
    and "c_exec os ws h w c = Some r"
    and "c = C_create_client p address accs \<or> c = C_create_server p address \<or> c = C_wait_connection p timeout turns"
  shows "keeps_world r"
proof -
  have inv: "inproc_inv (fst w)" using assms(2) by (simp add: world_ok_def)
  from assms(6) show ?thesis
  proof (elim disjE)
    assume "c = C_create_client p address accs"
    with create_client_makes [OF inv, of accs os address] assms(3-5) deref_typed(1) [OF assms(1), of p]
    show ?thesis by (auto intro!: c_created_ok world_ok_line [OF assms(2)])
  next
    assume "c = C_create_server p address"
    with create_server_makes [OF inv, of os "[]" address] assms(3,5) deref_typed(1) [OF assms(1), of p]
    show ?thesis by (auto intro!: c_created_ok world_ok_acceptor [OF assms(2)])
  next
    assume c: "c = C_wait_connection p timeout turns"
    then obtain a where a: "c_deref (c_acceptors h) p = Inr a" using deref_typed(3) [OF assms(1)] assms(3) by auto
    from wait_connection_makes [OF inv held_ok(2) [OF assms(2) a], of os turns timeout] c assms(5) a
    show ?thesis by (auto intro!: c_created_ok world_ok_line [OF assms(2)])
  qed
qed

lemma line_calls_sound:
  assumes "world_ok h (fst w)" and "c_deref (c_lines h) p = Inr l" and "c_exec os ws h w c = Some r"
    and "c = C_line_read p n \<or> c = C_line_write p bs \<or> c = C_set_option p option data"
  shows "keeps_world r"
proof -
  have inv: "inproc_inv (fst w)" using assms(1) by (simp add: world_ok_def)
  note l = held_ok(1) [OF assms(1,2)] and stays = world_ok_grows [OF assms(1)]
  from assms(4) show ?thesis
    using assms(2,3) IoLine_read_sound [OF inv l, of os ws n] IoLine_write_sound [OF inv l, of os ws bs]
      IoLine_setOption_sound [OF inv l, of os "LineOption_cast option" data]
    by (elim disjE) (auto simp: cppio_line_read_def cppio_line_write_def cppio_line_set_option_def bind_res_assoc
        elim!: sound_bind intro!: stays)
qed

lemma protocol_calls_sound:
  assumes "heap_typed \<Gamma> h" and "world_ok h (fst w)" and "usable \<Gamma> p" and "has_type \<Gamma> q Message_ptr"
    and "c_exec os ws h w c = Some r" and "c = Send p q \<or> c = Read p q"
  shows "keeps_world r"
proof -
  obtain a l where a: "c_deref (c_protocols h) p = Inr (MessageProtocol_new (Some a))" "c_lines h a = Some l"
    using deref_usable [OF assms(1,3)] .
  obtain m where m: "c_deref (c_messages h) q = Inr m" using deref_typed(4) [OF assms(1,4)] by auto
  note stays = world_ok_grows [OF assms(2)]
  from assms(6) show ?thesis
  proof
    assume "c = Send p q"
    then obtain x where x: "cppio_messageprotocol_send (line_write_at os ws h) (MessageProtocol_new (Some a)) w m = Some x"
      "r = map_sum id (\<lambda>(w', n). (h, w', Size n)) x" using assms(5) a(1) m by auto
    from protocol_sound(2) [OF assms(2) a(2) x(1)] show ?thesis by (cases x) (auto simp: x(2) intro: stays)
  next
    let ?x = "cppio_messageprotocol_read (line_read_at os ws h) (MessageProtocol_new (Some a)) w m"
    assume "c = Read p q"
    then have "r = map_sum id (\<lambda>(w', m', n). (put_message h q m', w', Size n)) ?x" using assms(5) a(1) m by auto
    with protocol_sound(1) [OF assms(2) a(2), of os ws m] show ?thesis by (cases ?x) (auto intro: stays)
  qed
qed

lemma destroy_calls_sound:
  assumes "heap_typed \<Gamma> h" and "world_ok h (fst w)" and "call_typed \<Gamma> c" and "c_exec os ws h w c = Some r"
    and "c = C_destroy_line p \<or> c = C_destroy_acceptor p \<or> c = Destroy_message p \<or> c = Destroy_protocol p"
  shows "keeps_world r"
proof (cases p)
  case None
  with assms show ?thesis by (auto simp: cppio_destroy_message_def cppio_destroy_messageprotocol_def)
next
  case (Some a)
  have inv: "inproc_inv (fst w)" using assms(2) by (simp add: world_ok_def)
  note stays = world_ok_grows [OF assms(2) grows_refl [OF inv]]
  from assms(5) show ?thesis
  proof (elim disjE)
    assume c: "c = C_destroy_line p"
    then obtain l where "c_lines h a = Some l" "c_deref (c_lines h) p = Inr l"
      using deref_typed(2) [OF assms(1), of p] assms(3) Some by (auto simp: c_deref_def split: option.splits)
    with destroy_line_ok [OF assms(2), of a l os] c Some assms(4) show ?thesis by auto
  next
    assume c: "c = C_destroy_acceptor p"
    then obtain x where "c_acceptors h a = Some x" "c_deref (c_acceptors h) p = Inr x"
      using deref_typed(3) [OF assms(1), of p] assms(3) Some by (auto simp: c_deref_def split: option.splits)
    with destroy_acceptor_ok [OF assms(2), of a x os] c Some assms(4) show ?thesis by auto
  next
    assume "c = Destroy_message p"
    with assms(3,4) Some deref_typed(4) [OF assms(1), of p] show ?thesis
      by (auto simp: cppio_destroy_message_def intro!: stays)
  next
    assume "c = Destroy_protocol p"
    with assms(3,4) Some deref_typed(5) [OF assms(1), of p] show ?thesis
      by (auto simp: cppio_destroy_messageprotocol_def intro!: stays)
  qed
qed

lemma c_exec_sound:
  assumes "heap_typed \<Gamma> h" and "world_ok h (fst w)" and "call_typed \<Gamma> c" and "helpers_alive w c"
    and "c_exec os ws h w c = Some r"
  shows "keeps_world r"
proof -
  have inv: "inproc_inv (fst w)" using assms(2) by (simp add: world_ok_def)
  note stays = world_ok_grows [OF assms(2) grows_refl [OF inv]]
  note create = create_calls_sound [OF assms] and destroy = destroy_calls_sound [OF assms(1-3,5)]
  note line = line_calls_sound [OF assms(2) _ assms(5)]
  have message: "sound (\<lambda>_. True) (c_deref (c_messages h) p)" if "has_type \<Gamma> p Message_ptr" for p
    using deref_typed(4) [OF assms(1) that] by auto
  show ?thesis
  proof (cases c)
    case (C_line_read p n)
    then obtain l where "c_deref (c_lines h) p = Inr l" using deref_typed(2) [OF assms(1)] assms(3) by auto
    then show ?thesis by (rule line) (simp add: C_line_read)
  next
    case (C_line_write p bs)
    then obtain l where "c_deref (c_lines h) p = Inr l" using deref_typed(2) [OF assms(1)] assms(3) by auto
    then show ?thesis by (rule line) (simp add: C_line_write)
  next
    case (C_set_option p option data)
    then obtain l where "c_deref (c_lines h) p = Inr l" using deref_typed(2) [OF assms(1)] assms(3) by auto
    then show ?thesis by (rule line) (simp add: C_set_option)
  next
    case (Send p q)
    with assms(3) show ?thesis by (auto intro: protocol_calls_sound [OF assms(1,2) _ _ assms(5)])
  next
    case (Read p q)
    with assms(3) show ?thesis by (auto intro: protocol_calls_sound [OF assms(1,2) _ _ assms(5)])
  qed (use create destroy assms(3,5) in
    \<open>auto dest: new_frame intro!: stays sound_calls message [THEN sound_bind] split: prod.splits\<close>)
qed

section \<open>Sessions\<close>

text \<open>
  The states a caller reaches that makes calls its context allows, from the empty registry, while other threads use the
  registry in any way that leaves the caller's lines and acceptors alone and the kernel changes as it likes.
\<close>

inductive c_session :: "'k kernel \<Rightarrow> c_context \<Rightarrow> c_heap \<Rightarrow> 'k world \<Rightarrow> bool" for os where
  session_start: "c_session os Map.empty c_heap_empty (inproc_init, k)"
| session_call: "c_session os \<Gamma> h w \<Longrightarrow> call_typed \<Gamma> c \<Longrightarrow> helpers_alive w c \<Longrightarrow>
    c_exec os ws h w c = Some (Inr (h', w', r)) \<Longrightarrow> c_session os (retype \<Gamma> c r) h' w'"
| session_others: "c_session os \<Gamma> h (st, k) \<Longrightarrow> inproc_step st st' \<Longrightarrow>
    (\<And>p l. c_lines h p = Some (Inproc_line l) \<Longrightarrow> lines st' l \<noteq> None) \<Longrightarrow>
    (\<And>p a. c_acceptors h p = Some (Inproc_acceptor a) \<Longrightarrow> acceptors st' a \<noteq> None) \<Longrightarrow> c_session os \<Gamma> h (st', k')"

text \<open>No step disconnects a line that it leaves there.\<close>

lemma step_connected:
  assumes "inproc_step st st'" and "inproc_inv st" and "connected_to st l" and "lines st' l \<noteq> None"
  shows "connected_to st' l"
  using assms
proof (cases rule: inproc_step.cases)
  case (enqueue_client address k)
  with enqueue_grows(1) [OF assms(2), of address] assms(3) show ?thesis by (simp add: grows_def)
next
  case (create_server address r)
  with createServer_sound [OF assms(2), of address] assms(3) show ?thesis by (simp add: grows_def)
next
  case (accept_client a r)
  then have "acceptors st a \<noteq> None" by (auto simp: InprocAcceptor_accept_def deref_def split: option.splits)
  from accept_sound [OF assms(2) this] accept_client assms(3) show ?thesis by (simp add: grows_def)
next
  case (set_option k opt v)
  then show ?thesis using assms(3)
    by (cases opt) (auto simp: InprocLine_setOption_def connected_to_def deref_def split: option.split_asm)
next
  case (destroy_line k)
  then obtain line where line: "lines st k = Some line" "m_in line \<noteq> None"
    using destroyed_connected assms(2) by blast
  then obtain i j qi qj where "m_in line = Some i" "m_out line = Some j" "queues st i = Some qi" "queues st j = Some qj"
    using line_queues [OF assms(2)] by blast
  from destroy_eq [OF assms(2) line(1) this] destroy_line assms(3,4) show ?thesis by (auto simp: connected_to_def)
qed (auto simp: connected_to_def InprocLine_read_def InprocLine_write_def InprocAcceptor_destroy_def InprocLineFactory_destroy_def)

lemma session_ok:
  "c_session os \<Gamma> h w \<Longrightarrow> heap_typed \<Gamma> h \<and> world_ok h (fst w)"
proof (induction rule: c_session.induct)
  case (session_start k)
  show ?case
    by (simp add: heap_typed_def typed_by_def c_heap_empty_def world_ok_def inproc_init_inv)
next
  case (session_call \<Gamma> h w c ws h' w' r)
  with c_exec_preserves [of \<Gamma> h c os ws w] c_exec_sound [of \<Gamma> h w c os ws] show ?case by fastforce
next
  case (session_others \<Gamma> h st k st' k')
  then have inv: "inproc_inv st" and inv': "inproc_inv st'" using inproc_step_inv by (auto simp: world_ok_def)
  have "ready st' line" if "c_lines h p = Some line" for p line
  proof -
    have "ready st line" using that session_others.IH by (simp add: world_ok_def)
    with that session_others.hyps(3) step_connected [OF session_others.hyps(2) inv] show ?thesis by (cases line) auto
  qed
  moreover have "alive st' a" if "c_acceptors h p = Some a" for p a
    using that session_others by (cases a) auto
  ultimately show ?case using session_others.IH inv' by (auto simp: world_ok_def)
qed

section \<open>Properties\<close>

text \<open>
  C23 (c_calls_typed): type safety of the C interface. The caller starts with nothing, uses its pointers as what they were
  returned as, uses none after it was destroyed, and uses a protocol only while it has the line of the protocol; other threads may
  use the library, too. Then no call, whatever its addresses, sizes, timeouts and options, follows a null or dangling
  pointer, the caller's or one inside the library, and the heap stays typed and the registry keeps its invariant.
\<close>
theorem c_calls_typed:
  assumes "c_session os \<Gamma> h w" and "call_typed \<Gamma> c" and "helpers_alive w c" and "c_exec os ws h w c = Some r"
  shows "case r of
      Inl e \<Rightarrow> e \<noteq> Undefined NullPointer \<and> e \<noteq> Undefined DanglingPointer
    | Inr (h', w', x) \<Rightarrow> heap_typed (retype \<Gamma> c x) h' \<and> inproc_inv (fst w')"
proof -
  note ok = session_ok [OF assms(1)]
  from c_exec_sound [OF _ _ assms(2-4)] ok have "keeps_world r" by blast
  with c_exec_preserves [OF _ assms(2), of h os ws w] ok assms(4) show ?thesis
    by (cases r) (auto simp: bad_pointer_def world_ok_def)
qed

text \<open>A client that is connected by the acceptor of another thread.\<close>

theorem c_calls_typed_witness:
  "\<exists>h w h'. c_exec loop_kernel [] h w (C_create_client (Some 0) ''inproc://foo'' [0]) = Some (Inr (h', (connected, ([], {})), Pointer 1)) \<and>
     c_session loop_kernel [0 \<mapsto> Manager_ptr] h w \<and> heap_typed [0 \<mapsto> Manager_ptr, 1 \<mapsto> Line_ptr] h'"
proof -
  let ?k = "([], {}) :: byte list \<times> int set" and ?c = "C_create_client (Some 0) ''inproc://foo'' [0]"
  let ?h = "c_heap_empty\<lparr>c_managers := [0 \<mapsto> ()], c_next := 1\<rparr>"
  let ?h' = "?h\<lparr>c_lines := [1 \<mapsto> Inproc_line 1], c_next := 2\<rparr>"
  let ?st = "inproc_init\<lparr>acceptors := [0 \<mapsto> ''foo''], gs_acceptors := [0], fresh := 1\<rparr>"
  have exec: "c_exec loop_kernel ws c_heap_empty (inproc_init, ?k) C_create_manager = Some (Inr (?h, (inproc_init, ?k), Pointer 0))" for ws
    by (simp add: cppio_new_manager_def c_heap_empty_def)
  have "c_session loop_kernel [0 \<mapsto> Manager_ptr] ?h (inproc_init, ?k)"
    using session_call [OF session_start _ _ exec] by (simp add: retype_simps)
  moreover have "InprocLineFactory_createServer inproc_init ''foo'' = Inr (?st, Some 0)"
    by (simp add: InprocLineFactory_createServer_def inproc_init_def)
  ultimately have session: "c_session loop_kernel [0 \<mapsto> Manager_ptr] ?h (?st, ?k)"
    by (rule session_others [OF _ create_server]) (simp_all add: c_heap_empty_def)
  have "createClient_enqueue ?st ''foo'' = (served, 1)"
    by (simp add: served_eq createClient_enqueue_def InprocLine_client_def inproc_init_def)
  moreover have "InprocLine_connected served 1 = Inr False" "InprocLine_connected connected 1 = Inr True"
    using connected_lines(1) by (simp_all add: InprocLine_connected_def deref_def served_eq)
  ultimately have "InprocLineFactory_createClient ?st ''foo'' [0] = Inr (connected, 1)"
    by (simp add: InprocLineFactory_createClient_def connected_eq(2))
  then have "cppio_create_client (cppio_create_line_manager loop_kernel [0]) (?st, ?k) ''inproc://foo'' =
      ((connected, ?k), Inr (Some (Inproc_line 1)))"
    using schemes_routed [of "''foo''" "''x''" loop_kernel "[0]" "(?st, ?k)"]
    by (simp add: in_inproc_def cppio_create_line_manager_def plain_def)
  then have call: "c_exec loop_kernel [] ?h (?st, ?k) ?c = Some (Inr (?h', (connected, ?k), Pointer 1))"
    by (simp add: c_deref_def c_created_def return_line_def c_heap_empty_def)
  from c_calls_typed [OF session _ _ this] have "heap_typed [0 \<mapsto> Manager_ptr, 1 \<mapsto> Line_ptr] ?h'"
    by (simp add: has_type_def retype_simps)
  with call session show ?thesis by blast
qed

end
