(* ===== verification/GoBindings.thy ===== *)
theory GoBindings
  imports CObjects
begin

text \<open>
  The package \<^verbatim>\<open>cppio\<close> of bindings/go/cppio.go, which calls the C interface through cgo. A line or an acceptor of Go is a struct
  with the pointer the C function returned; messages and protocols are pointers into the heap of the theory \<open>CObjects\<close>.
  Of Go the model has what the package relies on: integers of 64 bits, the panic of \<^verbatim>\<open>&bytes[0]\<close> on an empty slice, the
  texts of \<^verbatim>\<open>fmt.Errorf\<close>, and finalizers. The garbage collector may run the finalizer of an object as soon as
  no pointer to the object is used any more, which is already the case while the C function called with a field
  of the object runs; the messages it finalizes at that moment are the argument \<open>fin\<close> of a call.
\<close>

section \<open>Errors\<close>

datatype go_failure = IndexOutOfRange | FromC failure

record cppioError =
  error_text :: string
  retCode :: int

definition go_eTimeout :: int where
  "go_eTimeout = - 1"

definition cppioError_Timeout :: "cppioError \<Rightarrow> bool" where
  "cppioError_Timeout e \<longleftrightarrow> retCode e = go_eTimeout"

definition newError :: "string \<Rightarrow> int \<Rightarrow> cppioError" where
  "newError e code = \<lparr>error_text = e, retCode = code\<rparr>"

section \<open>Calls\<close>

text \<open>
  A finalizer of a message destroys the object it points to. The conversion \<^verbatim>\<open>int(...)\<close> of a result gives back the sign that
  the \<^verbatim>\<open>size_t\<close> of a protocol function has lost.
\<close>

fun run_finalizers :: "c_heap \<Rightarrow> ptr list \<Rightarrow> failure + c_heap" where
  "run_finalizers h [] = Inr h"
| "run_finalizers h (p # ps) = bind_res (cppio_destroy_message h p) (\<lambda>h'. run_finalizers h' ps)"

type_synonym 'k go_call = "(go_failure + c_heap \<times> 'k world \<times> c_result) option"

definition cgo :: "'k kernel \<Rightarrow> wake list \<Rightarrow> ptr list \<Rightarrow> c_heap \<Rightarrow> 'k world \<Rightarrow> c_call \<Rightarrow> 'k go_call" where
  "cgo os ws fin h w c =
     (case run_finalizers h fin of
        Inl e \<Rightarrow> Some (Inl (FromC e))
      | Inr h' \<Rightarrow> map_option (map_sum FromC id) (c_exec os ws h' w c))"

definition go_then ::
    "'k go_call \<Rightarrow> (c_heap \<Rightarrow> 'k world \<Rightarrow> c_result \<Rightarrow> go_failure + 'r) \<Rightarrow> (go_failure + 'r) option" where
  "go_then r f = map_option (\<lambda>x. bind_res x (\<lambda>(h, w, v). f h w v)) r"

fun go_int :: "c_result \<Rightarrow> int" where
  "go_int (Size n) = to_ssize n"
| "go_int (Code rc) = rc"
| "go_int (Received _ rc) = rc"
| "go_int _ = 0"

fun go_pointer :: "c_result \<Rightarrow> ptr" where
  "go_pointer (Pointer a) = Some a"
| "go_pointer _ = None"

fun go_buffer :: "c_result \<Rightarrow> byte list" where
  "go_buffer (Received out _) = out"
| "go_buffer _ = []"

section \<open>Lines and acceptors\<close>

record IoLine =
  line_ptr :: ptr

record IoAcceptor =
  acceptor_ptr :: ptr

text \<open>\<^verbatim>\<open>init\<close> creates the only manager of the package.\<close>

definition theLineManager :: "c_heap \<Rightarrow> c_heap \<times> ptr" where
  "theLineManager h = map_prod id Some (cppio_new_manager h)"

definition IsValid :: "IoLine \<Rightarrow> bool" where
  "IsValid line \<longleftrightarrow> line_ptr line \<noteq> None"

definition CreateClient :: "'k kernel \<Rightarrow> nat list \<Rightarrow> ptr \<Rightarrow> c_heap \<Rightarrow> 'k world \<Rightarrow> string \<Rightarrow>
    (go_failure + c_heap \<times> 'k world \<times> IoLine \<times> cppioError option) option" where
  "CreateClient os accs man h w endpoint =
     go_then (cgo os [] [] h w (C_create_client man endpoint accs)) (\<lambda>h' w' r.
       case go_pointer r of
         None \<Rightarrow> Inr (h', w', \<lparr>line_ptr = None\<rparr>, Some (newError (''Unable to connect to: '' @ endpoint) 0))
       | Some a \<Rightarrow> Inr (h', w', \<lparr>line_ptr = Some a\<rparr>, None))"

definition IoLine_Close :: "'k kernel \<Rightarrow> c_heap \<Rightarrow> 'k world \<Rightarrow> IoLine \<Rightarrow> (go_failure + c_heap \<times> 'k world) option" where
  "IoLine_Close os h w line = go_then (cgo os [] [] h w (C_destroy_line (line_ptr line))) (\<lambda>h' w' _. Inr (h', w'))"

definition CreateServer :: "'k kernel \<Rightarrow> ptr \<Rightarrow> c_heap \<Rightarrow> 'k world \<Rightarrow> string \<Rightarrow>
    (go_failure + c_heap \<times> 'k world \<times> IoAcceptor \<times> cppioError option) option" where
  "CreateServer os man h w endpoint =
     go_then (cgo os [] [] h w (C_create_server man endpoint)) (\<lambda>h' w' r.
       case go_pointer r of
         None \<Rightarrow> Inr (h', w', \<lparr>acceptor_ptr = None\<rparr>, Some (newError (''Unable to create acceptor on: '' @ endpoint) 0))
       | Some a \<Rightarrow> Inr (h', w', \<lparr>acceptor_ptr = Some a\<rparr>, None))"

definition IoAcceptor_Close ::
    "'k kernel \<Rightarrow> c_heap \<Rightarrow> 'k world \<Rightarrow> IoAcceptor \<Rightarrow> (go_failure + c_heap \<times> 'k world) option" where
  "IoAcceptor_Close os h w acceptor =
     go_then (cgo os [] [] h w (C_destroy_acceptor (acceptor_ptr acceptor))) (\<lambda>h' w' _. Inr (h', w'))"

text \<open>The verb of the second text has no argument, which \<^verbatim>\<open>fmt\<close> reports inside the text.\<close>

definition IoLine_Write :: "'k kernel \<Rightarrow> wake list \<Rightarrow> c_heap \<Rightarrow> 'k world \<Rightarrow> IoLine \<Rightarrow> byte list \<Rightarrow>
    (go_failure + c_heap \<times> 'k world \<times> int \<times> cppioError option) option" where
  "IoLine_Write os ws h w line bytes =
     (if bytes = [] then Some (Inl IndexOutOfRange)
      else go_then (cgo os ws [] h w (C_line_write (line_ptr line) bytes)) (\<lambda>h' w' r.
        let wr = go_int r
        in if wr < 0 then Inr (h', w', 0, Some (newError (''cppio error: '' @ to_string wr) wr))
           else if wr < int (length bytes) then Inr (h', w', wr, Some (newError ''Truncated write: %!d(MISSING)'' 0))
           else Inr (h', w', wr, None)))"

text \<open>The slice is given as its bytes and returned as the call leaves it.\<close>

definition IoLine_Read :: "'k kernel \<Rightarrow> wake list \<Rightarrow> c_heap \<Rightarrow> 'k world \<Rightarrow> IoLine \<Rightarrow> byte list \<Rightarrow>
    (go_failure + c_heap \<times> 'k world \<times> byte list \<times> int \<times> cppioError option) option" where
  "IoLine_Read os ws h w line bytes =
     (if bytes = [] then Some (Inl IndexOutOfRange)
      else go_then (cgo os ws [] h w (C_line_read (line_ptr line) (length bytes))) (\<lambda>h' w' r.
        case mem_write bytes 0 (go_buffer r) (length (go_buffer r)) of
          Inl e \<Rightarrow> Inl (FromC e)
        | Inr bytes' \<Rightarrow>
            let rd = go_int r
            in if rd < 0 then Inr (h', w', bytes', 0, Some (newError (''cppio error: '' @ to_string rd) rd))
               else Inr (h', w', bytes', rd, None)))"

text \<open>
  The options. The C function reads an \<^verbatim>\<open>int\<close> at the address of the 64-bit \<^verbatim>\<open>value\<close>: its lower half.
\<close>

definition OReceiveTimeout :: int where
  "OReceiveTimeout = cppio_receive_timeout"

definition OSendTimeout :: int where
  "OSendTimeout = cppio_send_timeout"

definition IoLine_setReceiveTimeout ::
    "'k kernel \<Rightarrow> c_heap \<Rightarrow> 'k world \<Rightarrow> IoLine \<Rightarrow> 64 word \<Rightarrow> (go_failure + c_heap \<times> 'k world \<times> string option) option" where
  "IoLine_setReceiveTimeout os h w line v =
     go_then (cgo os [] [] h w (C_set_option (line_ptr line) cppio_receive_timeout (ucast v))) (\<lambda>h' w' _. Inr (h', w', None))"

definition IoLine_setSendTimeout ::
    "'k kernel \<Rightarrow> c_heap \<Rightarrow> 'k world \<Rightarrow> IoLine \<Rightarrow> 64 word \<Rightarrow> (go_failure + c_heap \<times> 'k world \<times> string option) option" where
  "IoLine_setSendTimeout os h w line v =
     go_then (cgo os [] [] h w (C_set_option (line_ptr line) cppio_send_timeout (ucast v))) (\<lambda>h' w' _. Inr (h', w', None))"

definition SetOptionInt ::
    "'k kernel \<Rightarrow> c_heap \<Rightarrow> 'k world \<Rightarrow> IoLine \<Rightarrow> int \<Rightarrow> 64 word \<Rightarrow> (go_failure + c_heap \<times> 'k world \<times> string option) option" where
  "SetOptionInt os h w line option v =
     (if option = OReceiveTimeout then IoLine_setReceiveTimeout os h w line v
      else if option = OSendTimeout then IoLine_setSendTimeout os h w line v
      else Some (Inr (h, w, Some ''Unknown option'')))"

text \<open>\<^verbatim>\<open>C.int\<close> of an unsigned number keeps its lower 32 bits.\<close>

definition WaitConnection :: "'k kernel \<Rightarrow> (nat \<times> string list) list \<Rightarrow> c_heap \<Rightarrow> 'k world \<Rightarrow> IoAcceptor \<Rightarrow> nat \<Rightarrow>
    (go_failure + c_heap \<times> 'k world \<times> IoLine) option" where
  "WaitConnection os turns h w acceptor milliseconds =
     go_then (cgo os [] [] h w (C_wait_connection (acceptor_ptr acceptor) (to_int32 (int milliseconds)) turns)) (\<lambda>h' w' r.
       Inr (h', w', \<lparr>line_ptr = go_pointer r\<rparr>))"

section \<open>Messages and protocols\<close>

text \<open>A message or protocol of Go is the pointer in it.\<close>

definition CreateMessage :: "c_heap \<Rightarrow> c_heap \<times> ptr" where
  "CreateMessage h = map_prod id Some (cppio_new_message h)"

definition message_call :: "ptr list \<Rightarrow> c_heap \<Rightarrow> ptr \<Rightarrow> (message \<Rightarrow> failure + 'r) \<Rightarrow> go_failure + c_heap \<times> 'r" where
  "message_call fin h p f =
     map_sum FromC id (bind_res (run_finalizers h fin) (\<lambda>h'.
       bind_res (c_deref (c_messages h') p) (\<lambda>m. bind_res (f m) (\<lambda>r. Inr (h', r)))))"

definition AddFrame :: "ptr list \<Rightarrow> c_heap \<Rightarrow> ptr \<Rightarrow> byte list \<Rightarrow> go_failure + c_heap" where
  "AddFrame fin h m data =
     (if data = [] then Inl IndexOutOfRange
      else bind_res (message_call fin h m (\<lambda>x. cppio_message_add x data (length data))) (\<lambda>(h', x). Inr (put_message h' m x)))"

definition Size_uint :: "ptr list \<Rightarrow> c_heap \<Rightarrow> ptr \<Rightarrow> go_failure + c_heap \<times> nat" where
  "Size_uint fin h m = message_call fin h m (\<lambda>x. Inr (cppio_message_size x))"

text \<open>
  \<^verbatim>\<open>GetFrame\<close>: the loop copies byte by byte through the pointer that the first call returned, which points into
  the message. The message is last used by the second call, so its finalizer can run before the loop, too.
\<close>

function copy_frame :: "byte list \<Rightarrow> byte list \<Rightarrow> nat \<Rightarrow> failure + byte list" where
  "copy_frame frame b i =
     (if i < length b then
        (if i < length frame then copy_frame frame (b[i := frame ! i]) (Suc i) else Inl (Undefined OutOfBounds))
      else Inr b)"
  by pat_completeness auto
termination
  by (relation "measure (\<lambda>(frame, b, i). length b - i)") auto

declare copy_frame.simps [simp del]

definition GetFrame :: "ptr list \<Rightarrow> ptr list \<Rightarrow> c_heap \<Rightarrow> ptr \<Rightarrow> nat \<Rightarrow> go_failure + c_heap \<times> byte list" where
  "GetFrame fin1 fin2 h m frameNumber =
     bind_res (message_call [] h m (\<lambda>x. cppio_message_get_frame x frameNumber)) (\<lambda>(h1, frame).
     bind_res (message_call fin1 h1 m (\<lambda>x. cppio_message_get_frame_length x frameNumber)) (\<lambda>(h2, frameLength).
       let b = replicate frameLength 0
       in message_call fin2 h2 m (\<lambda>_. copy_frame frame b 0)))"

definition Message_Clear :: "ptr list \<Rightarrow> c_heap \<Rightarrow> ptr \<Rightarrow> go_failure + c_heap" where
  "Message_Clear fin h m =
     bind_res (message_call fin h m (\<lambda>x. Inr (cppio_message_clear x))) (\<lambda>(h', x). Inr (put_message h' m x))"

definition CreateMessageProtocol :: "c_heap \<Rightarrow> IoLine \<Rightarrow> c_heap \<times> ptr" where
  "CreateMessageProtocol h line = map_prod id Some (cppio_create_messageprotocol h (line_ptr line))"

definition MessageProtocol_Close :: "c_heap \<Rightarrow> ptr \<Rightarrow> go_failure + c_heap" where
  "MessageProtocol_Close h p = map_sum FromC id (cppio_destroy_messageprotocol h p)"

definition protocol_error :: "string \<Rightarrow> c_result \<Rightarrow> cppioError option" where
  "protocol_error what r = (if go_int r \<le> 0 then Some (newError (what @ to_string (go_int r)) (go_int r)) else None)"

definition go_Read :: "'k kernel \<Rightarrow> wake list \<Rightarrow> ptr list \<Rightarrow> c_heap \<Rightarrow> 'k world \<Rightarrow> ptr \<Rightarrow> ptr \<Rightarrow>
    (go_failure + c_heap \<times> 'k world \<times> cppioError option) option" where
  "go_Read os ws fin h w p m =
     map_option (map_sum id (map_prod id (map_prod id (protocol_error ''Unable to read message: ''))))
       (cgo os ws fin h w (Read p m))"

definition go_Send :: "'k kernel \<Rightarrow> wake list \<Rightarrow> ptr list \<Rightarrow> c_heap \<Rightarrow> 'k world \<Rightarrow> ptr \<Rightarrow> ptr \<Rightarrow>
    (go_failure + c_heap \<times> 'k world \<times> cppioError option) option" where
  "go_Send os ws fin h w p m =
     map_option (map_sum id (map_prod id (map_prod id (protocol_error ''Unable to send message: ''))))
       (cgo os ws fin h w (Send p m))"

section \<open>Finalizers\<close>

lemma run_finalizers_frame:
  assumes "run_finalizers h fin = Inr h'"
  shows "h' = h\<lparr>c_messages := (\<lambda>a. if Some a \<in> set fin then None else c_messages h a)\<rparr>"
  using assms
proof (induction fin arbitrary: h)
  case (Cons p fin)
  then obtain h1 where h1: "cppio_destroy_message h p = Inr h1" "run_finalizers h1 fin = Inr h'" by auto
  show ?case
    using Cons.IH [OF h1(2)] h1(1)
    by (cases p) (auto simp: cppio_destroy_message_def fun_eq_iff)
qed simp

text \<open>Each message has its finalizer run once, so the finalizers themselves never fail.\<close>

lemma run_finalizers_returns:
  "heap_typed \<Gamma> h \<Longrightarrow> distinct fin \<Longrightarrow> \<forall>p \<in> set fin. has_type \<Gamma> p Message_ptr \<Longrightarrow>
   \<exists>h'. run_finalizers h fin = Inr h' \<and> heap_typed (\<lambda>a. if Some a \<in> set fin then None else \<Gamma> a) h'"
proof (induction fin arbitrary: \<Gamma> h)
  case (Cons p fin)
  from Cons.prems(3) obtain a where a: "p = Some a" "has_type \<Gamma> (Some a) Message_ptr" by (auto simp: has_type_def)
  then obtain m where "c_deref (c_messages h) p = Inr m" using deref_typed(4) [OF Cons.prems(1)] by blast
  then have h1: "cppio_destroy_message h p = Inr (h\<lparr>c_messages := (c_messages h)(a := None)\<rparr>)" (is "_ = Inr ?h1")
    by (simp add: cppio_destroy_message_def a(1))
  have t1: "heap_typed (\<Gamma>(a := None)) ?h1" by (rule heap_typed_destroy(1) [OF Cons.prems(1) a(2)])
  have "\<forall>q \<in> set fin. has_type (\<Gamma>(a := None)) q Message_ptr"
    using Cons.prems(2,3) a(1) by (auto simp: has_type_def)
  from Cons.IH [OF t1 _ this] Cons.prems(2) obtain h' where
    "run_finalizers ?h1 fin = Inr h'" "heap_typed (\<lambda>b. if Some b \<in> set fin then None else (\<Gamma>(a := None)) b) h'" by auto
  moreover have "(\<lambda>b. if Some b \<in> set fin then None else (\<Gamma>(a := None)) b) = (\<lambda>b. if Some b \<in> set (p # fin) then None else \<Gamma> b)"
    using a(1) by auto
  ultimately show ?case using h1 by auto
qed simp

lemma deref_finalized:
  assumes "run_finalizers h fin = Inr h'" and "p \<noteq> None"
  shows "c_deref (c_messages h') p =
    (if p \<in> set fin then Inl (Undefined DanglingPointer) else c_deref (c_messages h) p)"
  using assms(2) by (cases p) (simp_all add: c_deref_def run_finalizers_frame [OF assms(1)])

section \<open>Lines in Go\<close>

text \<open>An inter-thread line, called through the C interface, ends as it does in C++.\<close>

definition c_ending :: "(nat \<rightharpoonup> inproc_line) \<Rightarrow> nat \<Rightarrow> bool \<Rightarrow> 'k \<Rightarrow> 'k world \<Rightarrow> bool" where
  "c_ending L l c k w \<longleftrightarrow> ending_state L l c (fst w) \<and> snd w = k"

interpretation c_ending: ending_source "IoLine_read os [] (Inproc_line l)" "c_ending L l c k" "\<lambda>w. inbox l (fst w)" "end_code c"
  for os l L c k
proof unfold_locales
  fix w and n :: nat
  assume w: "c_ending L l c k w" "inbox l (fst w) \<noteq> []" "0 < n"
  then have "ending_state L l c (fst w)" by (simp add: c_ending_def)
  from inproc_ending.read_pending [OF this w(2,3)] w(1)
  show "\<exists>w' j. IoLine_read os [] (Inproc_line l) w n = Inr (w', take j (inbox l (fst w)), int j) \<and> 0 < j \<and> j \<le> n \<and>
      j \<le> length (inbox l (fst w)) \<and> j < 2 ^ 31 \<and> c_ending L l c k w' \<and> inbox l (fst w') = drop j (inbox l (fst w))"
    by (fastforce simp: IoLine_inproc c_ending_def)
next
  fix w and n :: nat
  assume w: "c_ending L l c k w" "inbox l (fst w) = []"
  then obtain st' where "inproc_read l (fst w) n = Inr (st', [], end_code c)" "ending_state L l c st'" "inbox l st' = []"
    using inproc_read_end [of L l c "fst w" n] by (auto simp: c_ending_def)
  with w(1) show "\<exists>w'. IoLine_read os [] (Inproc_line l) w n = Inr (w', [], end_code c) \<and> c_ending L l c k w' \<and> inbox l (fst w') = []"
    by (simp add: IoLine_inproc c_ending_def)
qed (simp_all add: end_code_range [simplified])

text \<open>A client or server is returned exactly when no error is.\<close>

lemma go_create_valid:
  "CreateClient os accs man h w endpoint = Some (Inr (h', w', line, err)) \<Longrightarrow> IsValid line \<longleftrightarrow> err = None"
  "CreateServer os man h w endpoint = Some (Inr (h', w', acceptor, err)) \<Longrightarrow> acceptor_ptr acceptor \<noteq> None \<longleftrightarrow> err = None"
  by (auto simp: CreateClient_def CreateServer_def IsValid_def go_then_def split: option.splits)

text \<open>
  A receive timeout below \<open>2 ^ 31\<close> milliseconds reaches the line as it is, although the C++ code reads an \<^verbatim>\<open>int\<close>; a send
  timeout makes the line throw, out of a C function; other options are refused in Go.
\<close>

lemmas go_option_defs = SetOptionInt_def IoLine_setReceiveTimeout_def IoLine_setSendTimeout_def cppio_line_set_option_def
  OReceiveTimeout_def OSendTimeout_def cppio_receive_timeout_def cppio_send_timeout_def LineOption_cast_def
  IoLine_setOption_def InprocLine_setOption_def deref_def c_deref_def cgo_def go_then_def

lemma go_options:
  assumes "c_lines h p = Some (Inproc_line l)" and "lines st l = Some line" and "ms < 2 ^ 31"
  shows "SetOptionInt os h (st, k) \<lparr>line_ptr = Some p\<rparr> OReceiveTimeout (word_of_nat ms) =
      Some (Inr (h, (st\<lparr>lines := (lines st)(l \<mapsto> line\<lparr>m_readTimeout := int ms\<rparr>)\<rparr>, k), None))"
    and "SetOptionInt os h (st, k) \<lparr>line_ptr = Some p\<rparr> OSendTimeout v = Some (Inl (FromC (Throw (UnsupportedOption ''''))))"
    and "option \<notin> {1, 2} \<Longrightarrow> SetOptionInt os h (st, k) ioline option v = Some (Inr (h, (st, k), Some ''Unknown option''))"
proof -
  have "unat (word_of_nat ms :: 64 word) = ms" using assms(3) by (simp add: unat_of_nat)
  then have "uint (ucast (word_of_nat ms :: 64 word) :: 32 word) = int ms"
    using assms(3) by (simp add: unsigned_ucast_eq uint_nat take_bit_eq_mod)
  then show "SetOptionInt os h (st, k) \<lparr>line_ptr = Some p\<rparr> OReceiveTimeout (word_of_nat ms) =
      Some (Inr (h, (st\<lparr>lines := (lines st)(l \<mapsto> line\<lparr>m_readTimeout := int ms\<rparr>)\<rparr>, k), None))"
    using assms by (simp add: go_option_defs to_int32_small)
qed (use assms in \<open>simp_all add: go_option_defs\<close>)

section \<open>Frames in Go\<close>

lemma copy_frame_copies:
  assumes "length b = length frame"
  shows "copy_frame frame b i = Inr (take i b @ drop i frame)"
  using assms
proof (induction frame b i rule: copy_frame.induct)
  case (1 frame b i)
  show ?case
  proof (cases "i < length b")
    case True
    then have "copy_frame frame b i = copy_frame frame (b[i := frame ! i]) (Suc i)"
      using "1.prems" by (subst copy_frame.simps) simp
    also have "\<dots> = Inr (take (Suc i) (b[i := frame ! i]) @ drop (Suc i) frame)"
      using 1 True by simp
    also have "take (Suc i) (b[i := frame ! i]) = take i b @ [frame ! i]"
      using True by (simp add: take_Suc_conv_app_nth)
    finally show ?thesis using True "1.prems" by (simp add: Cons_nth_drop_Suc)
  qed (use "1.prems" in \<open>simp add: copy_frame.simps\<close>)
qed

lemma AddFrame_adds:
  assumes "c_messages h a = Some m" and "data \<noteq> []"
  shows "AddFrame [] h (Some a) data = Inr (h\<lparr>c_messages := (c_messages h)(a \<mapsto> Message_addFrame m (Frame_move data))\<rparr>)"
  using assms
  by (simp add: AddFrame_def message_call_def c_deref_def put_message_def cppio_message_add_def Frame_copy_def mem_read_def
      Frame_move_def)

text \<open>The frames of a message, added one after the other.\<close>

fun AddFrames :: "c_heap \<Rightarrow> ptr \<Rightarrow> byte list list \<Rightarrow> go_failure + c_heap" where
  "AddFrames h m [] = Inr h"
| "AddFrames h m (data # rest) = bind_res (AddFrame [] h m data) (\<lambda>h'. AddFrames h' m rest)"

lemma AddFrames_adds:
  assumes "c_messages h a = Some m" and "[] \<notin> set datas"
  shows "AddFrames h (Some a) datas =
    Inr (h\<lparr>c_messages := (c_messages h)(a \<mapsto> m\<lparr>m_frames := m_frames m @ map Frame_move datas\<rparr>)\<rparr>)"
  using assms
proof (induction datas arbitrary: h m)
  case Nil
  then show ?case by (simp add: fun_upd_idem)
next
  case (Cons data datas)
  then have "AddFrame [] h (Some a) data = Inr (h\<lparr>c_messages := (c_messages h)(a \<mapsto> Message_addFrame m (Frame_move data))\<rparr>)"
    by (intro AddFrame_adds) auto
  with Cons.IH [of "h\<lparr>c_messages := (c_messages h)(a \<mapsto> Message_addFrame m (Frame_move data))\<rparr>"
      "Message_addFrame m (Frame_move data)"] Cons.prems
  show ?case by (simp add: Message_addFrame_def cong: if_cong)
qed

lemma GetFrame_gets:
  assumes "c_messages h a = Some m" and "i < length (m_frames m)"
  shows "GetFrame [] [] h (Some a) i = Inr (h, frame_data (m_frames m ! i))"
  using assms
  by (simp add: GetFrame_def message_call_def c_deref_def cppio_message_get_frame_def cppio_message_get_frame_length_def
      Message_frame_def Frame_size_def copy_frame_copies)

lemma go_protocol_calls:
  assumes "c_protocols h p = Some (MessageProtocol_new (Some a))" and "c_lines h a = Some line" and "c_messages h m = Some x"
  shows "MessageProtocol_sendMessage (IoLine_write os ws line) w x = Some (Inr (w', rc)) \<Longrightarrow>
      - (2 ^ 63) \<le> rc \<Longrightarrow> rc < 2 ^ 63 \<Longrightarrow>
      go_Send os ws [] h w (Some p) (Some m) = Some (Inr (h, w',
        if rc \<le> 0 then Some (newError (''Unable to send message: '' @ to_string rc) rc) else None))"
    and "MessageProtocol_readMessage (IoLine_read os ws line) w x = Inr (w', x', rc) \<Longrightarrow>
      - (2 ^ 63) \<le> rc \<Longrightarrow> rc < 2 ^ 63 \<Longrightarrow>
      go_Read os ws [] h w (Some p) (Some m) = Some (Inr (put_message h (Some m) x', w',
        if rc \<le> 0 then Some (newError (''Unable to read message: '' @ to_string rc) rc) else None))"
  using assms
  by (simp_all add: go_Send_def go_Read_def cgo_def c_deref_def cppio_messageprotocol_send_def cppio_messageprotocol_read_def
      line_at protocol_error_def to_ssize_to_size)

section \<open>Properties\<close>

text \<open>
  C17 (go_messages): frames through Go. Slices that are added to a message of the Go package, sent over a line to the
  other end and read there into a new message come out as the same slices, with no error on the way, as long
  as the message fits into the queue; an empty slice panics instead of adding an empty frame.
\<close>
theorem go_messages:
  assumes "inproc_reachable st" and "peers st c s" and "inbox s st = []"
    and "c_lines h x = Some (Inproc_line c)" and "c_protocols h p = Some (MessageProtocol_new (Some x))"
    and "c_lines h y = Some (Inproc_line s)" and "c_protocols h q = Some (MessageProtocol_new (Some y))"
    and "c_messages h a = Some Message_new" and "c_messages h b = Some Message_new" and "a \<noteq> b"
    and "[] \<notin> set datas" and "length (encode \<lparr>m_frames = map Frame_move datas\<rparr>) < inproc_buffer_size"
    and "encodable \<lparr>m_frames = map Frame_move datas\<rparr>"
  shows "\<exists>h1 h2 st1 st2. AddFrames h (Some a) datas = Inr h1 \<and>
      go_Send os [] [] h1 (st, k) (Some p) (Some a) = Some (Inr (h1, (st1, k), None)) \<and>
      go_Read os [] [] h1 (st1, k) (Some q) (Some b) = Some (Inr (h2, (st2, k), None)) \<and>
      Size_uint [] h2 (Some b) = Inr (h2, length datas) \<and>
      (\<forall>i < length datas. GetFrame [] [] h2 (Some b) i = Inr (h2, datas ! i)) \<and>
      AddFrame [] h2 (Some b) [] = Inl IndexOutOfRange"
proof -
  let ?m = "\<lparr>m_frames = map Frame_move datas\<rparr>"
  let ?h1 = "h\<lparr>c_messages := (c_messages h)(a \<mapsto> ?m)\<rparr>"
  have add: "AddFrames h (Some a) datas = Inr ?h1"
    using AddFrames_adds [OF assms(8,11)] by (simp add: Message_new_def)
  note ps = peers_line_state [OF assms(1,2)]
  have fits: "c_state (lines st) c k (st, k)" "length (encode ?m) \<le> space c (fst (st, k))" "length (encode ?m) < 2 ^ 31"
    using ps(1,3) assms(3,12) by (simp_all add: c_state_def space_def inproc_buffer_size_def)
  obtain w1 where w1: "MessageProtocol_sendMessage (IoLine_write os [] (Inproc_line c)) (st, k) ?m = Some (Inr (w1, 1))"
    "c_state (lines st) c k w1" "outbox c (fst w1) = outbox c st @ encode ?m"
    using c_sink.sendMessage_accepted [OF fits, of os] by auto
  have same: "lines (fst w1) = lines st" "snd w1 = k" using w1(2) by (auto simp: c_state_def line_state_def)
  then have "peers (fst w1) c s" using assms(2) by (simp add: peers_def)
  then have "inbox s (fst w1) = encode ?m @ []"
    using peers_out_in [of "fst w1" c s] w1(3) assms(3) ps(3) by (simp add: inbox_def outbox_def)
  moreover have "c_state (lines st) s k w1" using w1(2) ps(2) by (simp add: c_state_def line_state_def)
  ultimately obtain w2 where w2:
    "MessageProtocol_readMessage (IoLine_read os [] (Inproc_line s)) w1 Message_new = Inr (w2, ?m, 1)"
    "c_state (lines st) s k w2"
    using c_source.readMessage_pending [of "lines st" s k w1 ?m "[]" os] assms(13) by auto
  let ?h2 = "put_message ?h1 (Some b) ?m"
  have m2: "c_messages ?h2 b = Some ?m" by (simp add: put_message_def)
  have "go_Send os [] [] ?h1 (st, k) (Some p) (Some a) = Some (Inr (?h1, w1, None))"
    using go_protocol_calls(1) [of ?h1 p x "Inproc_line c" a ?m os "[]" "(st, k)" w1 1] assms(4,5) w1(1) by simp
  moreover have "go_Read os [] [] ?h1 w1 (Some q) (Some b) = Some (Inr (?h2, w2, None))"
    using go_protocol_calls(2) [of ?h1 q y "Inproc_line s" b Message_new os "[]" w1 w2 ?m 1] assms(6,7,9,10) w2(1) by simp
  moreover have "Size_uint [] ?h2 (Some b) = Inr (?h2, length datas)"
    by (simp add: Size_uint_def message_call_def c_deref_def m2 cppio_message_size_def Message_size_def)
  moreover have "GetFrame [] [] ?h2 (Some b) i = Inr (?h2, datas ! i)" if "i < length datas" for i
    using GetFrame_gets [OF m2, of i] that by (simp add: Frame_move_def)
  moreover have "AddFrame [] ?h2 (Some b) [] = Inl IndexOutOfRange" by (simp add: AddFrame_def)
  moreover have "w1 = (fst w1, k)" "w2 = (fst w2, k)" using same(2) w2(2) by (auto simp: c_state_def prod_eq_iff)
  ultimately show ?thesis
    using add by (intro exI [of _ ?h1] exI [of _ ?h2] exI [of _ "fst w1"] exI [of _ "fst w2"]) simp
qed

theorem go_messages_witness:
  "\<exists>h1 h2 st1 st2. AddFrames (c_heap_empty\<lparr>c_lines := [5 \<mapsto> Inproc_line 1, 6 \<mapsto> Inproc_line 4],
        c_messages := [2 \<mapsto> Message_new, 3 \<mapsto> Message_new],
        c_protocols := [0 \<mapsto> MessageProtocol_new (Some 5), 1 \<mapsto> MessageProtocol_new (Some 6)], c_next := 7\<rparr>) (Some 2) [[1, 2], [3]] = Inr h1 \<and>
      go_Send loop_kernel [] [] h1 (connected, ([], {})) (Some 0) (Some 2) = Some (Inr (h1, (st1, ([], {})), None)) \<and>
      go_Read loop_kernel [] [] h1 (st1, ([], {})) (Some 1) (Some 3) = Some (Inr (h2, (st2, ([], {})), None)) \<and>
      GetFrame [] [] h2 (Some 3) 0 = Inr (h2, [1, 2])"
proof -
  let ?h = "c_heap_empty\<lparr>c_lines := [5 \<mapsto> Inproc_line 1, 6 \<mapsto> Inproc_line 4],
        c_messages := [2 \<mapsto> Message_new, 3 \<mapsto> Message_new],
        c_protocols := [0 \<mapsto> MessageProtocol_new (Some 5), 1 \<mapsto> MessageProtocol_new (Some 6)], c_next := 7\<rparr>"
  have "inbox 4 connected = []" by (simp add: inbox_def in_queue_def connected_lines)
  from go_messages [OF connected_reachable connected_lines(5) this, of ?h 5 0 6 1 2 3 "[[1, 2], [3]]" loop_kernel "([], {})"]
  show ?thesis by (fastforce simp: encodable_def encode_def Frame_move_def Frame_size_def inproc_buffer_size_def)
qed

text \<open>
  C28 (go_cut_off): \<^verbatim>\<open>Timeout()\<close> can be relied on. When the stream of a line ends inside a message, \<^verbatim>\<open>Read\<close> returns an error, and
  its \<^verbatim>\<open>Timeout()\<close> is true exactly when the peer is still there; the conversion of the C function's \<^verbatim>\<open>size_t\<close> back to an
  \<^verbatim>\<open>int\<close> recovers the code that the C interface made a large number of. A message that still has frames fails the
  assertion of \<^verbatim>\<open>readMessage\<close> instead.
\<close>
theorem go_cut_off:
  assumes "inproc_reachable st" and "lines st l = Some line" and "m_in line \<noteq> None"
    and "peer_there l st \<longrightarrow> 0 < m_readTimeout line"
    and "inbox l st @ missing = encode m" and "missing \<noteq> []" and "encodable m"
    and "c_protocols h p = Some (MessageProtocol_new (Some b))" and "c_lines h b = Some (Inproc_line l)" and "c_messages h a = Some x"
  shows "if Message_size x = 0
    then \<exists>h' w' e. go_Read os [] [] h (st, k) (Some p) (Some a) = Some (Inr (h', w', Some e)) \<and>
           (cppioError_Timeout e \<longleftrightarrow> peer_there l st)
    else go_Read os [] [] h (st, k) (Some p) (Some a) = Some (Inl (FromC AssertionFailed))"
proof (cases "Message_size x = 0")
  case True
  then have new: "x = Message_new" by (cases x) (simp add: Message_size_def Message_new_def)
  have "c_ending (lines st) l (peer_there l st) k (st, k)"
    using assms(2-4) reachable_inv [OF assms(1)] by (auto simp: c_ending_def ending_state_def line_state_def)
  from c_ending.readMessage_short [OF this, of missing m os] assms(5-7) obtain w' m' where
    "MessageProtocol_readMessage (IoLine_read os [] (Inproc_line l)) (st, k) Message_new =
       Inr (w', m', end_code (peer_there l st))" by auto
  moreover have "- (2 ^ 63) \<le> end_code (peer_there l st)" "end_code (peer_there l st) < 2 ^ 63" "end_code (peer_there l st) \<le> 0"
    by (simp_all add: end_code_def error_code_defs)
  ultimately have "go_Read os [] [] h (st, k) (Some p) (Some a) = Some (Inr (put_message h (Some a) m', w',
      Some (newError (''Unable to read message: '' @ to_string (end_code (peer_there l st))) (end_code (peer_there l st)))))"
    using go_protocol_calls(2) [OF assms(8-10), of os "[]" "(st, k)" w' m' "end_code (peer_there l st)"] new by simp
  with True show ?thesis
    by (simp add: cppioError_Timeout_def newError_def end_code_def error_code_defs go_eTimeout_def)
next
  case False
  with assms(8-10) show ?thesis
    by (simp add: go_Read_def cgo_def c_deref_def cppio_messageprotocol_read_def MessageProtocol_readMessage_def)
qed

theorem go_cut_off_witness:
  "\<exists>h' w' e. go_Read loop_kernel [] [] (c_heap_empty\<lparr>c_lines := [2 \<mapsto> Inproc_line 4], c_messages := [0 \<mapsto> Message_new],
       c_protocols := [1 \<mapsto> MessageProtocol_new (Some 2)], c_next := 3\<rparr>) (alone, ([], {})) (Some 1) (Some 0) =
       Some (Inr (h', w', Some e)) \<and> \<not> cppioError_Timeout e"
proof -
  let ?h = "c_heap_empty\<lparr>c_lines := [2 \<mapsto> Inproc_line 4], c_messages := [0 \<mapsto> Message_new],
       c_protocols := [1 \<mapsto> MessageProtocol_new (Some 2)], c_next := 3\<rparr>"
  have "\<not> peer_there 4 alone" "inbox 4 alone @ encode Message_new = encode Message_new" "encodable Message_new"
    by (simp_all add: alone_lines peer_there_def inbox_def in_queue_def encodable_def encode_def Message_new_def)
  with go_cut_off [OF alone_reachable alone_lines(1), of "encode Message_new" Message_new ?h 1 2 0 Message_new loop_kernel "([], {})"]
  show ?thesis by (simp add: Message_size_def Message_new_def)
qed

text \<open>
  C18 (go_finalizers): a message has to be kept alive. While a method of a message or protocol runs its C function, the garbage
  collector may finalize messages, each once. If the message of the call is not among them, the call finds it and the objects
  the caller still holds stay typed; if it is (its last use is this call), \<^verbatim>\<open>AddFrame\<close>, \<^verbatim>\<open>Size\<close> and \<^verbatim>\<open>Send\<close> go through a dangling
  pointer, and so does \<^verbatim>\<open>GetFrame\<close> when it is finalized before the loop that copies the bytes.
\<close>
theorem go_finalizers:
  assumes "heap_typed \<Gamma> h" and "distinct fin" and "\<forall>r \<in> set fin. has_type \<Gamma> r Message_ptr"
    and "has_type \<Gamma> m Message_ptr" and "has_type \<Gamma> p (Protocol_ptr line)" and "data \<noteq> []"
    and "c_deref (c_messages h) m = Inr x" and "i < Message_size x"
  shows "if m \<in> set fin
    then AddFrame fin h m data = Inl (FromC (Undefined DanglingPointer)) \<and>
         Size_uint fin h m = Inl (FromC (Undefined DanglingPointer)) \<and>
         GetFrame [] fin h m i = Inl (FromC (Undefined DanglingPointer)) \<and>
         go_Send os ws fin h w p m = Some (Inl (FromC (Undefined DanglingPointer)))
    else \<exists>h'. heap_typed (\<lambda>a. if Some a \<in> set fin then None else \<Gamma> a) h' \<and>
         AddFrame fin h m data = AddFrame [] h' m data \<and> (\<exists>h1. AddFrame [] h' m data = Inr h1) \<and>
         Size_uint fin h m = Inr (h', Message_size x) \<and>
         GetFrame [] fin h m i = Inr (h', frame_data (m_frames x ! i)) \<and>
         go_Send os ws fin h w p m = go_Send os ws [] h' w p m"
proof -
  obtain h' where h': "run_finalizers h fin = Inr h'" "heap_typed (\<lambda>a. if Some a \<in> set fin then None else \<Gamma> a) h'"
    using run_finalizers_returns [OF assms(1-3)] by blast
  obtain proto where x: "c_deref (c_messages h) m = Inr x" "c_deref (c_protocols h) p = Inr proto"
    using deref_typed(5) [OF assms(1)] assms(5,7) by blast
  have d: "c_deref (c_messages h') m = (if m \<in> set fin then Inl (Undefined DanglingPointer) else Inr x)"
    "c_deref (c_protocols h') p = Inr proto"
    using deref_finalized [OF h'(1)] assms(4) x run_finalizers_frame [OF h'(1)] by (auto simp: has_type_def)
  have add: "\<exists>y. cppio_message_add x data (length data) = Inr y"
    by (simp add: cppio_message_add_def Frame_copy_def mem_read_def)
  have frame: "cppio_message_get_frame x i = Inr (frame_data (m_frames x ! i))"
    "cppio_message_get_frame_length x i = Inr (length (frame_data (m_frames x ! i)))"
    using assms(8) by (simp_all add: cppio_message_get_frame_def cppio_message_get_frame_length_def Message_frame_def
        Message_size_def Frame_size_def)
  show ?thesis
    using h' x d add frame assms(6)
    by (auto simp: AddFrame_def Size_uint_def GetFrame_def message_call_def go_Send_def cgo_def copy_frame_copies
        cppio_message_size_def)
qed

theorem go_finalizers_witness:
  "go_Send loop_kernel [] [Some 0] (c_heap_empty\<lparr>c_messages := [0 \<mapsto> \<lparr>m_frames = [Frame_move [7]]\<rparr>],
       c_protocols := [1 \<mapsto> MessageProtocol_new None], c_next := 2\<rparr>) (inproc_init, ([], {})) (Some 1) (Some 0) =
     Some (Inl (FromC (Undefined DanglingPointer)))"
proof -
  let ?\<Gamma> = "[0 \<mapsto> Message_ptr, 1 \<mapsto> Protocol_ptr None]"
  let ?h = "c_heap_empty\<lparr>c_messages := [0 \<mapsto> \<lparr>m_frames = [Frame_move [7]]\<rparr>],
       c_protocols := [1 \<mapsto> MessageProtocol_new None], c_next := 2\<rparr>"
  have "heap_typed ?\<Gamma> ?h" by (auto simp: heap_typed_def typed_by_def c_heap_empty_def)
  from go_finalizers [OF this, of "[Some 0]" "Some 0" "Some 1" None "[1]" "\<lparr>m_frames = [Frame_move [7]]\<rparr>" 0 loop_kernel "[]"
      "(inproc_init, ([], {}))"]
  show ?thesis by (simp add: has_type_def c_deref_def Message_size_def)
qed

end
