(* ===== verification/WinSocket.thy ===== *)
theory WinSocket
  imports PosixSocket
begin

text \<open>
  The socket lines of src/win32/win_socket.cpp: \<^verbatim>\<open>WinSocket\<close>, \<^verbatim>\<open>WinSocketAcceptor\<close> and \<^verbatim>\<open>WinSocketFactory\<close>.
  Winsock is a parameter, a record of functions on its state. A \<^verbatim>\<open>SOCKET\<close> is an unsigned number of 64 bits,
  while the lengths given to \<^verbatim>\<open>recv\<close> and \<^verbatim>\<open>send\<close>, and the variable that holds the result of
  \<^verbatim>\<open>accept\<close>, are 32-bit \<^verbatim>\<open>int\<close>s; the conversions are written out.
\<close>

section \<open>Winsock\<close>

datatype wsa_error = WSAENETRESET | WSAECONNABORTED | WSAECONNRESET | WSAETIMEDOUT | OtherWsaError int

datatype win_sockopt = Win_RCVTIMEO nat | Win_SNDTIMEO nat | Win_REUSEADDR int

record 'k winsock =
  wsa_socket :: "'k \<Rightarrow> 'k \<times> nat"
  wsa_closesocket :: "'k \<Rightarrow> nat \<Rightarrow> 'k"
  wsa_connect :: "'k \<Rightarrow> nat \<Rightarrow> sockaddr \<Rightarrow> 'k \<times> int"
  wsa_bind :: "'k \<Rightarrow> nat \<Rightarrow> sockaddr \<Rightarrow> 'k \<times> int"
  wsa_listen :: "'k \<Rightarrow> nat \<Rightarrow> int \<Rightarrow> 'k \<times> int"
  wsa_accept :: "'k \<Rightarrow> nat \<Rightarrow> 'k \<times> nat"
  wsa_recv :: "'k \<Rightarrow> nat \<Rightarrow> int \<Rightarrow> 'k \<times> byte list \<times> int"
  wsa_send :: "'k \<Rightarrow> nat \<Rightarrow> byte list \<Rightarrow> int \<Rightarrow> 'k \<times> int"
  wsa_setsockopt :: "'k \<Rightarrow> nat \<Rightarrow> win_sockopt \<Rightarrow> 'k \<times> int"
  wsa_GetLastError :: "'k \<Rightarrow> wsa_error"
  wsa_errno :: "'k \<Rightarrow> int"
  wsa_Startup :: "'k \<Rightarrow> nat \<Rightarrow> 'k"
  wsa_Cleanup :: "'k \<Rightarrow> 'k"
  wsa_inet_addr :: "string \<Rightarrow> 32 word"

definition INVALID_SOCKET :: nat where
  "INVALID_SOCKET = 2 ^ 64 - 1"

definition SOCKET_ERROR :: int where
  "SOCKET_ERROR = - 1"

section \<open>WinSocket\<close>

record win_socket =
  ws_address :: string
  ws_socket :: nat

definition WinSocket_new :: "'k winsock \<Rightarrow> 'k \<Rightarrow> string \<Rightarrow> ('k, win_socket) call" where
  "WinSocket_new os k address =
     (let (k1, h) = wsa_socket os k
      in if h = INVALID_SOCKET then (k1, Inl (Throw (IoException (''Unable to make socket: '' @ address))))
         else (k1, Inr \<lparr>ws_address = address, ws_socket = h\<rparr>))"

definition WinSocket_accepted :: "nat \<Rightarrow> string \<Rightarrow> win_socket" where
  "WinSocket_accepted fd address = \<lparr>ws_address = address, ws_socket = fd\<rparr>"

definition WinSocket_destroy :: "'k winsock \<Rightarrow> 'k \<Rightarrow> win_socket \<Rightarrow> 'k" where
  "WinSocket_destroy os k s = wsa_closesocket os k (ws_socket s)"

definition WinSocket_connect :: "'k winsock \<Rightarrow> 'k \<Rightarrow> win_socket \<Rightarrow> ('k, unit) call" where
  "WinSocket_connect os k s =
     (let (host, port_text) = split_address (ws_address s)
      in case atoi (c_str port_text) of
           Inl e \<Rightarrow> (k, Inl e)
         | Inr port \<Rightarrow>
             let (k1, retVal) = wsa_connect os k (ws_socket s) (Sockaddr_in (wsa_inet_addr os (c_str host)) (htons port))
             in if retVal = SOCKET_ERROR
                then (k1, Inl (Throw (IoException (''Unable to connect to address: '' @ ws_address s))))
                else (k1, Inr ()))"

definition win_read_code :: "int \<Rightarrow> wsa_error \<Rightarrow> int" where
  "win_read_code rc error =
     (if rc < 0 then
        (if error = WSAENETRESET \<or> error = WSAECONNABORTED \<or> error = WSAECONNRESET then eConnectionLost
         else if error = WSAETIMEDOUT then eTimeout else eUnknown)
      else if rc = 0 then (if error \<noteq> WSAETIMEDOUT then eConnectionLost else eTimeout)
      else rc)"

definition WinSocket_read :: "'k winsock \<Rightarrow> win_socket \<Rightarrow> 'k line_read" where
  "WinSocket_read os s k buflen =
     (let (k1, out, rc) = wsa_recv os k (ws_socket s) (to_int32 (int buflen))
      in Inr (k1, out, win_read_code rc (wsa_GetLastError os k1)))"

definition WinSocket_write :: "'k winsock \<Rightarrow> win_socket \<Rightarrow> 'k line_write" where
  "WinSocket_write os s k buffer =
     (let (k1, rc) = wsa_send os k (ws_socket s) buffer (to_int32 (int (length buffer)))
      in Inr (k1, if rc \<le> 0 then eUnknown else rc))"

text \<open>The \<^verbatim>\<open>int\<close> is converted to a \<^verbatim>\<open>DWORD\<close>.\<close>

definition to_DWORD :: "int \<Rightarrow> nat" where
  "to_DWORD v = nat (v mod 2 ^ 32)"

definition WinSocket_setOption :: "'k winsock \<Rightarrow> 'k \<Rightarrow> win_socket \<Rightarrow> LineOption \<Rightarrow> int \<Rightarrow> failure + 'k" where
  "WinSocket_setOption os k s option data =
     (case option of
        ReceiveTimeout \<Rightarrow> Inr (fst (wsa_setsockopt os k (ws_socket s) (Win_RCVTIMEO (to_DWORD data))))
      | SendTimeout \<Rightarrow> Inr (fst (wsa_setsockopt os k (ws_socket s) (Win_SNDTIMEO (to_DWORD data))))
      | OtherOption _ \<Rightarrow> Inl (Throw (UnsupportedOption '''')))"

section \<open>WinSocketAcceptor and WinSocketFactory\<close>

text \<open>The class has the same two members as \<^verbatim>\<open>WinSocket\<close>.\<close>

type_synonym winsock_acceptor = win_socket

definition WinSocketAcceptor_new :: "'k winsock \<Rightarrow> 'k \<Rightarrow> string \<Rightarrow> ('k, winsock_acceptor) call" where
  "WinSocketAcceptor_new os k address =
     (let (k1, h) = wsa_socket os k
      in if h = INVALID_SOCKET then (k1, Inl (Throw (IoException (''Unable to create socket: '' @ address))))
         else let (k2, rc) = wsa_setsockopt os k1 h (Win_REUSEADDR 1)
              in if rc < 0 then (k2, Inl (Throw (IoException (''Unable to set socket option: '' @ to_string (int h)))))
                 else let (host, port_text) = split_address address
                      in case atoi (c_str port_text) of
                           Inl e \<Rightarrow> (k2, Inl e)
                         | Inr port \<Rightarrow>
                             let addr = (if host \<noteq> ''*'' then wsa_inet_addr os (c_str host) else 0);
                                 (k3, rc') = wsa_bind os k2 h (Sockaddr_in addr (htons port))
                             in if rc' < 0
                                then (k3, Inl (Throw (IoException (''Unable to bind tcp socket: '' @ to_string rc' @ ''/'' @
                                           to_string (wsa_errno os k3)))))
                                else let (k4, rc'') = wsa_listen os k3 h 10
                                     in if rc'' < 0
                                        then (wsa_closesocket os k4 h,
                                              Inl (Throw (IoException (''Unable to listen socket: '' @ to_string rc''))))
                                        else (k4, Inr \<lparr>ws_address = address, ws_socket = h\<rparr>))"

definition WinSocketAcceptor_destroy :: "'k winsock \<Rightarrow> 'k \<Rightarrow> winsock_acceptor \<Rightarrow> 'k" where
  "WinSocketAcceptor_destroy os k a = wsa_closesocket os k (ws_socket a)"

text \<open>The \<^verbatim>\<open>SOCKET\<close> is stored in an \<^verbatim>\<open>int\<close>, which is converted back for the new line. The timeout is not used.\<close>

definition WinSocketAcceptor_waitConnection ::
    "'k winsock \<Rightarrow> 'k \<Rightarrow> winsock_acceptor \<Rightarrow> int \<Rightarrow> 'k \<times> win_socket option" where
  "WinSocketAcceptor_waitConnection os k a timeoutInMs =
     (let (k1, h) = wsa_accept os k (ws_socket a); newsock = to_int32 (int h)
      in if newsock > 0 then (k1, Some (WinSocket_accepted (to_size newsock) [])) else (k1, None))"

text \<open>\<^verbatim>\<open>MAKEWORD(2, 2)\<close>: version 2.2 in two bytes.\<close>

definition WinSocketFactory_new :: "'k winsock \<Rightarrow> 'k \<Rightarrow> 'k" where
  "WinSocketFactory_new os k = wsa_Startup os k (2 + 256 * 2)"

definition WinSocketFactory_destroy :: "'k winsock \<Rightarrow> 'k \<Rightarrow> 'k" where
  "WinSocketFactory_destroy os k = wsa_Cleanup os k"

definition WinSocketFactory_supportsScheme :: "string \<Rightarrow> bool" where
  "WinSocketFactory_supportsScheme scheme \<longleftrightarrow> scheme = ''tcp''"

definition WinSocketFactory_createClient :: "'k winsock \<Rightarrow> 'k \<Rightarrow> string \<Rightarrow> ('k, win_socket option) call" where
  "WinSocketFactory_createClient os k address =
     (case WinSocket_new os k address of
        (k1, Inl e) \<Rightarrow> (k1, Inl e)
      | (k1, Inr s) \<Rightarrow>
          (case WinSocket_connect os k1 s of
             (k2, Inl e) \<Rightarrow> (k2, Inl e)
           | (k2, Inr _) \<Rightarrow> (k2, Inr (Some s))))"

definition WinSocketFactory_createServer :: "'k winsock \<Rightarrow> 'k \<Rightarrow> string \<Rightarrow> ('k, winsock_acceptor option) call" where
  "WinSocketFactory_createServer os k address =
     (case WinSocketAcceptor_new os k address of (k1, Inl e) \<Rightarrow> (k1, Inl e) | (k1, Inr a) \<Rightarrow> (k1, Inr (Some a)))"

section \<open>Streams\<close>

text \<open>
  What is needed of \<^verbatim>\<open>recv\<close> and \<^verbatim>\<open>send\<close> on a connected stream socket, for positive lengths: at least one
  byte is transferred. Nothing is assumed of a length that does not fit into an \<^verbatim>\<open>int\<close>.
\<close>

definition win_receives :: "'k winsock \<Rightarrow> nat \<Rightarrow> ('k \<Rightarrow> bool) \<Rightarrow> ('k \<Rightarrow> byte list) \<Rightarrow> bool" where
  "win_receives os h ok pending \<longleftrightarrow> (\<forall>k len. ok k \<and> pending k \<noteq> [] \<and> 0 < len \<and> len < 2 ^ 31 \<longrightarrow>
     (\<exists>k' j. wsa_recv os k h len = (k', take j (pending k), int j) \<and> 0 < j \<and> int j \<le> len \<and>
             j \<le> length (pending k) \<and> ok k' \<and> pending k' = drop j (pending k)))"

definition win_transmits :: "'k winsock \<Rightarrow> nat \<Rightarrow> ('k \<Rightarrow> bool) \<Rightarrow> ('k \<Rightarrow> byte list) \<Rightarrow> bool" where
  "win_transmits os h ok sent \<longleftrightarrow> (\<forall>k bs len. ok k \<and> 0 < len \<and> len < 2 ^ 31 \<and> len \<le> int (length bs) \<longrightarrow>
     (\<exists>k' j. wsa_send os k h bs len = (k', int j) \<and> 0 < j \<and> int j \<le> len \<and> ok k' \<and> sent k' = sent k @ take j bs))"

lemma win_read_code_positive [simp]: "0 < rc \<Longrightarrow> win_read_code rc e = rc"
  by (simp add: win_read_code_def)

lemma win_source:
  assumes "win_receives os (ws_socket s) ok pending"
  shows "exact_source (WinSocket_read os s) (\<lambda>k. ok k \<and> length (pending k) < 2 ^ 31) pending"
proof
  fix k and n :: nat
  assume *: "ok k \<and> length (pending k) < 2 ^ 31" "0 < n" "n \<le> length (pending k)"
  then have "to_int32 (int n) = int n" "0 < int n" "int n < 2 ^ 31" by (simp_all add: to_int32_small)
  moreover have "pending k \<noteq> []" using * by auto
  ultimately obtain k' j where j: "wsa_recv os k (ws_socket s) (to_int32 (int n)) = (k', take j (pending k), int j)" "0 < j"
    "j \<le> n" "j \<le> length (pending k)" "ok k'" "pending k' = drop j (pending k)"
    using assms *(1) unfolding win_receives_def by (metis of_nat_le_iff)
  then show "\<exists>k' j. WinSocket_read os s k n = Inr (k', take j (pending k), int j) \<and> 0 < j \<and> j \<le> n \<and>
      j \<le> length (pending k) \<and> j < 2 ^ 31 \<and> (ok k' \<and> length (pending k') < 2 ^ 31) \<and> pending k' = drop j (pending k)"
    using *(1) by (intro exI [of _ k'] exI [of _ j]) (simp add: WinSocket_read_def less_imp_diff_less)
qed

lemma win_sink:
  assumes "win_transmits os (ws_socket s) ok sent"
  shows "stream_sink (WinSocket_write os s) ok sent (\<lambda>_. 2 ^ 31 - 1)"
proof
  fix k and bs :: "byte list"
  assume *: "ok k" "bs \<noteq> []" "length bs \<le> 2 ^ 31 - 1"
  then have len: "to_int32 (int (length bs)) = int (length bs)" "0 < int (length bs)" "int (length bs) < 2 ^ 31"
    by (simp_all add: to_int32_small)
  then obtain k' j where "wsa_send os k (ws_socket s) bs (int (length bs)) = (k', int j)" "0 < j" "int j \<le> int (length bs)"
    "ok k'" "sent k' = sent k @ take j bs"
    using assms *(1) unfolding win_transmits_def by blast
  then show "\<exists>k' j. WinSocket_write os s k bs = Inr (k', int j) \<and> 0 < j \<and> j \<le> length bs \<and> ok k' \<and>
      sent k' = sent k @ take j bs \<and> (2 ^ 31 - 1 :: nat) - j \<le> 2 ^ 31 - 1"
    by (intro exI [of _ k'] exI [of _ j]) (simp add: WinSocket_write_def len(1))
qed

text \<open>
  Winsock for the examples: one stream of bytes, of which a call transfers at most three, and the last error.
  At the end of the stream \<^verbatim>\<open>recv\<close> returns 0.
\<close>

definition loop_winsock :: "(byte list \<times> wsa_error) winsock" where
  "loop_winsock = \<lparr>
     wsa_socket = (\<lambda>k. (k, 5)),
     wsa_closesocket = (\<lambda>k _. k),
     wsa_connect = (\<lambda>k _ _. (k, 0)),
     wsa_bind = (\<lambda>k _ _. (k, 0)),
     wsa_listen = (\<lambda>k _ _. (k, 0)),
     wsa_accept = (\<lambda>k _. (k, 7)),
     wsa_recv = (\<lambda>(q, e) _ len. ((drop (min (nat len) 3) q, e), take (min (nat len) 3) q,
                   int (min (min (nat len) 3) (length q)))),
     wsa_send = (\<lambda>(q, e) _ bs len. ((q @ take (min (nat len) 3) bs, e), int (min (nat len) 3))),
     wsa_setsockopt = (\<lambda>k _ _. (k, 0)),
     wsa_GetLastError = snd,
     wsa_errno = (\<lambda>_. 0),
     wsa_Startup = (\<lambda>k _. k),
     wsa_Cleanup = (\<lambda>k. k),
     wsa_inet_addr = (\<lambda>_. 0)\<rparr>"

lemma loop_winsock_receives: "win_receives loop_winsock h (\<lambda>_. True) fst"
  unfolding win_receives_def
proof (intro allI impI)
  fix k :: "byte list \<times> wsa_error" and len :: int
  assume "True \<and> fst k \<noteq> [] \<and> 0 < len \<and> len < 2 ^ 31"
  then show "\<exists>k' j. wsa_recv loop_winsock k h len = (k', take j (fst k), int j) \<and> 0 < j \<and> int j \<le> len \<and>
      j \<le> length (fst k) \<and> True \<and> fst k' = drop j (fst k)"
    by (intro exI [of _ "(drop (min (nat len) 3) (fst k), snd k)"] exI [of _ "min (min (nat len) 3) (length (fst k))"])
      (auto simp: loop_winsock_def split_beta min_def)
qed

lemma loop_winsock_transmits: "win_transmits loop_winsock h (\<lambda>_. True) fst"
  unfolding win_transmits_def
proof (intro allI impI)
  fix k :: "byte list \<times> wsa_error" and bs :: "byte list" and len :: int
  assume "True \<and> 0 < len \<and> len < 2 ^ 31 \<and> len \<le> int (length bs)"
  then show "\<exists>k' j. wsa_send loop_winsock k h bs len = (k', int j) \<and> 0 < j \<and> int j \<le> len \<and> True \<and>
      fst k' = fst k @ take j bs"
    by (intro exI [of _ "(fst k @ take (min (nat len) 3) bs, snd k)"] exI [of _ "min (nat len) 3"])
      (auto simp: loop_winsock_def split_beta)
qed

interpretation loop_win_source: exact_source "WinSocket_read loop_winsock s" "\<lambda>k. True \<and> length (fst k) < 2 ^ 31" fst for s
  by (rule win_source [OF loop_winsock_receives])

interpretation loop_win_sink: stream_sink "WinSocket_write loop_winsock s" "\<lambda>_. True" fst "\<lambda>_. 2 ^ 31 - 1" for s
  by (rule win_sink [OF loop_winsock_transmits])

text \<open>What \<^verbatim>\<open>accept\<close> returns and the line that is made of it.\<close>

lemma win_accept_handle:
  assumes "wsa_accept os k (ws_socket a) = (k', h)"
  shows "0 < h \<Longrightarrow> h < 2 ^ 31 \<Longrightarrow>
      WinSocketAcceptor_waitConnection os k a t = (k', Some \<lparr>ws_address = [], ws_socket = h\<rparr>)"
    and "h = INVALID_SOCKET \<Longrightarrow> WinSocketAcceptor_waitConnection os k a t = (k', None)"
    and "2 ^ 31 \<le> h \<Longrightarrow> h < 2 ^ 32 \<Longrightarrow> WinSocketAcceptor_waitConnection os k a t = (k', None)"
  using assms
  by (simp_all add: WinSocketAcceptor_waitConnection_def WinSocket_accepted_def INVALID_SOCKET_def to_int32_def to_size_def Let_def)

section \<open>Properties\<close>

text \<open>
  C24 (win_messages): over a Windows socket whose calls transfer at least one byte, \<^verbatim>\<open>readMessage\<close> returns the
  messages of the stream in order, and \<^verbatim>\<open>sendMessage\<close> hands exactly their wire format to Winsock, as
  long as the stream is shorter than \<open>2 ^ 31\<close> bytes: the lengths are passed to Winsock as 32-bit
  signed numbers, and nothing is known of a call with a longer one.
\<close>
theorem win_messages:
  assumes "ok k" and "\<forall>m \<in> set ms. encodable m" and "length (concat (map encode ms) @ rest) < 2 ^ 31"
  shows "(win_receives os (ws_socket s) ok pending \<and> pending k = concat (map encode ms) @ rest \<longrightarrow>
      (\<exists>k'. receive_messages (WinSocket_read os s) k (length ms) = Inr (k', map (\<lambda>m. (m, 1)) ms) \<and> pending k' = rest)) \<and>
    (win_transmits os (ws_socket s) ok sent \<longrightarrow>
      (\<exists>k'. send_messages (WinSocket_write os s) k ms = Some (Inr (k', replicate (length ms) 1)) \<and>
         sent k' = sent k @ concat (map encode ms)))"
proof (intro conjI impI)
  assume *: "win_receives os (ws_socket s) ok pending \<and> pending k = concat (map encode ms) @ rest"
  then have "ok k \<and> length (pending k) < 2 ^ 31" using assms(1,3) by simp
  from exact_source.receive_pending [OF win_source [OF conjunct1 [OF *]] this conjunct2 [OF *] assms(2)]
  show "\<exists>k'. receive_messages (WinSocket_read os s) k (length ms) = Inr (k', map (\<lambda>m. (m, 1)) ms) \<and> pending k' = rest"
    by blast
next
  assume "win_transmits os (ws_socket s) ok sent"
  moreover have "length (concat (map encode ms)) \<le> 2 ^ 31 - 1" "length (concat (map encode ms)) < 2 ^ 31"
    using assms(3) by simp_all
  ultimately show "\<exists>k'. send_messages (WinSocket_write os s) k ms = Some (Inr (k', replicate (length ms) 1)) \<and>
      sent k' = sent k @ concat (map encode ms)"
    using stream_sink.send_accepted [where ok = ok and sent = sent, OF win_sink _ _ _] assms(1) by blast
qed

theorem win_messages_witness:
  "(\<exists>k'. receive_messages (WinSocket_read loop_winsock \<lparr>ws_address = [], ws_socket = 5\<rparr>)
      ([1, 0, 0, 0, 2, 0, 0, 0, 7, 8], OtherWsaError 0) 1 = Inr (k', [(\<lparr>m_frames = [Frame_move [7, 8]]\<rparr>, 1)])) \<and>
   (\<exists>k'. send_messages (WinSocket_write loop_winsock \<lparr>ws_address = [], ws_socket = 5\<rparr>)
      ([1, 0, 0, 0, 2, 0, 0, 0, 7, 8], OtherWsaError 0) [\<lparr>m_frames = [Frame_move [7, 8]]\<rparr>] = Some (Inr (k', [1])))"
proof -
  let ?m = "\<lparr>m_frames = [Frame_move [7, 8]]\<rparr>" and ?s = "\<lparr>ws_address = [], ws_socket = 5\<rparr>"
  let ?k = "([1, 0, 0, 0, 2, 0, 0, 0, 7, 8], OtherWsaError 0) :: byte list \<times> wsa_error"
  have e: "encode ?m = [1, 0, 0, 0, 2, 0, 0, 0, 7, 8]" by code_simp
  then have "\<forall>m \<in> set [?m]. encodable m" "length (concat (map encode [?m]) @ []) < 2 ^ 31"
    by (simp_all add: encodable_def Frame_move_def Frame_size_def)
  from win_messages [where ok = "\<lambda>_. True" and k = ?k and os = loop_winsock and s = ?s and pending = fst and sent = fst, OF TrueI this]
  show ?thesis using e loop_winsock_receives [of 5] loop_winsock_transmits [of 5] by fastforce
qed

end
