(* ===== verification/NamedPipe.thy ===== *)
theory NamedPipe
  imports WinSocket
begin

text \<open>
  The named pipes of src/win32/pipes.cpp: \<^verbatim>\<open>NamedPipeLine\<close>, \<^verbatim>\<open>NamedPipeAcceptor\<close> and \<^verbatim>\<open>NamedPipeLineFactory\<close>.
  A client opens the pipe of the server's address, reads from it the name of a second pipe that the
  server made for this connection, and opens that one. The Windows functions are a parameter,
  a record of functions on the state of the system; a call that blocks includes what other processes do meanwhile.
\<close>

section \<open>The operating system\<close>

definition INVALID_HANDLE_VALUE :: int where
  "INVALID_HANDLE_VALUE = - 1"

definition ERROR_PIPE_CONNECTED :: nat where "ERROR_PIPE_CONNECTED = 535"
definition ERROR_IO_PENDING :: nat where "ERROR_IO_PENDING = 997"
definition WAIT_OBJECT_0 :: nat where "WAIT_OBJECT_0 = 0"

datatype pipe_type = Message_pipe | Byte_pipe

text \<open>
  \<^verbatim>\<open>ReadFile\<close> returns whether it succeeded and the bytes it stored, whose number is the one it
  reports (0 when it stored none); \<^verbatim>\<open>WriteFile\<close> returns whether it succeeded and the number it reports.
\<close>

record 'k win32 =
  CreateFile :: "'k \<Rightarrow> string \<Rightarrow> 'k \<times> int"
  SetNamedPipeHandleState :: "'k \<Rightarrow> int \<Rightarrow> 'k \<times> bool"
  GetLastError :: "'k \<Rightarrow> nat"
  ReadFile :: "'k \<Rightarrow> int \<Rightarrow> nat \<Rightarrow> 'k \<times> bool \<times> byte list"
  WriteFile :: "'k \<Rightarrow> int \<Rightarrow> byte list \<Rightarrow> 'k \<times> bool \<times> nat"
  CloseHandle :: "'k \<Rightarrow> int \<Rightarrow> 'k"
  CreateNamedPipe :: "'k \<Rightarrow> string \<Rightarrow> pipe_type \<Rightarrow> nat \<Rightarrow> 'k \<times> int"
  ConnectNamedPipe :: "'k \<Rightarrow> int \<Rightarrow> int \<Rightarrow> 'k \<times> bool"
  CreateEvent :: "'k \<Rightarrow> 'k \<times> int"
  WaitForSingleObject :: "'k \<Rightarrow> int \<Rightarrow> nat \<Rightarrow> 'k \<times> nat"
  GetOverlappedResult :: "'k \<Rightarrow> int \<Rightarrow> int \<Rightarrow> 'k \<times> bool"
  CancelIo :: "'k \<Rightarrow> int \<Rightarrow> 'k"
  FlushFileBuffers :: "'k \<Rightarrow> int \<Rightarrow> 'k"
  DisconnectNamedPipe :: "'k \<Rightarrow> int \<Rightarrow> 'k"

definition pipePrefix :: string where
  "pipePrefix = [CHR 0x5C, CHR 0x5C, CHR ''.'', CHR 0x5C] @ ''pipe'' @ [CHR 0x5C]"

section \<open>NamedPipeLine\<close>

record pipe_line =
  np_address :: string
  np_pipe :: int

definition NamedPipeLine_connect :: "'k win32 \<Rightarrow> 'k \<Rightarrow> string \<Rightarrow> ('k, pipe_line) call" where
  "NamedPipeLine_connect os k address =
     (let (k1, serverPipe) = CreateFile os k (c_str (pipePrefix @ address)) in
      if serverPipe = INVALID_HANDLE_VALUE
      then (k1, Inl (Throw (IoException (''[1]Unable to open pipe: '' @ to_string (int (GetLastError os k1))))))
      else
        let (k2, ok) = SetNamedPipeHandleState os k1 serverPipe in
        if \<not> ok \<and> GetLastError os k2 \<noteq> 0
        then (k2, Inl (Throw (IoException (''[2]Unable to open pipe: '' @ to_string (int (GetLastError os k2))))))
        else
          let (k3, _, pipeName) = ReadFile os k2 serverPipe 1024;
              k4 = CloseHandle os k3 serverPipe;
              newAddress = string_of_bytes pipeName
          in if newAddress = [] then (k4, Inl (Throw (IoException ''Invalid new address'')))
             else
               let (k5, pipe) = CreateFile os k4 (c_str (pipePrefix @ newAddress)) in
               if pipe = INVALID_HANDLE_VALUE
               then (k5, Inl (Throw (IoException (''[3]Unable to open pipe: '' @ to_string (int (GetLastError os k5))))))
               else (k5, Inr \<lparr>np_address = newAddress, np_pipe = pipe\<rparr>))"

definition NamedPipeLine_server :: "int \<Rightarrow> string \<Rightarrow> pipe_line" where
  "NamedPipeLine_server fd address = \<lparr>np_address = address, np_pipe = fd\<rparr>"

text \<open>The destructor has an empty body.\<close>

definition NamedPipeLine_destroy :: "'k win32 \<Rightarrow> 'k \<Rightarrow> pipe_line \<Rightarrow> 'k" where
  "NamedPipeLine_destroy os k l = k"

text \<open>The lengths are \<^verbatim>\<open>DWORD\<close>s.\<close>

definition NamedPipeLine_read :: "'k win32 \<Rightarrow> pipe_line \<Rightarrow> 'k line_read" where
  "NamedPipeLine_read os l k buflen =
     (let (k1, ok, out) = ReadFile os k (np_pipe l) (to_DWORD (int buflen))
      in Inr (k1, out, if \<not> ok then 0 else int (length out)))"

definition NamedPipeLine_write :: "'k win32 \<Rightarrow> pipe_line \<Rightarrow> 'k line_write" where
  "NamedPipeLine_write os l k buffer =
     (let (k1, ok, wr) = WriteFile os k (np_pipe l) (take (to_DWORD (int (length buffer))) buffer)
      in Inr (k1, if \<not> ok then 0 else int wr))"

definition NamedPipeLine_setOption :: "pipe_line \<Rightarrow> LineOption \<Rightarrow> int \<Rightarrow> pipe_line" where
  "NamedPipeLine_setOption l option data = l"

section \<open>NamedPipeAcceptor and NamedPipeLineFactory\<close>

record pipe_acceptor =
  pa_address :: string
  pa_pipe :: int
  pa_waitingPipe :: int
  pa_counter :: int

text \<open>The constructor initialises neither \<^verbatim>\<open>m_waitingPipe\<close> nor \<^verbatim>\<open>m_counter\<close>: \<open>w\<close> and \<open>c\<close> are the values they happen to have.\<close>

definition NamedPipeAcceptor_new ::
    "'k win32 \<Rightarrow> int \<Rightarrow> int \<Rightarrow> 'k \<Rightarrow> string \<Rightarrow> ('k, pipe_acceptor) call" where
  "NamedPipeAcceptor_new os w c k address =
     (let (k1, pipe) = CreateNamedPipe os k (c_str (pipePrefix @ address)) Message_pipe 8192
      in if pipe = INVALID_HANDLE_VALUE
         then (k1, Inl (Throw (IoException (''Unable to create pipe: '' @ to_string (int (GetLastError os k1))))))
         else (k1, Inr \<lparr>pa_address = address, pa_pipe = pipe, pa_waitingPipe = w, pa_counter = c\<rparr>))"

definition NamedPipeAcceptor_destroy :: "'k win32 \<Rightarrow> 'k \<Rightarrow> pipe_acceptor \<Rightarrow> 'k" where
  "NamedPipeAcceptor_destroy os k a = CloseHandle os k (pa_pipe a)"

definition connectPipe :: "'k win32 \<Rightarrow> 'k \<Rightarrow> int \<Rightarrow> int \<Rightarrow> 'k \<times> bool" where
  "connectPipe os k pipe msec =
     (let (k1, hEvent) = CreateEvent os k;
          (k2, ret) = ConnectNamedPipe os k1 pipe hEvent;
          (k3, ret') =
            (if ret then (k2, True)
             else if GetLastError os k2 = ERROR_PIPE_CONNECTED then (k2, True)
             else if GetLastError os k2 = ERROR_IO_PENDING then
               (let (k4, w) = WaitForSingleObject os k2 hEvent (to_DWORD msec)
                in if w = WAIT_OBJECT_0 then GetOverlappedResult os k4 pipe hEvent else (CancelIo os k4 pipe, False))
             else (k2, False))
      in (CloseHandle os k3 hEvent, ret'))"

definition NamedPipeAcceptor_waitConnection ::
    "'k win32 \<Rightarrow> 'k \<Rightarrow> pipe_acceptor \<Rightarrow> int \<Rightarrow> 'k \<times> pipe_acceptor \<times> pipe_line option" where
  "NamedPipeAcceptor_waitConnection os k a timeoutInMs =
     (let newPipeAddress = pa_address a @ to_string (pa_counter a);
          (k1, waiting) = CreateNamedPipe os k (c_str (pipePrefix @ newPipeAddress)) Byte_pipe 65536;
          a1 = a\<lparr>pa_counter := to_int32 (pa_counter a + 1), pa_waitingPipe := waiting\<rparr>;
          (k2, ret) = connectPipe os k1 (pa_pipe a) timeoutInMs
      in if \<not> ret then (CloseHandle os k2 waiting, a1, None)
         else
           let (k3, _, _) = WriteFile os k2 (pa_pipe a) (bytes_of_string newPipeAddress);
               k4 = DisconnectNamedPipe os (FlushFileBuffers os k3 (pa_pipe a)) (pa_pipe a);
               (k5, ret') = connectPipe os k4 waiting timeoutInMs
           in if \<not> ret' then (CloseHandle os k5 waiting, a1, None)
              else (k5, a1, Some (NamedPipeLine_server waiting newPipeAddress)))"

definition NamedPipeLineFactory_supportsScheme :: "string \<Rightarrow> bool" where
  "NamedPipeLineFactory_supportsScheme scheme \<longleftrightarrow> scheme = ''local''"

definition NamedPipeLineFactory_createClient :: "'k win32 \<Rightarrow> 'k \<Rightarrow> string \<Rightarrow> ('k, pipe_line option) call" where
  "NamedPipeLineFactory_createClient os k address =
     (case NamedPipeLine_connect os k address of (k1, Inl e) \<Rightarrow> (k1, Inl e) | (k1, Inr l) \<Rightarrow> (k1, Inr (Some l)))"

definition NamedPipeLineFactory_createServer ::
    "'k win32 \<Rightarrow> int \<Rightarrow> int \<Rightarrow> 'k \<Rightarrow> string \<Rightarrow> ('k, pipe_acceptor option) call" where
  "NamedPipeLineFactory_createServer os w c k address =
     (case NamedPipeAcceptor_new os w c k address of (k1, Inl e) \<Rightarrow> (k1, Inl e) | (k1, Inr a) \<Rightarrow> (k1, Inr (Some a)))"

section \<open>Names\<close>

lemma nat_to_string_inj: "nat_to_string m = nat_to_string n \<Longrightarrow> m = n"
  by (metis digits_value_nat_to_string)

lemma nat_to_string_no_minus: "nat_to_string n \<noteq> CHR ''-'' # cs"
  using nat_to_string_digits [of n] is_digit_plain by (metis list.set_intros(1))

lemma to_string_inj:
  assumes "to_string x = to_string y"
  shows "x = y"
proof (cases "x < 0"; cases "y < 0")
  assume "x < 0" "y < 0"
  with assms nat_to_string_inj [of "nat (- x)" "nat (- y)"] show ?thesis by (simp add: to_string_def)
next
  assume "\<not> x < 0" "\<not> y < 0"
  with assms nat_to_string_inj [of "nat x" "nat y"] show ?thesis by (simp add: to_string_def)
next
  assume "x < 0" "\<not> y < 0"
  with assms nat_to_string_no_minus [of "nat y" "nat_to_string (nat (- x))"] show ?thesis by (simp add: to_string_def)
next
  assume "\<not> x < 0" "y < 0"
  with assms nat_to_string_no_minus [of "nat x" "nat_to_string (nat (- y))"] show ?thesis by (simp add: to_string_def)
qed

text \<open>\<open>n\<close> calls of \<^verbatim>\<open>waitConnection\<close>, one after the other, with the name each of them announces.\<close>

primrec waitConnections :: "'k win32 \<Rightarrow> int \<Rightarrow> nat \<Rightarrow> 'k \<Rightarrow> pipe_acceptor \<Rightarrow> string list" where
  "waitConnections os t 0 k a = []"
| "waitConnections os t (Suc n) k a =
     (let (k', a', _) = NamedPipeAcceptor_waitConnection os k a t
      in (pa_address a @ to_string (pa_counter a)) # waitConnections os t n k' a')"

lemma waitConnection_acceptor:
  "fst (snd (NamedPipeAcceptor_waitConnection os k a t)) =
   a\<lparr>pa_counter := to_int32 (pa_counter a + 1),
     pa_waitingPipe := snd (CreateNamedPipe os k (c_str (pipePrefix @ pa_address a @ to_string (pa_counter a))) Byte_pipe 65536)\<rparr>"
  by (simp add: NamedPipeAcceptor_waitConnection_def Let_def split_beta)

lemma waitConnection_line:
  "snd (snd (NamedPipeAcceptor_waitConnection os k a t)) = Some l \<Longrightarrow>
   np_address l = pa_address a @ to_string (pa_counter a)"
  by (auto simp: NamedPipeAcceptor_waitConnection_def NamedPipeLine_server_def Let_def split_beta split: if_splits)

lemma to_int32_mod: "to_int32 x mod 2 ^ 32 = x mod 2 ^ 32"
  by (simp add: to_int32_def Let_def)

lemma to_int32_add: "to_int32 (to_int32 x + y) = to_int32 (x + y)"
proof -
  have "(to_int32 x + y) mod 2 ^ 32 = (x + y) mod 2 ^ 32"
    using to_int32_mod [of x] by (metis mod_add_left_eq)
  then show ?thesis by (simp add: to_int32_def [of "to_int32 x + y"] to_int32_def [of "x + y"])
qed

lemma waitConnections_names:
  "to_int32 (pa_counter a) = pa_counter a \<Longrightarrow>
   waitConnections os t n k a = map (\<lambda>i. pa_address a @ to_string (to_int32 (pa_counter a + int i))) [0 ..< n]"
proof (induction n arbitrary: k a)
  case (Suc n)
  obtain k' l where step: "NamedPipeAcceptor_waitConnection os k a t = (k', fst (snd (NamedPipeAcceptor_waitConnection os k a t)), l)"
    by (metis prod.collapse)
  let ?a = "fst (snd (NamedPipeAcceptor_waitConnection os k a t))"
  have a: "pa_address ?a = pa_address a" "pa_counter ?a = to_int32 (pa_counter a + 1)"
    by (simp_all add: waitConnection_acceptor)
  have "to_int32 (pa_counter ?a) = pa_counter ?a" using to_int32_add [of "pa_counter a + 1" 0] by (simp add: a)
  from Suc.IH [OF this, of k'] have "waitConnections os t n k' ?a =
      map (\<lambda>i. pa_address a @ to_string (to_int32 (pa_counter a + int (Suc i)))) [0 ..< n]"
    by (simp only: a to_int32_add add.assoc of_nat_Suc)
  then have "waitConnections os t (Suc n) k a = (pa_address a @ to_string (pa_counter a)) #
      map (\<lambda>i. pa_address a @ to_string (to_int32 (pa_counter a + int (Suc i)))) [0 ..< n]"
    by (subst waitConnections.simps, subst step) simp
  then show ?case using Suc.prems by (simp add: upt_conv_Cons map_Suc_upt [symmetric] del: upt_Suc)
qed simp

lemma to_int32_distinct:
  assumes "to_int32 (c + int i) = to_int32 (c + int j)" and "i < 2 ^ 32" and "j < 2 ^ 32"
  shows "i = j"
proof -
  have "(c + int i) mod 2 ^ 32 = (c + int j) mod 2 ^ 32"
    using arg_cong [OF assms(1), of "\<lambda>x. x mod 2 ^ 32"] by (simp only: to_int32_mod)
  then have "(int i - int j) mod 2 ^ 32 = 0" by (metis add_diff_cancel_left mod_eq_dvd_iff dvd_eq_mod_eq_0)
  then have "(2 :: int) ^ 32 dvd int i - int j" by (simp add: dvd_eq_mod_eq_0)
  moreover have "\<bar>int i - int j\<bar> < 2 ^ 32" using assms(2,3) by simp
  ultimately show ?thesis using dvd_imp_le_int [of "int i - int j" "2 ^ 32"] by fastforce
qed

section \<open>Handles\<close>

text \<open>
  \<open>opens k\<close> are the open handles. The functions that create an object open a new one or, when they fail, none;
  \<^verbatim>\<open>CloseHandle\<close> closes the one it is given; the others leave all as they are.
\<close>

definition opens_one :: "('k \<Rightarrow> int set) \<Rightarrow> 'k \<Rightarrow> 'k \<times> int \<Rightarrow> int \<Rightarrow> bool" where
  "opens_one opens k r failed \<longleftrightarrow>
     (if snd r = failed then opens (fst r) = opens k
      else snd r \<notin> opens k \<and> opens (fst r) = insert (snd r) (opens k))"

definition tracks_handles :: "'k win32 \<Rightarrow> ('k \<Rightarrow> int set) \<Rightarrow> bool" where
  "tracks_handles os opens \<longleftrightarrow> (\<forall>k.
     INVALID_HANDLE_VALUE \<notin> opens k \<and> 0 \<notin> opens k \<and>
     (\<forall>n ty b. opens_one opens k (CreateNamedPipe os k n ty b) INVALID_HANDLE_VALUE) \<and>
     opens_one opens k (CreateEvent os k) 0 \<and>
     (\<forall>h. opens (CloseHandle os k h) = opens k - {h}) \<and>
     (\<forall>h e. opens (fst (ConnectNamedPipe os k h e)) = opens k) \<and>
     (\<forall>h m. opens (fst (WaitForSingleObject os k h m)) = opens k) \<and>
     (\<forall>h e. opens (fst (GetOverlappedResult os k h e)) = opens k) \<and>
     (\<forall>h. opens (CancelIo os k h) = opens k) \<and>
     (\<forall>h bs. opens (fst (WriteFile os k h bs)) = opens k) \<and>
     (\<forall>h. opens (FlushFileBuffers os k h) = opens k) \<and>
     (\<forall>h. opens (DisconnectNamedPipe os k h) = opens k))"

lemma tracks_handlesD:
  assumes "tracks_handles os opens"
  shows "INVALID_HANDLE_VALUE \<notin> opens k" and "0 \<notin> opens k"
    and "opens_one opens k (CreateNamedPipe os k n ty b) INVALID_HANDLE_VALUE" and "opens_one opens k (CreateEvent os k) 0"
    and "opens (CloseHandle os k h) = opens k - {h}"
    and "opens (fst (ConnectNamedPipe os k h e)) = opens k"
    and "opens (fst (WaitForSingleObject os k h m)) = opens k"
    and "opens (fst (GetOverlappedResult os k h e)) = opens k"
    and "opens (CancelIo os k h) = opens k" and "opens (fst (WriteFile os k h bs)) = opens k"
    and "opens (FlushFileBuffers os k h) = opens k" and "opens (DisconnectNamedPipe os k h) = opens k"
  using assms by (simp_all add: tracks_handles_def)

lemma connectPipe_handles:
  assumes "tracks_handles os opens"
  shows "opens (fst (connectPipe os k pipe msec)) = opens k"
proof -
  let ?k1 = "fst (CreateEvent os k)" and ?h = "snd (CreateEvent os k)"
  have "opens (fst (connectPipe os k pipe msec)) = opens ?k1 - {?h}"
    by (simp add: connectPipe_def Let_def split_beta tracks_handlesD(5-9) [OF assms])
  then show ?thesis
    using tracks_handlesD(4) [OF assms, of k] tracks_handlesD(2) [OF assms, of k] by (auto simp: opens_one_def split: if_splits)
qed

lemma waitConnection_handles:
  assumes "tracks_handles os opens" and "NamedPipeAcceptor_waitConnection os k a t = (k', a', r)"
  shows "case r of None \<Rightarrow> opens k' = opens k
    | Some l \<Rightarrow> np_pipe l \<notin> opens k \<and> opens k' = opens k \<union> ({np_pipe l} - {INVALID_HANDLE_VALUE})"
proof -
  let ?name = "pa_address a @ to_string (pa_counter a)"
  obtain k1 h where h: "CreateNamedPipe os k (c_str (pipePrefix @ ?name)) Byte_pipe 65536 = (k1, h)" by fastforce
  have o1: "opens k1 = opens k \<union> ({h} - {INVALID_HANDLE_VALUE})" "h \<notin> opens k"
    using tracks_handlesD(3) [OF assms(1), of k "c_str (pipePrefix @ ?name)" Byte_pipe 65536]
      tracks_handlesD(1) [OF assms(1), of k]
    by (auto simp: h opens_one_def split: if_splits)
  note same = connectPipe_handles [OF assms(1)] tracks_handlesD(5,10-12) [OF assms(1)]
  from assms(2) o1 show ?thesis
    by (auto simp: NamedPipeAcceptor_waitConnection_def NamedPipeLine_server_def h same Let_def split_beta split: if_splits)
qed

section \<open>Broken pipes\<close>

definition pipe_broken :: "'k win32 \<Rightarrow> int \<Rightarrow> ('k \<Rightarrow> bool) \<Rightarrow> bool" where
  "pipe_broken os h broken \<longleftrightarrow> (\<forall>k. broken k \<longrightarrow>
     (\<forall>bs. \<exists>k' n. WriteFile os k h bs = (k', False, n) \<and> broken k') \<and>
     (\<forall>n. \<exists>k'. ReadFile os k h n = (k', False, []) \<and> broken k'))"

lemma broken_write:
  assumes "pipe_broken os (np_pipe l) broken" and "broken k"
  shows "\<exists>k'. NamedPipeLine_write os l k bs = Inr (k', 0) \<and> broken k'"
proof -
  from assms obtain k' n where "WriteFile os k (np_pipe l) (take (to_DWORD (int (length bs))) bs) = (k', False, n)" "broken k'"
    unfolding pipe_broken_def by blast
  then show ?thesis by (simp add: NamedPipeLine_write_def)
qed

lemma broken_ending:
  assumes "pipe_broken os (np_pipe l) broken"
  shows "ending_source (NamedPipeLine_read os l) broken (\<lambda>_. []) 0"
proof
  fix k and n :: nat
  assume "broken k"
  with assms obtain k' where "ReadFile os k (np_pipe l) (to_DWORD (int n)) = (k', False, [])" "broken k'"
    unfolding pipe_broken_def by blast
  then show "\<exists>k'. NamedPipeLine_read os l k n = Inr (k', [], 0) \<and> broken k' \<and> [] = []"
    by (simp add: NamedPipeLine_read_def)
qed simp_all

text \<open>A system for the examples: the open handles as a list; pipes connect at once, reads and writes fail.\<close>

definition new_handle :: "int list \<Rightarrow> int" where
  "new_handle k = Max (set (0 # k)) + 1"

lemma new_handle: "0 < new_handle k" "new_handle k \<notin> set k"
proof -
  have "x < new_handle k" if "x \<in> set (0 # k)" for x
    using Max_ge [OF _ that] unfolding new_handle_def by fastforce
  then show "0 < new_handle k" "new_handle k \<notin> set k" by auto
qed

definition mini_win32 :: "int list win32" where
  "mini_win32 = \<lparr>
     CreateFile = (\<lambda>k _. (k, INVALID_HANDLE_VALUE)),
     SetNamedPipeHandleState = (\<lambda>k _. (k, True)),
     GetLastError = (\<lambda>_. 0),
     ReadFile = (\<lambda>k _ _. (k, False, [])),
     WriteFile = (\<lambda>k _ _. (k, False, 0)),
     CloseHandle = (\<lambda>k h. removeAll h k),
     CreateNamedPipe = (\<lambda>k _ _ _. (new_handle k # k, new_handle k)),
     ConnectNamedPipe = (\<lambda>k _ _. (k, True)),
     CreateEvent = (\<lambda>k. (k, 0)),
     WaitForSingleObject = (\<lambda>k _ _. (k, 0)),
     GetOverlappedResult = (\<lambda>k _ _. (k, True)),
     CancelIo = (\<lambda>k _. k),
     FlushFileBuffers = (\<lambda>k _. k),
     DisconnectNamedPipe = (\<lambda>k _. k)\<rparr>"

lemma mini_win32_tracks: "tracks_handles mini_win32 (\<lambda>k. {h \<in> set k. 0 < h})"
proof -
  have "new_handle k \<noteq> - 1" for k using new_handle(1) [of k] by linarith
  then show ?thesis
    using new_handle by (auto simp: tracks_handles_def opens_one_def mini_win32_def INVALID_HANDLE_VALUE_def)
qed

section \<open>Properties\<close>

text \<open>
  The names of the second pipes. Whatever the calls return, the names that successive calls
  of \<^verbatim>\<open>waitConnection\<close> on one acceptor announce to their clients are distinct, up to \<open>2 ^ 32\<close> calls and whatever value
  the counter started with; and the line a call returns is that of the name it announced.
\<close>
lemma pipe_names_distinct:
  assumes "to_int32 (pa_counter a) = pa_counter a" and "n \<le> 2 ^ 32"
  shows "distinct (waitConnections os t n k a) \<and>
    (\<forall>l. snd (snd (NamedPipeAcceptor_waitConnection os k a t)) = Some l \<longrightarrow>
       np_address l = pa_address a @ to_string (pa_counter a))"
proof -
  have "inj_on (\<lambda>i. pa_address a @ to_string (to_int32 (pa_counter a + int i))) {0 ..< n}"
    using assms(2) by (auto intro!: inj_onI dest!: to_string_inj dest: to_int32_distinct)
  then show ?thesis
    using waitConnection_line [of os k a t] by (auto simp: waitConnections_names [OF assms(1)] distinct_map)
qed

text \<open>
  What \<^verbatim>\<open>waitConnection\<close> of a pipe acceptor does with handles, on every path. When it returns null,
  the pipe and the events it created are closed again; when it returns a line, exactly the handle of that line is
  open in addition, and it is a new one. The destructor of the line does not close it.
\<close>
lemma pipe_handles:
  assumes "tracks_handles os opens" and "NamedPipeAcceptor_waitConnection os k a t = (k', a', r)"
  shows "(r = None \<longrightarrow> opens k' = opens k) \<and>
    (\<forall>l. r = Some l \<longrightarrow> np_pipe l \<notin> opens k \<and>
       opens k' = opens k \<union> ({np_pipe l} - {INVALID_HANDLE_VALUE}) \<and>
       opens (NamedPipeLine_destroy os k' l) = opens k')"
  using waitConnection_handles [OF assms] by (auto simp: NamedPipeLine_destroy_def)

text \<open>
  C33 (broken_pipe): a pipe whose other end is gone. \<^verbatim>\<open>read\<close> and \<^verbatim>\<open>write\<close> report the failure as 0, not as an error code. \<^verbatim>\<open>readMessage\<close>
  takes this for the end of the stream and returns 0, but \<^verbatim>\<open>sendMessage\<close> writes again and again and never returns.
\<close>
theorem broken_pipe:
  assumes "pipe_broken os (np_pipe l) broken" and "broken k" and "length (encode m) < 2 ^ 31"
  shows "MessageProtocol_sendMessage (NamedPipeLine_write os l) k m = None \<and>
    (\<exists>k'. MessageProtocol_readMessage (NamedPipeLine_read os l) k Message_new = Inr (k', Message_new, 0) \<and> broken k')"
  using sendMessage_zero_diverges [where P = broken and wr = "NamedPipeLine_write os l", OF assms(2) broken_write [OF assms(1)] assms(3)]
    ending_source.readMessage_end [OF broken_ending [OF assms(1)] assms(2) refl] by blast

theorem broken_pipe_witness:
  "MessageProtocol_sendMessage (NamedPipeLine_write mini_win32 \<lparr>np_address = ''p0'', np_pipe = 3\<rparr>) [3] Message_new = None"
proof -
  have "pipe_broken mini_win32 (np_pipe \<lparr>np_address = ''p0'', np_pipe = 3\<rparr>) (\<lambda>_. True)"
    by (simp add: pipe_broken_def mini_win32_def)
  moreover have "length (encode Message_new) < 2 ^ 31" by (simp add: encode_def Message_new_def)
  ultimately have "MessageProtocol_sendMessage (NamedPipeLine_write mini_win32 \<lparr>np_address = ''p0'', np_pipe = 3\<rparr>) [3] Message_new = None \<and>
    (\<exists>k'. MessageProtocol_readMessage (NamedPipeLine_read mini_win32 \<lparr>np_address = ''p0'', np_pipe = 3\<rparr>) [3] Message_new =
       Inr (k', Message_new, 0) \<and> True)"
    by (intro broken_pipe) simp_all
  then show ?thesis by simp
qed

end
