(* ===== verification/WinManager.thy ===== *)
theory WinManager
  imports CApi NamedPipe
begin

text \<open>
  \<^verbatim>\<open>createLineManager\<close> of src/win32/createlinemanager.cpp: the factories of inter-thread lines, named pipes
  and Windows sockets behind one manager. The state is the registry of inter-thread lines with that of
  the operating system; the two records of system functions work on the same state.
\<close>

section \<open>The factories\<close>

datatype win_line = WinInproc_line nat | Pipe_line pipe_line | WinTcp_line win_socket

datatype win_acceptor = WinInproc_acceptor nat | Pipe_acceptor pipe_acceptor | WinTcp_acceptor win_socket

definition win_inproc_factory :: "nat list \<Rightarrow> ('k world, win_line, win_acceptor) IoLineFactory" where
  "win_inproc_factory accs = \<lparr>
     supportsScheme = InprocLineFactory_supportsScheme,
     factory_createClient = (\<lambda>w address.
       in_inproc w (InprocLineFactory_createClient (fst w) address accs) (\<lambda>l. Some (WinInproc_line l))),
     factory_createServer = (\<lambda>w address.
       in_inproc w (InprocLineFactory_createServer (fst w) address) (map_option WinInproc_acceptor))\<rparr>"

text \<open>\<open>p\<close> and \<open>c\<close>: what the members of a new acceptor that are not initialised happen to hold.\<close>

definition pipe_factory :: "'k win32 \<Rightarrow> int \<Rightarrow> int \<Rightarrow> ('k world, win_line, win_acceptor) IoLineFactory" where
  "pipe_factory os p c = \<lparr>
     supportsScheme = NamedPipeLineFactory_supportsScheme,
     factory_createClient = (\<lambda>w address.
       in_kernel w (NamedPipeLineFactory_createClient os (snd w) address) (map_option Pipe_line)),
     factory_createServer = (\<lambda>w address.
       in_kernel w (NamedPipeLineFactory_createServer os p c (snd w) address) (map_option Pipe_acceptor))\<rparr>"

definition winsock_factory :: "'k winsock \<Rightarrow> ('k world, win_line, win_acceptor) IoLineFactory" where
  "winsock_factory os = \<lparr>
     supportsScheme = WinSocketFactory_supportsScheme,
     factory_createClient = (\<lambda>w address.
       in_kernel w (WinSocketFactory_createClient os (snd w) address) (map_option WinTcp_line)),
     factory_createServer = (\<lambda>w address.
       in_kernel w (WinSocketFactory_createServer os (snd w) address) (map_option WinTcp_acceptor))\<rparr>"

text \<open>Making the socket factory starts Winsock.\<close>

definition win_createLineManager ::
    "'k winsock \<Rightarrow> 'k win32 \<Rightarrow> int \<Rightarrow> int \<Rightarrow> nat list \<Rightarrow> 'k world \<Rightarrow>
     'k world \<times> ('k world, win_line, win_acceptor) IoLineManager" where
  "win_createLineManager ws os p c accs w =
     ((fst w, WinSocketFactory_new ws (snd w)),
      IoLineManager_registerFactory
        (IoLineManager_registerFactory
          (IoLineManager_registerFactory IoLineManager_new (win_inproc_factory accs)) (pipe_factory os p c))
        (winsock_factory ws))"

lemma win_manager_factories:
  "factories (snd (win_createLineManager ws os p c accs w)) = [win_inproc_factory accs, pipe_factory os p c, winsock_factory ws]"
  by (simp add: win_createLineManager_def IoLineManager_registerFactory_def IoLineManager_new_def)

text \<open>A system for the examples on which every call fails.\<close>

definition dead_win32 :: "'k win32" where
  "dead_win32 = \<lparr>
     CreateFile = (\<lambda>k _. (k, INVALID_HANDLE_VALUE)), SetNamedPipeHandleState = (\<lambda>k _. (k, False)),
     GetLastError = (\<lambda>_. 2), ReadFile = (\<lambda>k _ _. (k, False, [])), WriteFile = (\<lambda>k _ _. (k, False, 0)),
     CloseHandle = (\<lambda>k _. k), CreateNamedPipe = (\<lambda>k _ _ _. (k, INVALID_HANDLE_VALUE)),
     ConnectNamedPipe = (\<lambda>k _ _. (k, False)), CreateEvent = (\<lambda>k. (k, 0)), WaitForSingleObject = (\<lambda>k _ _. (k, 258)),
     GetOverlappedResult = (\<lambda>k _ _. (k, False)), CancelIo = (\<lambda>k _. k), FlushFileBuffers = (\<lambda>k _. k),
     DisconnectNamedPipe = (\<lambda>k _. k)\<rparr>"

section \<open>Routing\<close>

text \<open>
  The manager of \<^verbatim>\<open>createLineManager\<close> on Windows, made after Winsock has been started, passes
  \<^verbatim>\<open>inproc://\<close>, \<^verbatim>\<open>local://\<close> and \<^verbatim>\<open>tcp://\<close> addresses, without the prefix, to the factories of inter-thread
  lines, named pipes and sockets, for clients and servers, turning an \<^verbatim>\<open>IoException\<close> into a null pointer; for any other
  scheme it returns a null pointer and changes nothing.
\<close>
lemma win_schemes_routed:
  assumes "win_createLineManager ws os p c accs w0 = (w, m)"
    and "plain scheme" and "scheme \<notin> {''inproc'', ''local'', ''tcp''}"
  shows "w = (fst w0, wsa_Startup ws (snd w0) 514) \<and>
    LineManager.IoLineManager_createClient m w (''inproc://'' @ a) =
      null_on_IoException (in_inproc w (InprocLineFactory_createClient (fst w) a accs) (\<lambda>l. Some (WinInproc_line l))) \<and>
    LineManager.IoLineManager_createClient m w (''local://'' @ a) =
      null_on_IoException (in_kernel w (NamedPipeLineFactory_createClient os (snd w) a) (map_option Pipe_line)) \<and>
    LineManager.IoLineManager_createClient m w (''tcp://'' @ a) =
      null_on_IoException (in_kernel w (WinSocketFactory_createClient ws (snd w) a) (map_option WinTcp_line)) \<and>
    IoLineManager_createServer m w (''inproc://'' @ a) =
      null_on_IoException (in_inproc w (InprocLineFactory_createServer (fst w) a) (map_option WinInproc_acceptor)) \<and>
    IoLineManager_createServer m w (''local://'' @ a) =
      null_on_IoException (in_kernel w (NamedPipeLineFactory_createServer os p c (snd w) a) (map_option Pipe_acceptor)) \<and>
    IoLineManager_createServer m w (''tcp://'' @ a) =
      null_on_IoException (in_kernel w (WinSocketFactory_createServer ws (snd w) a) (map_option WinTcp_acceptor)) \<and>
    LineManager.IoLineManager_createClient m w (scheme @ ''://'' @ a) = (w, Inr None)"
proof -
  have f: "factories m = [win_inproc_factory accs, pipe_factory os p c, winsock_factory ws]"
    using win_manager_factories [of ws os p c accs w0] by (simp add: assms(1))
  have w: "w = (fst w0, wsa_Startup ws (snd w0) 514)"
    using assms(1) by (simp add: win_createLineManager_def WinSocketFactory_new_def)
  note route = f win_inproc_factory_def pipe_factory_def winsock_factory_def InprocLineFactory_supportsScheme_def
    NamedPipeLineFactory_supportsScheme_def WinSocketFactory_supportsScheme_def
  have plains: "plain ''inproc''" "plain ''local''" "plain ''tcp''" by (simp_all add: plain_def)
  show ?thesis
    using create_plain [OF plains(1), of m w a] create_plain [OF plains(2), of m w a] create_plain [OF plains(3), of m w a]
      create_plain [OF assms(2), of m w a] assms(3) w
    by (simp add: route)
qed

end
