(* ===== verification/PythonBindings.thy ===== *)
theory PythonBindings
  imports Complex_Main CApi
begin

text \<open>
  The wrappers of bindings/python/python_bindings.cpp, which Boost.Python exports as the module \<^verbatim>\<open>pycppio\<close>. The
  classes they wrap are arguments (the virtual functions of a line or acceptor, a manager). Of the Python C
  interface the model has byte objects and the interpreter lock, which a thread must hold to call it
  and which \<^verbatim>\<open>ScopedGILRelease\<close> gives up for the time of a call into the library; the functions on byte
  objects are parameters.

  A wrapper is a computation on the lock and the state of the library that returns a value or raises; the state
  it leaves is there in both cases.
\<close>

section \<open>Computations\<close>

datatype py_object = PyByteArray "byte list" | PyBytes "byte list" | PyOther

text \<open>
  What leaves a wrapper other than a result: \<^verbatim>\<open>std::runtime_error\<close>, an exception the interpreter raised,
  a call of the interpreter without its lock, or a failure of the C++ code.
\<close>

datatype py_failure = RuntimeError string | PyException string | NoInterpreterLock | Cpp failure

text \<open>The state is whether the calling thread holds the interpreter lock, with the state of the library.\<close>

type_synonym ('s, 'r) py = "bool \<times> 's \<Rightarrow> (bool \<times> 's) \<times> (py_failure + 'r)"

definition py_pure :: "'r \<Rightarrow> ('s, 'r) py" where
  "py_pure x st = (st, Inr x)"

definition py_raise :: "py_failure \<Rightarrow> ('s, 'r) py" where
  "py_raise e st = (st, Inl e)"

definition py_bind :: "('s, 'r) py \<Rightarrow> ('r \<Rightarrow> ('s, 'q) py) \<Rightarrow> ('s, 'q) py" where
  "py_bind c f st = (case c st of (st', Inl e) \<Rightarrow> (st', Inl e) | (st', Inr x) \<Rightarrow> f x st')"

text \<open>A call of the interpreter, or an access to memory it owns: the thread must hold the lock.\<close>

definition interp :: "py_failure + 'r \<Rightarrow> ('s, 'r) py" where
  "interp r st = (st, if fst st then r else Inl NoInterpreterLock)"

text \<open>C++ code that does not touch the state of the library.\<close>

definition cpp :: "failure + 'r \<Rightarrow> ('s, 'r) py" where
  "cpp r st = (st, map_sum Cpp id r)"

text \<open>
  A call of the library whose failures end the program (they are undefined behaviour, a failed assertion or a wait
  that never ends), and one that may throw and tells the state it leaves then.
\<close>

definition library_call :: "('s \<Rightarrow> failure + ('s \<times> 'r)) \<Rightarrow> ('s, 'r) py" where
  "library_call f st =
     (case f (snd st) of Inl e \<Rightarrow> (st, Inl (Cpp e)) | Inr (s', x) \<Rightarrow> ((fst st, s'), Inr x))"

definition throwing_call :: "('s \<Rightarrow> 's \<times> (failure + 'r)) \<Rightarrow> ('s, 'r) py" where
  "throwing_call f st = (case f (snd st) of (s', r) \<Rightarrow> ((fst st, s'), map_sum Cpp id r))"

text \<open>
  A block with a \<^verbatim>\<open>ScopedGILRelease\<close>: the constructor gives the lock up (which needs it), the block runs without it,
  and the destructor takes it again however the block is left.
\<close>

definition ScopedGILRelease :: "('s, 'r) py \<Rightarrow> ('s, 'r) py" where
  "ScopedGILRelease block st =
     (if \<not> fst st then (st, Inl NoInterpreterLock)
      else (case block (False, snd st) of ((_, s'), r) \<Rightarrow> ((True, s'), r)))"

text \<open>
  A block with a \<^verbatim>\<open>GIL\<close>, for code that is not called by the interpreter: the lock is held inside, and afterwards as before.
\<close>

definition GIL :: "('s, 'r) py \<Rightarrow> ('s, 'r) py" where
  "GIL block st = (case block (True, snd st) of ((_, s'), r) \<Rightarrow> ((fst st, s'), r))"

section \<open>The interpreter\<close>

definition invalid_object :: py_failure where
  "invalid_object = RuntimeError (''Invalid object passed, should be of type '' @
     [CHR 0x27] @ ''bytes'' @ [CHR 0x27] @ '' or '' @ [CHR 0x27] @ ''bytearray'' @ [CHR 0x27])"

text \<open>
  The functions of the interpreter that the wrappers call: the tests of the type of an object, the pointer to the bytes of one
  (here the bytes found there) and their number, and \<^verbatim>\<open>PyByteArray_FromStringAndSize\<close>, which makes an object or returns
  a null pointer with an exception set; and the exception that Boost.Python raises for an argument of another class than
  the one declared.
\<close>

record python =
  PyByteArray_Check :: "py_object \<Rightarrow> bool"
  PyByteArray_AsString :: "py_object \<Rightarrow> byte list"
  PyByteArray_Size :: "py_object \<Rightarrow> int"
  PyBytes_Check :: "py_object \<Rightarrow> bool"
  PyBytes_AsString :: "py_object \<Rightarrow> byte list"
  PyBytes_Size :: "py_object \<Rightarrow> int"
  PyByteArray_FromStringAndSize :: "byte list \<Rightarrow> int \<Rightarrow> string + py_object"
  argument_error :: string

text \<open>
  The constructors of a vector and of a frame from such a pointer read the memory of the object, which needs the
  lock too: whoever holds it may change the object.
\<close>

definition copy_bytes :: "byte list \<Rightarrow> int \<Rightarrow> ('s, byte list) py" where
  "copy_bytes p n = interp (map_sum Cpp id (mem_read p 0 (to_size n)))"

definition frame_of_bytes :: "byte list \<Rightarrow> int \<Rightarrow> ('s, frame) py" where
  "frame_of_bytes p n = interp (map_sum Cpp id (Frame_copy p 0 (to_size n)))"

text \<open>
  The expression \<^verbatim>\<open>handle<>(PyByteArray_FromStringAndSize(data, size))\<close>: the \<^verbatim>\<open>size_t\<close> becomes a \<^verbatim>\<open>Py_ssize_t\<close>, the call
  reads that many bytes, and the \<^verbatim>\<open>handle\<close> throws when it gets a null pointer.
\<close>

definition new_bytearray :: "python \<Rightarrow> byte list \<Rightarrow> nat \<Rightarrow> ('s, py_object) py" where
  "new_bytearray py buffer len =
     interp (if int (length buffer) < to_ssize len then Inl (Cpp (Undefined OutOfBounds))
             else map_sum PyException id (PyByteArray_FromStringAndSize py buffer (to_ssize len)))"

text \<open>
  What the interpreter documents: an object is of one type, its pointer and size are those of its bytes, and a new object
  has the bytes given, while a negative size is a \<^verbatim>\<open>SystemError\<close>.
\<close>

definition negative_size :: string where
  "negative_size = ''SystemError: Negative size passed to PyByteArray_FromStringAndSize''"

definition makes_bytearrays :: "python \<Rightarrow> bool" where
  "makes_bytearrays py \<longleftrightarrow>
     (\<forall>bs n. n \<le> length bs \<longrightarrow> PyByteArray_FromStringAndSize py bs (int n) = Inr (PyByteArray (take n bs))) \<and>
     (\<forall>bs n. n < 0 \<longrightarrow> PyByteArray_FromStringAndSize py bs n = Inl negative_size)"

definition knows_bytes :: "python \<Rightarrow> bool" where
  "knows_bytes py \<longleftrightarrow>
     (\<forall>bs. PyByteArray_Check py (PyByteArray bs) \<and> \<not> PyByteArray_Check py (PyBytes bs) \<and> PyBytes_Check py (PyBytes bs) \<and>
        PyByteArray_AsString py (PyByteArray bs) = bs \<and> PyByteArray_Size py (PyByteArray bs) = int (length bs) \<and>
        PyBytes_AsString py (PyBytes bs) = bs \<and> PyBytes_Size py (PyBytes bs) = int (length bs)) \<and>
     \<not> PyByteArray_Check py PyOther \<and> \<not> PyBytes_Check py PyOther"

definition cpython :: python where
  "cpython = \<lparr>
     PyByteArray_Check = (\<lambda>x. case x of PyByteArray _ \<Rightarrow> True | _ \<Rightarrow> False),
     PyByteArray_AsString = (\<lambda>x. case x of PyByteArray bs \<Rightarrow> bs | _ \<Rightarrow> []),
     PyByteArray_Size = (\<lambda>x. case x of PyByteArray bs \<Rightarrow> int (length bs) | _ \<Rightarrow> - 1),
     PyBytes_Check = (\<lambda>x. case x of PyBytes _ \<Rightarrow> True | _ \<Rightarrow> False),
     PyBytes_AsString = (\<lambda>x. case x of PyBytes bs \<Rightarrow> bs | _ \<Rightarrow> []),
     PyBytes_Size = (\<lambda>x. case x of PyBytes bs \<Rightarrow> int (length bs) | _ \<Rightarrow> - 1),
     PyByteArray_FromStringAndSize = (\<lambda>bs n. if n < 0 then Inl negative_size else Inr (PyByteArray (take (nat n) bs))),
     argument_error = ''Boost.Python.ArgumentError''\<rparr>"

lemma cpython_makes: "makes_bytearrays cpython"
  by (simp add: makes_bytearrays_def cpython_def)

lemma cpython_knows: "knows_bytes cpython"
  by (simp add: knows_bytes_def cpython_def)

section \<open>The manager, messages\<close>

definition makeIoLineManager :: "'k kernel \<Rightarrow> nat list \<Rightarrow> ('k world, any_line, any_acceptor) IoLineManager" where
  "makeIoLineManager os accs = createLineManager os accs"

definition getMessageFrame :: "python \<Rightarrow> message \<Rightarrow> int \<Rightarrow> ('s, py_object) py" where
  "getMessageFrame py msg frameNumber =
     py_bind (cpp (Message_frame msg (to_size frameNumber))) (\<lambda>f. new_bytearray py (frame_data f) (Frame_size f))"

text \<open>The message with the new frame, which has a copy of the bytes.\<close>

definition appendMessageFrame :: "python \<Rightarrow> message \<Rightarrow> py_object \<Rightarrow> ('s, message) py" where
  "appendMessageFrame py msg bytes =
     py_bind (interp (Inr (PyByteArray_Check py bytes))) (\<lambda>is_array.
       if is_array then
         py_bind (interp (Inr (PyByteArray_AsString py bytes))) (\<lambda>p.
         py_bind (interp (Inr (PyByteArray_Size py bytes))) (\<lambda>n.
         py_bind (frame_of_bytes p n) (\<lambda>f. py_pure (Message_addFrame msg f))))
       else
         py_bind (interp (Inr (PyBytes_Check py bytes))) (\<lambda>is_bytes.
           if is_bytes then
             py_bind (interp (Inr (PyBytes_AsString py bytes))) (\<lambda>p.
             py_bind (interp (Inr (PyBytes_Size py bytes))) (\<lambda>n.
             py_bind (frame_of_bytes p n) (\<lambda>f. py_pure (Message_addFrame msg f))))
           else py_raise invalid_object))"

section \<open>Lines, acceptors, managers\<close>

text \<open>
  A vector of a negative number of elements, as a \<^verbatim>\<open>size_t\<close>, is larger than any: its constructor throws. The
  value of \<^verbatim>\<open>line->read\<close> is stored in a \<^verbatim>\<open>size_t\<close>.
\<close>

definition readFromLine :: "python \<Rightarrow> 's line_read \<Rightarrow> int \<Rightarrow> ('s, py_object) py" where
  "readFromLine py rd toread =
     (if toread < 0 then py_raise (Cpp (Throw (length_error ''cannot create std::vector larger than max_size()'')))
      else
        let buffer = replicate (nat toread) 0 in
        py_bind (ScopedGILRelease
          (py_bind (library_call (\<lambda>s. rd s (to_size toread))) (\<lambda>(out, rc).
           py_bind (cpp (mem_write buffer 0 out (length out))) (\<lambda>buffer'. py_pure (buffer', to_size rc)))))
          (\<lambda>(buffer', done). new_bytearray py buffer' done))"

text \<open>The bytes are copied before the lock is given up; what \<^verbatim>\<open>write\<close> returns is not used.\<close>

definition writeToLine :: "python \<Rightarrow> 's line_write \<Rightarrow> py_object \<Rightarrow> ('s, unit) py" where
  "writeToLine py wr data =
     py_bind (interp (Inr (PyByteArray_Check py data))) (\<lambda>is_array.
       if is_array then
         py_bind (interp (Inr (PyByteArray_AsString py data))) (\<lambda>start.
         py_bind (interp (Inr (PyByteArray_Size py data))) (\<lambda>n.
         py_bind (copy_bytes start n) (\<lambda>buffer.
           ScopedGILRelease (py_bind (library_call (\<lambda>s. wr s buffer)) (\<lambda>_. py_pure ())))))
       else
         py_bind (interp (Inr (PyBytes_Check py data))) (\<lambda>is_bytes.
           if is_bytes then
             py_bind (interp (Inr (PyBytes_AsString py data))) (\<lambda>start.
             py_bind (interp (Inr (PyBytes_Size py data))) (\<lambda>n.
             py_bind (copy_bytes start n) (\<lambda>buffer.
               ScopedGILRelease (py_bind (library_call (\<lambda>s. wr s buffer)) (\<lambda>_. py_pure ())))))
           else py_raise invalid_object))"

text \<open>
  \<open>scaled\<close> is the value of the \<^verbatim>\<open>float\<close> expression \<^verbatim>\<open>seconds * 1000\<close>. Its conversion to \<^verbatim>\<open>int\<close> drops the fraction
  and is undefined out of range.
\<close>

definition float_to_int :: "rat \<Rightarrow> failure + int" where
  "float_to_int x =
     (let t = (if 0 \<le> x then \<lfloor>x\<rfloor> else \<lceil>x\<rceil>)
      in if - (2 ^ 31) \<le> t \<and> t < 2 ^ 31 then Inr t else Inl (Undefined IntegerOverflow))"

definition py_waitConnection ::
    "('f \<Rightarrow> rat) \<Rightarrow> ('s \<Rightarrow> int \<Rightarrow> 's \<times> (failure + 'l option)) \<Rightarrow> 'f \<Rightarrow> ('s, 'l option) py" where
  "py_waitConnection scaled accept seconds =
     ScopedGILRelease (py_bind (cpp (float_to_int (scaled seconds))) (\<lambda>t. throwing_call (\<lambda>s. accept s t)))"

definition py_createClient :: "('s, 'l, 'a) IoLineManager \<Rightarrow> string \<Rightarrow> ('s, 'l option) py" where
  "py_createClient self address =
     ScopedGILRelease (throwing_call (\<lambda>s. LineManager.IoLineManager_createClient self s address))"

text \<open>The values the two functions of the protocol return are not used. A send that does not return is \<open>None\<close>.\<close>

definition py_readMessage :: "'s line_read \<Rightarrow> ('s, message) py" where
  "py_readMessage rd =
     ScopedGILRelease (py_bind (library_call (\<lambda>s. MessageProtocol_readMessage rd s Message_new)) (\<lambda>(m, _). py_pure m))"

definition py_sendMessage ::
    "'s line_write \<Rightarrow> message \<Rightarrow> bool \<times> 's \<Rightarrow> ((bool \<times> 's) \<times> (py_failure + unit)) option" where
  "py_sendMessage wr msg st =
     (if \<not> fst st then Some (st, Inl NoInterpreterLock)
      else map_option (\<lambda>r. ScopedGILRelease (py_bind (library_call (\<lambda>_. r)) (\<lambda>_. py_pure ())) st)
             (MessageProtocol_sendMessage wr (snd st) msg))"

section \<open>Lemmas\<close>

text \<open>
  A computation is safe when, called with the lock, it ends with the lock and makes no call of the interpreter
  without it; and needs no lock when it makes none at all.
\<close>

definition lock_safe :: "('s, 'r) py \<Rightarrow> bool" where
  "lock_safe c \<longleftrightarrow> (\<forall>s. fst (fst (c (True, s))) \<and> snd (c (True, s)) \<noteq> Inl NoInterpreterLock)"

definition needs_no_lock :: "('s, 'r) py \<Rightarrow> bool" where
  "needs_no_lock c \<longleftrightarrow> (\<forall>st. snd (c st) \<noteq> Inl NoInterpreterLock)"

named_theorems lock_rules

lemma needs_no_lock_primitives [lock_rules]:
  "needs_no_lock (py_pure x)" "needs_no_lock (cpp r)" "needs_no_lock (library_call f)" "needs_no_lock (throwing_call g)"
  by (auto simp: needs_no_lock_def py_pure_def cpp_def library_call_def throwing_call_def map_sum_def split: sum.splits prod.splits)

lemma needs_no_lock_bind [lock_rules]:
  assumes "needs_no_lock c" and "\<And>x. needs_no_lock (f x)"
  shows "needs_no_lock (py_bind c f)"
  unfolding needs_no_lock_def
proof
  fix st
  obtain st' r where c: "c st = (st', r)" by (cases "c st")
  then have "r \<noteq> Inl NoInterpreterLock" using assms(1) by (metis needs_no_lock_def snd_conv)
  moreover have "snd (f x st') \<noteq> Inl NoInterpreterLock" for x using assms(2) [of x] by (metis needs_no_lock_def)
  ultimately show "snd (py_bind c f st) \<noteq> Inl NoInterpreterLock"
    using c by (cases r) (simp_all add: py_bind_def)
qed

lemma lock_safe_primitives [lock_rules]:
  "lock_safe (py_pure x)" "lock_safe (cpp r)" "e \<noteq> NoInterpreterLock \<Longrightarrow> lock_safe (py_raise e)"
  "r' \<noteq> Inl NoInterpreterLock \<Longrightarrow> lock_safe (interp r')"
  "lock_safe (library_call f)" "lock_safe (throwing_call g)"
  by (auto simp: lock_safe_def py_pure_def py_raise_def cpp_def interp_def library_call_def throwing_call_def map_sum_def
      split: sum.splits prod.splits)

lemma lock_safe_bind [lock_rules]:
  assumes "lock_safe c" and "\<And>x. lock_safe (f x)"
  shows "lock_safe (py_bind c f)"
  unfolding lock_safe_def
proof
  fix s
  obtain gil s' r where c: "c (True, s) = ((gil, s'), r)" by (metis prod.exhaust)
  then have "gil" "r \<noteq> Inl NoInterpreterLock" using assms(1) by (metis lock_safe_def fst_conv snd_conv)+
  with c assms(2) show "fst (fst (py_bind c f (True, s))) \<and> snd (py_bind c f (True, s)) \<noteq> Inl NoInterpreterLock"
    by (cases r) (auto simp: py_bind_def lock_safe_def)
qed

lemma lock_safe_release [lock_rules]: "needs_no_lock block \<Longrightarrow> lock_safe (ScopedGILRelease block)"
  by (auto simp: lock_safe_def needs_no_lock_def ScopedGILRelease_def split_beta)

lemma lock_safe_object [lock_rules]:
  "lock_safe (copy_bytes p n)" "lock_safe (frame_of_bytes p n)" "lock_safe (new_bytearray py bs k)"
  by (auto simp: copy_bytes_def frame_of_bytes_def new_bytearray_def map_sum_def split: sum.splits intro!: lock_rules)

lemma lock_safe_cases [lock_rules]:
  "(b \<Longrightarrow> lock_safe c) \<Longrightarrow> (\<not> b \<Longrightarrow> lock_safe d) \<Longrightarrow> lock_safe (if b then c else d)"
  "(\<And>x y. lock_safe (f x y)) \<Longrightarrow> lock_safe (case p of (x, y) \<Rightarrow> f x y)"
  "(\<And>x y. needs_no_lock (g x y)) \<Longrightarrow> needs_no_lock (case p of (x, y) \<Rightarrow> g x y)"
  by (auto split: prod.split)

text \<open>Every wrapper is safe, whether it returns, throws or fails.\<close>

lemma wrappers_safe:
  "lock_safe (readFromLine py rd toread)" "lock_safe (writeToLine py wr data)" "lock_safe (py_waitConnection scaled accept seconds)"
  "lock_safe (py_createClient man address)" "lock_safe (py_readMessage rd)"
  "lock_safe (getMessageFrame py msg i)" "lock_safe (appendMessageFrame py msg data)"
  unfolding readFromLine_def writeToLine_def py_waitConnection_def py_createClient_def py_readMessage_def
    getMessageFrame_def appendMessageFrame_def Let_def
  by (intro lock_rules; simp add: invalid_object_def)+

lemma sendMessage_safe:
  fixes s :: 'a
  assumes "py_sendMessage wr msg (True, s) = Some (st, r)"
  shows "fst st \<and> r \<noteq> Inl NoInterpreterLock"
proof -
  obtain x :: "failure + 'a \<times> int" where "ScopedGILRelease (py_bind (library_call (\<lambda>_. x)) (\<lambda>_. py_pure ())) (True, s) = (st, r)"
    using assms by (auto simp: py_sendMessage_def)
  moreover have "lock_safe (ScopedGILRelease (py_bind (library_call (\<lambda>_. x)) (\<lambda>_. py_pure ())))" by (intro lock_rules)
  ultimately show ?thesis by (metis lock_safe_def fst_conv snd_conv)
qed

text \<open>Running the steps with the lock held, or inside a block without it.\<close>

named_theorems py_run

lemma py_run_steps [py_run]:
  "py_pure x st = (st, Inr x)" "py_raise e st = (st, Inl e)" "interp r (True, s) = ((True, s), r)"
  "cpp q st = (st, map_sum Cpp id q)"
  "ScopedGILRelease block (True, s) = (case block (False, s) of ((_, s'), r) \<Rightarrow> ((True, s'), r))"
  "py_bind c f st = (case c st of (st', Inl e) \<Rightarrow> (st', Inl e) | (st', Inr x) \<Rightarrow> f x st')"
  "library_call g (gil, s) = (case g s of Inl e \<Rightarrow> ((gil, s), Inl (Cpp e)) | Inr (s', x) \<Rightarrow> ((gil, s'), Inr x))"
  by (simp_all add: py_pure_def py_raise_def interp_def cpp_def ScopedGILRelease_def py_bind_def library_call_def split: sum.split)

lemma new_bytearray_all [py_run]:
  assumes "makes_bytearrays py" and "n \<le> length bs" and "length bs < 2 ^ 63"
  shows "new_bytearray py bs n (True, s) = ((True, s), Inr (PyByteArray (take n bs)))"
  using assms by (simp add: makes_bytearrays_def new_bytearray_def interp_def to_ssize_small)

lemma new_bytearray_negative [py_run]:
  "makes_bytearrays py \<Longrightarrow> to_ssize n < 0 \<Longrightarrow> new_bytearray py bs n (True, s) = ((True, s), Inl (PyException negative_size))"
  by (simp add: makes_bytearrays_def new_bytearray_def interp_def)

text \<open>The bytes of an object, found by either pair of functions.\<close>

lemma size_of_bytes: "length bs < 2 ^ 63 \<Longrightarrow> to_size (int (length bs)) = length bs"
  by (simp add: to_size_nat)

lemma object_steps [py_run]:
  "length bs < 2 ^ 63 \<Longrightarrow> copy_bytes bs (int (length bs)) (True, s) = ((True, s), Inr bs)"
  "length bs < 2 ^ 63 \<Longrightarrow> frame_of_bytes bs (int (length bs)) (True, s) = ((True, s), Inr \<lparr>frame_data = bs\<rparr>)"
  by (simp_all add: copy_bytes_def frame_of_bytes_def interp_def size_of_bytes mem_read_def Frame_copy_def)

section \<open>Properties\<close>

text \<open>
  What Python's \<^verbatim>\<open>read\<close> returns. Bytes that arrive become a \<^verbatim>\<open>bytearray\<close> of exactly those; an error code of
  the line, stored in a \<^verbatim>\<open>size_t\<close>, becomes a negative size and so a \<^verbatim>\<open>SystemError\<close> that no longer tells a timeout from a
  lost connection, with the line as the read left it; a negative count throws before the line is touched. The interpreter
  lock is held again on every path.
\<close>
lemma python_read:
  assumes "makes_bytearrays py" and "rd s (nat toread) = Inr (s', out, rc)" and "int (length out) \<le> toread"
    and "toread < 2 ^ 31" and "rc = int (length out) \<or> - (2 ^ 63) \<le> rc \<and> rc < 0"
  shows "readFromLine py rd toread (True, s) =
      ((True, s'), if rc < 0 then Inl (PyException negative_size) else Inr (PyByteArray out)) \<and>
    (n < 0 \<longrightarrow> readFromLine py rd n (True, s) =
      ((True, s), Inl (Cpp (Throw (length_error ''cannot create std::vector larger than max_size()'')))))"
proof -
  let ?buffer = "out @ replicate (nat toread - length out) 0"
  have size: "to_size toread = nat toread" using assms(3,4) by (simp add: to_size_nat)
  have copied: "mem_write (replicate (nat toread) 0) 0 out (length out) = Inr ?buffer"
    using assms(3) by (simp add: mem_write_def)
  have "to_ssize (to_size rc) = rc" using assms(3-5) by (intro to_ssize_to_size) auto
  then have "rc < 0 \<Longrightarrow> new_bytearray py ?buffer (to_size rc) (True, s') = ((True, s'), Inl (PyException negative_size))"
    by (simp add: new_bytearray_negative [OF assms(1)])
  moreover have "to_size rc = length out" if "\<not> rc < 0" using that assms(3-5) by (simp add: to_size_def)
  then have "\<not> rc < 0 \<Longrightarrow> new_bytearray py ?buffer (to_size rc) (True, s') = ((True, s'), Inr (PyByteArray out))"
    using assms(3,4) by (subst new_bytearray_all [OF assms(1)]) auto
  ultimately show ?thesis
    using assms(2,3) size copied by (auto simp: readFromLine_def py_run Let_def)
qed

text \<open>What Python's \<^verbatim>\<open>write\<close> gives to the line: exactly the bytes of the object; the result of the line is not looked at.\<close>

lemma python_write:
  assumes "knows_bytes py" and "obj = PyBytes bs \<or> obj = PyByteArray bs" and "length bs < 2 ^ 63" and "wr s bs = Inr (s', rc)"
  shows "writeToLine py wr obj (True, s) = ((True, s'), Inr ()) \<and>
    writeToLine py wr PyOther (True, s) = ((True, s), Inl invalid_object)"
  using assms by (auto simp: writeToLine_def py_run knows_bytes_def)

text \<open>
  Frames through Python. The bytes of a \<^verbatim>\<open>bytes\<close> or \<^verbatim>\<open>bytearray\<close> appended to a message are what \<^verbatim>\<open>getFrame\<close> returns for
  the number the frame has, and the frames before it stay as they were; any other object is refused with a
  \<^verbatim>\<open>RuntimeError\<close>.
\<close>
lemma python_frames:
  assumes "makes_bytearrays py" and "knows_bytes py" and "obj = PyBytes bs \<or> obj = PyByteArray bs" and "length bs < 2 ^ 63"
    and "Message_size m < 2 ^ 31"
  shows "\<exists>m'. appendMessageFrame py m obj (True, s) = ((True, s), Inr m') \<and> Message_size m' = Suc (Message_size m) \<and>
    getMessageFrame py m' (int (Message_size m)) (True, s) = ((True, s), Inr (PyByteArray bs)) \<and>
    (\<forall>i < Message_size m. getMessageFrame py m' (int i) (True, s) = getMessageFrame py m (int i) (True, s)) \<and>
    appendMessageFrame py m PyOther (True, s) = ((True, s), Inl invalid_object)"
proof -
  let ?m' = "Message_addFrame m \<lparr>frame_data = bs\<rparr>"
  have app: "appendMessageFrame py m obj (True, s) = ((True, s), Inr ?m')"
    using assms(2-4) by (auto simp: appendMessageFrame_def py_run knows_bytes_def)
  have idx: "to_size (int i) = i" if "i \<le> Message_size m" for i using that assms(5) by (simp add: to_size_nat)
  have old: "Message_frame ?m' i = Message_frame m i" if "i < Message_size m" for i
    using that by (simp add: Message_frame_def Message_addFrame_def Message_size_def nth_append)
  have new: "Message_frame ?m' (Message_size m) = Inr \<lparr>frame_data = bs\<rparr>"
    by (simp add: Message_frame_def Message_addFrame_def Message_size_def)
  have "getMessageFrame py ?m' (int (Message_size m)) (True, s) = ((True, s), Inr (PyByteArray bs))"
    using assms(4) by (simp add: getMessageFrame_def py_run idx new new_bytearray_all [OF assms(1)] Frame_size_def)
  moreover have "\<forall>i < Message_size m. getMessageFrame py ?m' (int i) (True, s) = getMessageFrame py m (int i) (True, s)"
    by (simp add: getMessageFrame_def idx old)
  ultimately show ?thesis
    using app assms(2) by (intro exI [of _ ?m'] conjI)
      (simp_all add: Message_addFrame_def Message_size_def appendMessageFrame_def [of py m PyOther] py_run knows_bytes_def)
qed

end
