(* ===== verification/PythonModule.thy ===== *)
theory PythonModule
  imports PythonBindings
begin

text \<open>
  The module \<^verbatim>\<open>pycppio\<close> that \<^verbatim>\<open>BOOST_PYTHON_MODULE\<close> of bindings/python/python_bindings.cpp defines: which wrapper a method of
  a Python class calls and who owns the C++ objects. An object of Python is a number; it has the C++ object in it. The
  results of the methods declared with \<^verbatim>\<open>manage_new_object\<close> are owned by the Python object, which deletes
  them when it is collected; a protocol has the address of its line, without a reference that would keep the
  line alive. The interpreter calls a method with its lock held.
\<close>

section \<open>Objects\<close>

datatype py_instance =
    Manager_obj
  | Line_obj any_line
  | Acceptor_obj any_acceptor
  | Message_obj message
  | Protocol_obj "nat message_protocol"

record 'k py_state =
  py_objects :: "nat \<rightharpoonup> py_instance"
  py_next :: nat
  py_world :: "'k world"

datatype 'f py_method =
    Make_manager
  | Create_client nat string
  | Create_server nat string
  | New_message
  | Message_count nat
  | Message_getFrame nat int
  | Message_appendFrame nat py_object
  | Line_readFrom nat int
  | Line_writeTo nat py_object
  | Acceptor_wait nat 'f
  | New_protocol "nat option"
  | Protocol_send nat nat
  | Protocol_read nat
  | Delete nat

datatype py_value = Py_None | Py_ref nat | Py_int nat | Py_bytes py_object

definition py_new :: "'k py_state \<Rightarrow> py_instance \<Rightarrow> 'k py_state \<times> py_value" where
  "py_new s x = (s\<lparr>py_objects := (py_objects s)(py_next s \<mapsto> x), py_next := Suc (py_next s)\<rparr>, Py_ref (py_next s))"

text \<open>\<^verbatim>\<open>manage_new_object\<close> for a pointer, which is \<^verbatim>\<open>None\<close> in Python when it is null.\<close>

definition manage_new_object :: "('x \<Rightarrow> py_instance) \<Rightarrow> 'k py_state \<Rightarrow> 'x option \<Rightarrow> 'k py_state \<times> py_value" where
  "manage_new_object con s x = (case x of None \<Rightarrow> (s, Py_None) | Some y \<Rightarrow> py_new s (con y))"

definition py_store :: "'k py_state \<Rightarrow> nat \<Rightarrow> py_instance \<Rightarrow> 'k py_state" where
  "py_store s a x = s\<lparr>py_objects := (py_objects s)(a \<mapsto> x)\<rparr>"

definition py_at :: "'k py_state \<Rightarrow> 'k world \<Rightarrow> 'k py_state" where
  "py_at s w = s\<lparr>py_world := w\<rparr>"

text \<open>
  The result of a method: the state, whether the thread has the interpreter lock, and a value or a failure. The
  state of the library is the one the wrapper leaves, also when it raises.
\<close>

type_synonym 'k py_result = "'k py_state \<times> bool \<times> (py_failure + py_value)"

definition py_return ::
    "'k py_state \<Rightarrow> (bool \<times> 'k world) \<times> (py_failure + 'x) \<Rightarrow> ('k py_state \<Rightarrow> 'x \<Rightarrow> 'k py_state \<times> py_value) \<Rightarrow> 'k py_result" where
  "py_return s res f =
     (case res of
        ((gil, w'), Inl e) \<Rightarrow> (py_at s w', gil, Inl e)
      | ((gil, w'), Inr x) \<Rightarrow> (case f (py_at s w') x of (s', v) \<Rightarrow> (s', gil, Inr v)))"

text \<open>The interpreter calls a wrapper with its lock held.\<close>

definition py_run_method ::
    "'k py_state \<Rightarrow> ('k world, 'x) py \<Rightarrow> ('k py_state \<Rightarrow> 'x \<Rightarrow> 'k py_state \<times> py_value) \<Rightarrow> 'k py_result" where
  "py_run_method s c f = py_return s (c (True, py_world s)) f"

text \<open>An argument of another class is refused before the wrapper is called.\<close>

definition ArgumentError :: "python \<Rightarrow> 'k py_state \<Rightarrow> 'k py_result" where
  "ArgumentError py s = (s, True, Inl (PyException (argument_error py)))"

section \<open>The line of a protocol\<close>

text \<open>\<^verbatim>\<open>m_impl->line\<close> is an address; a line that has been deleted is not there any more.\<close>

definition line_at :: "'k py_state \<Rightarrow> nat \<Rightarrow> failure + any_line" where
  "line_at s a = (case py_objects s a of Some (Line_obj l) \<Rightarrow> Inr l | _ \<Rightarrow> Inl (Undefined DanglingPointer))"

definition protocol_read_line :: "'k kernel \<Rightarrow> wake list \<Rightarrow> 'k py_state \<Rightarrow> nat message_protocol \<Rightarrow> 'k world line_read" where
  "protocol_read_line os ws s = impl_read (\<lambda>a w n. bind_res (line_at s a) (\<lambda>l. IoLine_read os ws l w n))"

definition protocol_write_line :: "'k kernel \<Rightarrow> wake list \<Rightarrow> 'k py_state \<Rightarrow> nat message_protocol \<Rightarrow> 'k world line_write" where
  "protocol_write_line os ws s = impl_write (\<lambda>a w bs. bind_res (line_at s a) (\<lambda>l. IoLine_write os ws l w bs))"

section \<open>Methods\<close>

text \<open>
  The methods by class. \<^verbatim>\<open>createServer\<close> and \<^verbatim>\<open>size\<close> are the functions of the library themselves, called with the lock held.
\<close>

definition manager_method ::
    "'k kernel \<Rightarrow> nat list \<Rightarrow> 'k py_state \<Rightarrow> bool \<Rightarrow> string \<Rightarrow> 'k py_result" where
  "manager_method os accs s client address =
     (if client then
        py_run_method s (py_createClient (makeIoLineManager os accs) address) (manage_new_object Line_obj)
      else
        py_run_method s (throwing_call (\<lambda>w. IoLineManager_createServer (makeIoLineManager os accs) w address))
          (manage_new_object Acceptor_obj))"

definition collect :: "'k kernel \<Rightarrow> 'k py_state \<Rightarrow> nat \<Rightarrow> py_instance \<Rightarrow> 'k py_result" where
  "collect os s a x =
     py_run_method s (library_call (\<lambda>w. map_sum id (\<lambda>w'. (w', ()))
        (case x of
           Manager_obj \<Rightarrow> Inr (IoLineManager_destroy w)
         | Line_obj l \<Rightarrow> IoLine_destroy os l w
         | Acceptor_obj acc \<Rightarrow> Inr (IoAcceptor_destroy os acc w)
         | _ \<Rightarrow> Inr w)))
       (\<lambda>s' _. (s'\<lparr>py_objects := (py_objects s')(a := None)\<rparr>, Py_None))"

text \<open>\<open>None\<close>: the method does not return.\<close>

fun pycppio ::
    "python \<Rightarrow> 'k kernel \<Rightarrow> nat list \<Rightarrow> (nat \<times> string list) list \<Rightarrow> wake list \<Rightarrow> ('f \<Rightarrow> rat) \<Rightarrow>
     'k py_state \<Rightarrow> 'f py_method \<Rightarrow> 'k py_result option" where
  "pycppio py os accs turns ws scaled s Make_manager = Some (py_run_method s (py_pure ()) (\<lambda>s' _. py_new s' Manager_obj))"
| "pycppio py os accs turns ws scaled s (Create_client self address) =
     Some (case py_objects s self of Some Manager_obj \<Rightarrow> manager_method os accs s True address | _ \<Rightarrow> ArgumentError py s)"
| "pycppio py os accs turns ws scaled s (Create_server self address) =
     Some (case py_objects s self of Some Manager_obj \<Rightarrow> manager_method os accs s False address | _ \<Rightarrow> ArgumentError py s)"
| "pycppio py os accs turns ws scaled s New_message =
     Some (py_run_method s (py_pure ()) (\<lambda>s' _. py_new s' (Message_obj Message_new)))"
| "pycppio py os accs turns ws scaled s (Message_count self) =
     Some (case py_objects s self of
       Some (Message_obj m) \<Rightarrow> py_run_method s (py_pure (Message_size m)) (\<lambda>s' n. (s', Py_int n)) | _ \<Rightarrow> ArgumentError py s)"
| "pycppio py os accs turns ws scaled s (Message_getFrame self i) =
     Some (case py_objects s self of
       Some (Message_obj m) \<Rightarrow> py_run_method s (getMessageFrame py m i) (\<lambda>s' x. (s', Py_bytes x)) | _ \<Rightarrow> ArgumentError py s)"
| "pycppio py os accs turns ws scaled s (Message_appendFrame self x) =
     Some (case py_objects s self of
       Some (Message_obj m) \<Rightarrow>
         py_run_method s (appendMessageFrame py m x) (\<lambda>s' m'. (py_store s' self (Message_obj m'), Py_None))
     | _ \<Rightarrow> ArgumentError py s)"
| "pycppio py os accs turns ws scaled s (Line_readFrom self n) =
     Some (case py_objects s self of
       Some (Line_obj l) \<Rightarrow> py_run_method s (readFromLine py (IoLine_read os ws l) n) (\<lambda>s' x. (s', Py_bytes x))
     | _ \<Rightarrow> ArgumentError py s)"
| "pycppio py os accs turns ws scaled s (Line_writeTo self x) =
     Some (case py_objects s self of
       Some (Line_obj l) \<Rightarrow> py_run_method s (writeToLine py (IoLine_write os ws l) x) (\<lambda>s' _. (s', Py_None))
     | _ \<Rightarrow> ArgumentError py s)"
| "pycppio py os accs turns ws scaled s (Acceptor_wait self seconds) =
     Some (case py_objects s self of
       Some (Acceptor_obj a) \<Rightarrow>
         py_run_method s (py_waitConnection scaled (IoAcceptor_waitConnection os turns a) seconds) (manage_new_object Line_obj)
     | _ \<Rightarrow> ArgumentError py s)"
| "pycppio py os accs turns ws scaled s (New_protocol line) =
     Some (case line of
       None \<Rightarrow> py_run_method s (py_pure ()) (\<lambda>s' _. py_new s' (Protocol_obj (MessageProtocol_new None)))
     | Some a \<Rightarrow>
         (case py_objects s a of
            Some (Line_obj l) \<Rightarrow> py_run_method s (py_pure ()) (\<lambda>s' _. py_new s' (Protocol_obj (MessageProtocol_new (Some a))))
          | _ \<Rightarrow> ArgumentError py s))"
| "pycppio py os accs turns ws scaled s (Protocol_send self msg) =
     (case (py_objects s self, py_objects s msg) of
        (Some (Protocol_obj p), Some (Message_obj m)) \<Rightarrow>
          map_option (\<lambda>r. py_return s r (\<lambda>s' _. (s', Py_None)))
            (py_sendMessage (protocol_write_line os ws s p) m (True, py_world s))
      | _ \<Rightarrow> Some (ArgumentError py s))"
| "pycppio py os accs turns ws scaled s (Protocol_read self) =
     Some (case py_objects s self of
       Some (Protocol_obj p) \<Rightarrow>
         py_run_method s (py_readMessage (protocol_read_line os ws s p)) (\<lambda>s' m. py_new s' (Message_obj m))
     | _ \<Rightarrow> ArgumentError py s)"
| "pycppio py os accs turns ws scaled s (Delete a) =
     Some (case py_objects s a of Some x \<Rightarrow> collect os s a x | None \<Rightarrow> (s, True, Inr Py_None))"

section \<open>What a method does\<close>

definition method_ok :: "'k py_result \<Rightarrow> bool" where
  "method_ok res \<longleftrightarrow> fst (snd res) \<and> snd (snd res) \<noteq> Inl NoInterpreterLock"

lemma py_return_ok: "fst (fst r) \<Longrightarrow> snd r \<noteq> Inl NoInterpreterLock \<Longrightarrow> method_ok (py_return s r f)"
  by (auto simp: method_ok_def py_return_def split: sum.splits prod.splits)

lemma py_run_method_ok: "lock_safe c \<Longrightarrow> method_ok (py_run_method s c f)"
  unfolding py_run_method_def lock_safe_def by (intro py_return_ok) blast+

lemma ArgumentError_ok [simp]: "method_ok (ArgumentError py s)"
  by (simp add: method_ok_def ArgumentError_def)

lemma manager_method_ok: "method_ok (manager_method os accs s client address)"
  by (simp add: manager_method_def py_run_method_ok wrappers_safe lock_safe_primitives)

lemma collect_ok: "method_ok (collect os s a x)"
  by (simp add: collect_def py_run_method_ok lock_safe_primitives)

lemma method_returns_ok:
  assumes "pycppio py os accs turns ws scaled s c = Some res"
  shows "method_ok res"
proof (cases c)
  case (Protocol_send self msg)
  with assms show ?thesis
    by (auto split: option.splits py_instance.splits intro!: py_return_ok dest: sendMessage_safe)
next
  case (Delete a)
  with assms show ?thesis
    by (auto split: option.splits simp: collect_ok) (simp add: method_ok_def)
qed (use assms in \<open>auto simp: manager_method_ok wrappers_safe lock_safe_primitives
      split: option.splits py_instance.splits intro!: py_run_method_ok\<close>)

lemma line_read_result:
  assumes "makes_bytearrays py" and "py_objects s self = Some (Line_obj l)"
    and "IoLine_read os ws l (py_world s) (nat n) = Inr (w', out, rc)" and "int (length out) \<le> n" and "n < 2 ^ 31"
    and "rc = int (length out) \<or> - (2 ^ 63) \<le> rc \<and> rc < 0"
  shows "pycppio py os accs turns ws scaled s (Line_readFrom self n) =
    Some (py_at s w', True, if rc < 0 then Inl (PyException negative_size) else Inr (Py_bytes (PyByteArray out)))"
  using python_read [of py "IoLine_read os ws l", OF assms(1,3-6), THEN conjunct1] assms(2) by (simp add: py_run_method_def py_return_def)

lemma line_write_result:
  assumes "knows_bytes py" and "py_objects s self = Some (Line_obj l)" and "x = PyBytes bs \<or> x = PyByteArray bs" and "length bs < 2 ^ 63"
    and "IoLine_write os ws l (py_world s) bs = Inr (w', rc)"
  shows "pycppio py os accs turns ws scaled s (Line_writeTo self x) = Some (py_at s w', True, Inr Py_None)"
  using python_write [of py x bs "IoLine_write os ws l", OF assms(1,3-5), THEN conjunct1] assms(2) by (simp add: py_run_method_def py_return_def)

lemma collected_line_dangles:
  assumes "pycppio py os accs turns ws scaled s (Delete a) = Some (s', gil, Inr v)" and "py_objects s a = Some (Line_obj l)"
    and "py_objects s p = Some (Protocol_obj (MessageProtocol_new (Some a)))" and "py_objects s msg = Some (Message_obj m)"
    and "length (encode m) < 2 ^ 31"
  shows "pycppio py os accs turns ws scaled s' (Protocol_send p msg) = Some (s', True, Inl (Cpp (Undefined DanglingPointer))) \<and>
    pycppio py os accs turns ws scaled s' (Protocol_read p) = Some (s', True, Inl (Cpp (Undefined DanglingPointer)))"
proof -
  let ?p = "MessageProtocol_new (Some a)"
  have objs: "py_objects s' = (py_objects s)(a := None)"
    using assms(1,2) by (auto simp: collect_def py_run_method_def py_return_def py_at_def library_call_def split: sum.splits)
  then have "line_at s' a = Inl (Undefined DanglingPointer)" by (simp add: line_at_def)
  then have null: "protocol_write_line os ws s' ?p w bs = Inl (Undefined DanglingPointer)"
    "protocol_read_line os ws s' ?p w n = Inl (Undefined DanglingPointer)" for w bs n
    by (simp_all add: protocol_write_line_def protocol_read_line_def)
  have "MessageProtocol_sendMessage (protocol_write_line os ws s' ?p) (py_world s') m = Some (Inl (Undefined DanglingPointer))"
    using assms(5) null(1) by (simp add: sendMessage_send_loop send_loop.simps)
  moreover have "MessageProtocol_readMessage (protocol_read_line os ws s' ?p) (py_world s') Message_new =
      Inl (Undefined DanglingPointer)"
    by (simp add: MessageProtocol_readMessage_def Message_size_def Message_new_frames fill_null [OF null(2)])
  moreover have "p \<noteq> a" "msg \<noteq> a" using assms(2-4) by auto
  ultimately show ?thesis
    using assms objs by (simp add: py_sendMessage_def py_readMessage_def py_run py_run_method_def py_return_def py_at_def)
qed

section \<open>Properties\<close>

text \<open>
  C19 (python_calls): the methods of the Python module. Every method that returns does so with the interpreter lock held and
  without having called the interpreter, or read the memory of one of its objects, while the lock was given up, whether it
  succeeds or raises. A read returns exactly the bytes the line delivered; when the line reports an error it raises a
  \<^verbatim>\<open>SystemError\<close>, and the line and everything else is as the read left it. A write hands the line exactly the bytes of the
  object and returns \<^verbatim>\<open>None\<close> whatever the line reports. And collecting a line leaves protocols that were made for it
  with a dangling pointer, which their next call follows.
\<close>
theorem python_calls:
  assumes "makes_bytearrays py" and "knows_bytes py" and "pycppio py os accs turns ws scaled s c = Some (s', gil, r)"
  shows "gil \<and> r \<noteq> Inl NoInterpreterLock \<and>
    (\<forall>self l n w' out rc. c = Line_readFrom self n \<and> py_objects s self = Some (Line_obj l) \<and>
       IoLine_read os ws l (py_world s) (nat n) = Inr (w', out, rc) \<and> int (length out) \<le> n \<and> n < 2 ^ 31 \<and>
       (rc = int (length out) \<or> - (2 ^ 63) \<le> rc \<and> rc < 0) \<longrightarrow>
       s' = s\<lparr>py_world := w'\<rparr> \<and>
       r = (if rc < 0 then Inl (PyException negative_size) else Inr (Py_bytes (PyByteArray out)))) \<and>
    (\<forall>self l x bs w' rc. c = Line_writeTo self x \<and> py_objects s self = Some (Line_obj l) \<and>
       (x = PyBytes bs \<or> x = PyByteArray bs) \<and> length bs < 2 ^ 63 \<and> IoLine_write os ws l (py_world s) bs = Inr (w', rc) \<longrightarrow>
       s' = s\<lparr>py_world := w'\<rparr> \<and> r = Inr Py_None) \<and>
    (\<forall>a l p m msg v. c = Delete a \<and> r = Inr v \<and> py_objects s a = Some (Line_obj l) \<and>
       py_objects s p = Some (Protocol_obj (MessageProtocol_new (Some a))) \<and> py_objects s msg = Some (Message_obj m) \<and>
       length (encode m) < 2 ^ 31 \<longrightarrow>
       pycppio py os accs turns ws scaled s' (Protocol_send p msg) = Some (s', True, Inl (Cpp (Undefined DanglingPointer))) \<and>
       pycppio py os accs turns ws scaled s' (Protocol_read p) = Some (s', True, Inl (Cpp (Undefined DanglingPointer))))"
proof (intro conjI allI impI; (elim conjE)?)
  show "gil" "r \<noteq> Inl NoInterpreterLock" using method_returns_ok [OF assms(3)] by (simp_all add: method_ok_def)
next
  fix self l n w' out rc
  assume c: "c = Line_readFrom self n" and read: "py_objects s self = Some (Line_obj l)"
    "IoLine_read os ws l (py_world s) (nat n) = Inr (w', out, rc)" "int (length out) \<le> n" "n < 2 ^ 31"
    "rc = int (length out) \<or> - (2 ^ 63) \<le> rc \<and> rc < 0"
  from line_read_result [of py s self l, OF assms(1) read, of accs turns scaled] assms(3) c
  show "s' = s\<lparr>py_world := w'\<rparr>" "r = (if rc < 0 then Inl (PyException negative_size) else Inr (Py_bytes (PyByteArray out)))"
    by (simp_all only: py_at_def option.inject prod.inject)
next
  fix self l x bs w' rc
  assume c: "c = Line_writeTo self x" and "write": "py_objects s self = Some (Line_obj l)" "x = PyBytes bs \<or> x = PyByteArray bs"
    "length bs < 2 ^ 63" "IoLine_write os ws l (py_world s) bs = Inr (w', rc)"
  from line_write_result [OF assms(2) "write", of accs turns scaled] assms(3) c show "s' = s\<lparr>py_world := w'\<rparr>" "r = Inr Py_None"
    by (simp_all only: py_at_def option.inject prod.inject)
next
  fix a l p m msg v
  assume "c = Delete a" "r = Inr v" and objs: "py_objects s a = Some (Line_obj l)"
    "py_objects s p = Some (Protocol_obj (MessageProtocol_new (Some a)))" "py_objects s msg = Some (Message_obj m)"
    "length (encode m) < 2 ^ 31"
  then have "pycppio py os accs turns ws scaled s (Delete a) = Some (s', gil, Inr v)" using assms(3) by simp
  from collected_line_dangles [OF this objs]
  show "pycppio py os accs turns ws scaled s' (Protocol_send p msg) = Some (s', True, Inl (Cpp (Undefined DanglingPointer)))"
    "pycppio py os accs turns ws scaled s' (Protocol_read p) = Some (s', True, Inl (Cpp (Undefined DanglingPointer)))"
    by simp_all
qed

text \<open>A socket whose peer has gone, and a protocol for it: the read raises, and the line is collected.\<close>

definition py_example :: "(byte list \<times> int set) py_state" where
  "py_example = \<lparr>py_objects = [0 \<mapsto> Line_obj (Unix_line (UnixSocket_accepted 5 [])),
     1 \<mapsto> Protocol_obj (MessageProtocol_new (Some 0)), 2 \<mapsto> Message_obj Message_new], py_next = 3,
     py_world = (inproc_init, ([], {}))\<rparr>"

theorem python_calls_witness:
  "pycppio cpython loop_kernel [] [] [] id py_example (Line_readFrom 0 4) =
     Some (py_example, True, Inl (PyException negative_size)) \<and>
   (\<exists>s'. pycppio cpython loop_kernel [] [] [] id py_example (Line_writeTo 0 (PyBytes [7, 8, 9, 10])) = Some (s', True, Inr Py_None) \<and>
     py_world s' = (inproc_init, ([7, 8, 9], {}))) \<and>
   (\<exists>s'. pycppio cpython loop_kernel [] [] [] id py_example (Delete 0) = Some (s', True, Inr Py_None) \<and>
     pycppio cpython loop_kernel [] [] [] id s' (Protocol_send 1 2) = Some (s', True, Inl (Cpp (Undefined DanglingPointer))))"
  (is "?lost \<and> ?written \<and> ?collected")
proof (intro conjI)
  let ?call = "pycppio cpython loop_kernel [] [] [] id"
  have line: "py_objects py_example 0 = Some (Line_obj (Unix_line (UnixSocket_accepted 5 [])))"
    "py_objects py_example 1 = Some (Protocol_obj (MessageProtocol_new (Some 0)))"
    "py_objects py_example 2 = Some (Message_obj Message_new)" "py_world py_example = (inproc_init, ([], {}))"
    by (simp_all add: py_example_def)
  have lost: "IoLine_read loop_kernel [] (Unix_line (UnixSocket_accepted 5 [])) (py_world py_example) (nat 4) =
      Inr (py_world py_example, [], eConnectionLost)"
    by (simp add: line IoLine_read_def UnixSocket_read_def read_code_def loop_kernel_def)
  have same: "py_example\<lparr>py_world := (inproc_init, ([], {}))\<rparr> = py_example" by (simp add: py_example_def)
  obtain s1 gil1 r1 where s1: "?call py_example (Line_readFrom 0 4) = Some (s1, gil1, r1)" by (metis prod.exhaust pycppio.simps(8))
  from python_calls [OF cpython_makes cpython_knows s1] lost line(1,4) same
  have "gil1" "s1 = py_example" "r1 = Inl (PyException negative_size)" by (simp_all add: eConnectionLost_def)
  with s1 show ?lost by simp
  have sent: "IoLine_write loop_kernel [] (Unix_line (UnixSocket_accepted 5 [])) (py_world py_example) [7, 8, 9, 10] =
      Inr ((inproc_init, ([7, 8, 9], {})), 3)"
    by (simp add: line IoLine_write_def UnixSocket_write_def loop_kernel_def)
  obtain s2 gil2 r2 where s2: "?call py_example (Line_writeTo 0 (PyBytes [7, 8, 9, 10])) = Some (s2, gil2, r2)"
    by (metis prod.exhaust pycppio.simps(9))
  from python_calls [OF cpython_makes cpython_knows s2] sent line(1)
  have "gil2" "py_world s2 = (inproc_init, ([7, 8, 9], {}))" "r2 = Inr Py_None" by simp_all
  with s2 show ?written by simp
  obtain s3 where s3: "?call py_example (Delete 0) = Some (s3, True, Inr Py_None)"
    by (simp add: py_example_def collect_def py_run_method_def py_return_def library_call_def IoLine_destroy_def)
  have small: "length (encode Message_new) < 2 ^ 31" by (simp add: encode_def Message_new_def)
  note gone = python_calls [OF cpython_makes cpython_knows s3, THEN conjunct2, THEN conjunct2, THEN conjunct2, THEN conjunct2, rule_format]
  have "?call s3 (Protocol_send 1 2) = Some (s3, True, Inl (Cpp (Undefined DanglingPointer)))"
    by (rule gone [THEN conjunct1]) (rule conjI refl line small)+
  with s3 show ?collected by blast
qed

end
