(* ===== verification/RegistryThreads.thy ===== *)
theory RegistryThreads
  imports Inproc
begin

text \<open>
  The registry of inter-thread lines (\<^verbatim>\<open>gs_acceptors\<close> and \<^verbatim>\<open>gs_connectQueue\<close> of src/common/inproc.cpp) used by any number
  of threads. The theory \<open>Inproc\<close> describes one call with the effects of the others given; here
  the static mutex \<^verbatim>\<open>gs_mutex\<close> and the mutex of every line have owners, and the threads that wait on \<^verbatim>\<open>gs_cond\<close>
  or on the condition variable of a line stay there until they are notified, time out or wake up spuriously.

  A step is the part of a call between two points at which another thread can intervene: locking a
  mutex and waiting on a condition variable. The threads create clients, wait for connections, create servers and
  destroy acceptors. What they do with connected lines does not touch the registry and is the subject of \<open>QueueThreads\<close>.
\<close>

section \<open>Threads\<close>

text \<open>
  Where a thread is. \<open>Outside\<close> of every call, or behind one with its result: \<open>Got_line\<close> from \<^verbatim>\<open>createClient\<close>,
  \<open>Got_peer\<close> from \<^verbatim>\<open>waitConnection\<close>, \<open>Got_acceptor\<close> from \<^verbatim>\<open>createServer\<close>. In \<^verbatim>\<open>createClient\<close>: \<open>Enqueue\<close> with \<^verbatim>\<open>gs_mutex\<close>, then
  \<open>Enter\<close> before the mutex of the line, \<open>Test\<close> with it at the test of the two pointers, \<open>Asleep\<close> in the wait. In
  \<^verbatim>\<open>waitConnection\<close>: \<open>Scan\<close> with \<^verbatim>\<open>gs_mutex\<close> at the head of the loop, \<open>Sleeping\<close> in the wait, \<open>Woken\<close> behind it but without the
  mutex yet, \<open>Lock_peer\<close> in the constructor of the new line, before the mutex of the client's line, and \<open>Cross\<close> with it.
  \<open>Register\<close> and \<open>Unregister\<close>: in \<^verbatim>\<open>createServer\<close> and the destructor of an acceptor, with \<^verbatim>\<open>gs_mutex\<close>.
\<close>

datatype reg_pc =
    Outside | Got_line nat | Got_peer "nat option" | Got_acceptor "nat option"
  | Enqueue string | Enter nat | Test nat | Asleep nat
  | Scan nat | Sleeping nat | Woken nat | Lock_peer nat nat | Cross nat nat
  | Register string | Unregister nat

record registry =
  reg :: inproc
  gs_mutex :: "nat option"
  line_mutex :: "nat \<Rightarrow> nat option"
  rpcs :: "nat \<Rightarrow> reg_pc"

definition registry_init :: registry where
  "registry_init = \<lparr>reg = inproc_init, gs_mutex = None, line_mutex = (\<lambda>_. None), rpcs = (\<lambda>_. Outside)\<rparr>"

definition at_pc :: "registry \<Rightarrow> nat \<Rightarrow> reg_pc \<Rightarrow> registry" where
  "at_pc s t p = s\<lparr>rpcs := (rpcs s)(t := p)\<rparr>"

definition lock_gs :: "registry \<Rightarrow> nat \<Rightarrow> reg_pc \<Rightarrow> registry option" where
  "lock_gs s t p = (if gs_mutex s = None then Some (at_pc (s\<lparr>gs_mutex := Some t\<rparr>) t p) else None)"

definition unlock_gs :: "registry \<Rightarrow> nat \<Rightarrow> reg_pc \<Rightarrow> registry" where
  "unlock_gs s t p = at_pc (s\<lparr>gs_mutex := None\<rparr>) t p"

definition lock_line :: "registry \<Rightarrow> nat \<Rightarrow> nat \<Rightarrow> reg_pc \<Rightarrow> registry option" where
  "lock_line s t l p =
     (if line_mutex s l = None then Some (at_pc (s\<lparr>line_mutex := (line_mutex s)(l := Some t)\<rparr>) t p) else None)"

definition unlock_line :: "registry \<Rightarrow> nat \<Rightarrow> nat \<Rightarrow> reg_pc \<Rightarrow> registry" where
  "unlock_line s t l p = at_pc (s\<lparr>line_mutex := (line_mutex s)(l := None)\<rparr>) t p"

text \<open>
  \<^verbatim>\<open>gs_cond.notify_all()\<close>, and \<^verbatim>\<open>other->m_condition.notify_one()\<close>: on the condition variable of a line only the thread that
  created it waits (\<open>lines_apart\<close> below), so that one is all.
\<close>

definition wake_acceptor :: "reg_pc \<Rightarrow> reg_pc" where
  "wake_acceptor p = (case p of Sleeping a \<Rightarrow> Woken a | _ \<Rightarrow> p)"

definition wake_client :: "nat \<Rightarrow> reg_pc \<Rightarrow> reg_pc" where
  "wake_client l p = (case p of Asleep l' \<Rightarrow> if l' = l then Enter l else p | _ \<Rightarrow> p)"

text \<open>One turn of the loop of \<^verbatim>\<open>waitConnection\<close>; \<open>expired\<close>: the clock shows that no time is left.\<close>

definition scan_turn :: "registry \<Rightarrow> nat \<Rightarrow> nat \<Rightarrow> bool \<Rightarrow> failure + registry" where
  "scan_turn s t a expired =
     bind_res (deref (acceptors (reg s)) a) (\<lambda>address.
     bind_res (scan_queue (lines (reg s)) address (gs_connectQueue (reg s))) (\<lambda>r.
       case r of
         Some (l, rest) \<Rightarrow> Inr (at_pc (s\<lparr>reg := (reg s)\<lparr>gs_connectQueue := rest\<rparr>\<rparr>) t (Lock_peer a l))
       | None \<Rightarrow> Inr (unlock_gs s t (if expired then Got_peer None else Sleeping a))))"

text \<open>What a thread does next inside a call; \<open>None\<close> when it has to wait.\<close>

fun proceed :: "registry \<Rightarrow> nat \<Rightarrow> reg_pc \<Rightarrow> (failure + registry) option" where
  "proceed s t (Enqueue address) =
     (let (st, l) = createClient_enqueue (reg s) address
      in Some (Inr (unlock_gs (s\<lparr>reg := st, rpcs := wake_acceptor \<circ> rpcs s\<rparr>) t (Enter l))))"
| "proceed s t (Enter l) = map_option Inr (lock_line s t l (Test l))"
| "proceed s t (Test l) =
     Some (bind_res (InprocLine_connected (reg s) l) (\<lambda>c.
       Inr (unlock_line s t l (if c then Got_line l else Asleep l))))"
| "proceed s t (Scan a) = Some (scan_turn s t a False)"
| "proceed s t (Woken a) = map_option Inr (lock_gs s t (Scan a))"
| "proceed s t (Lock_peer a l) = map_option Inr (lock_line s t l (Cross a l))"
| "proceed s t (Cross a l) =
     Some (bind_res (InprocLine_server (reg s) l) (\<lambda>(st, p).
       Inr (unlock_gs (unlock_line (s\<lparr>reg := st, rpcs := wake_client l \<circ> rpcs s\<rparr>) t l (Got_peer (Some p)))
              t (Got_peer (Some p)))))"
| "proceed s t (Register address) =
     Some (bind_res (InprocLineFactory_createServer (reg s) address) (\<lambda>(st, r).
       Inr (unlock_gs (s\<lparr>reg := st\<rparr>) t (Got_acceptor r))))"
| "proceed s t (Unregister a) =
     Some (Inr (unlock_gs (s\<lparr>reg := InprocAcceptor_destroy (reg s) a\<rparr>) t Outside))"
| "proceed s t p = None"

fun at_rest :: "reg_pc \<Rightarrow> bool" where
  "at_rest Outside = True"
| "at_rest (Got_line _) = True"
| "at_rest (Got_peer _) = True"
| "at_rest (Got_acceptor _) = True"
| "at_rest _ = False"

datatype reg_action =
    Create_client string | Wait_connection nat | Create_server string | Destroy_acceptor nat
  | Proceed | Deadline | Wake_up

text \<open>One step of thread \<open>t\<close>: it begins a call, continues one, finds its time expired, or is woken without a notification.\<close>

fun reg_act :: "registry \<Rightarrow> nat \<Rightarrow> reg_action \<Rightarrow> (failure + registry) option" where
  "reg_act s t (Create_client address) = (if at_rest (rpcs s t) then map_option Inr (lock_gs s t (Enqueue address)) else None)"
| "reg_act s t (Wait_connection a) = (if at_rest (rpcs s t) then map_option Inr (lock_gs s t (Scan a)) else None)"
| "reg_act s t (Create_server address) = (if at_rest (rpcs s t) then map_option Inr (lock_gs s t (Register address)) else None)"
| "reg_act s t (Destroy_acceptor a) = (if at_rest (rpcs s t) then map_option Inr (lock_gs s t (Unregister a)) else None)"
| "reg_act s t Proceed = proceed s t (rpcs s t)"
| "reg_act s t Deadline = (case rpcs s t of Scan a \<Rightarrow> Some (scan_turn s t a True) | _ \<Rightarrow> None)"
| "reg_act s t Wake_up =
     (case rpcs s t of
        Sleeping a \<Rightarrow> Some (Inr (at_pc s t (Woken a)))
      | Asleep l \<Rightarrow> Some (Inr (at_pc s t (Enter l)))
      | _ \<Rightarrow> None)"

text \<open>
  What the callers owe: an acceptor is used only while it exists, and destroyed only when nobody uses it.
\<close>

fun uses :: "reg_pc \<Rightarrow> nat option" where
  "uses (Scan a) = Some a"
| "uses (Sleeping a) = Some a"
| "uses (Woken a) = Some a"
| "uses (Lock_peer a _) = Some a"
| "uses (Cross a _) = Some a"
| "uses (Unregister a) = Some a"
| "uses _ = None"

fun destroys :: "reg_pc \<Rightarrow> nat option" where
  "destroys (Unregister a) = Some a"
| "destroys _ = None"

fun call_ok :: "registry \<Rightarrow> reg_action \<Rightarrow> bool" where
  "call_ok s (Wait_connection a) \<longleftrightarrow> acceptors (reg s) a \<noteq> None \<and> (\<forall>u. destroys (rpcs s u) \<noteq> Some a)"
| "call_ok s (Destroy_acceptor a) \<longleftrightarrow> acceptors (reg s) a \<noteq> None \<and> (\<forall>u. uses (rpcs s u) \<noteq> Some a)"
| "call_ok s _ \<longleftrightarrow> True"

inductive registry_reachable :: "registry \<Rightarrow> bool" where
  start: "registry_reachable registry_init"
| move: "registry_reachable s \<Longrightarrow> call_ok s x \<Longrightarrow> reg_act s t x = Some (Inr s') \<Longrightarrow> registry_reachable s'"

section \<open>Invariant\<close>

fun holds_gs :: "reg_pc \<Rightarrow> bool" where
  "holds_gs (Enqueue _) = True"
| "holds_gs (Scan _) = True"
| "holds_gs (Lock_peer _ _) = True"
| "holds_gs (Cross _ _) = True"
| "holds_gs (Register _) = True"
| "holds_gs (Unregister _) = True"
| "holds_gs _ = False"

fun holds_line :: "reg_pc \<Rightarrow> nat option" where
  "holds_line (Test l) = Some l"
| "holds_line (Cross _ l) = Some l"
| "holds_line _ = None"

text \<open>The client line a thread waits for, the one an acceptor has taken from the queue, and the line a thread made or got.\<close>

fun awaits :: "reg_pc \<Rightarrow> nat option" where
  "awaits (Enter l) = Some l"
| "awaits (Test l) = Some l"
| "awaits (Asleep l) = Some l"
| "awaits _ = None"

fun takes :: "reg_pc \<Rightarrow> nat option" where
  "takes (Lock_peer _ l) = Some l"
| "takes (Cross _ l) = Some l"
| "takes _ = None"

fun owns :: "reg_pc \<Rightarrow> nat option" where
  "owns (Enter l) = Some l"
| "owns (Test l) = Some l"
| "owns (Asleep l) = Some l"
| "owns (Got_line l) = Some l"
| "owns (Got_peer (Some l)) = Some l"
| "owns _ = None"

definition unconnected :: "inproc \<Rightarrow> nat \<Rightarrow> bool" where
  "unconnected st l \<longleftrightarrow> (\<exists>line. lines st l = Some line \<and> m_in line = None)"

definition locks_ok :: "registry \<Rightarrow> bool" where
  "locks_ok s \<longleftrightarrow> (\<forall>t. gs_mutex s = Some t \<longleftrightarrow> holds_gs (rpcs s t)) \<and>
     (\<forall>t l. line_mutex s l = Some t \<longleftrightarrow> holds_line (rpcs s t) = Some l)"

text \<open>What each thread relies on: a sleeping client is not connected, a sleeping acceptor has no client in the queue.\<close>

fun thread_ok :: "inproc \<Rightarrow> reg_pc \<Rightarrow> bool" where
  "thread_ok st (Got_line l) \<longleftrightarrow> (\<exists>p. peers st l p)"
| "thread_ok st (Got_peer (Some p)) \<longleftrightarrow> (\<exists>l. peers st l p)"
| "thread_ok st (Enter l) \<longleftrightarrow> lines st l \<noteq> None"
| "thread_ok st (Test l) \<longleftrightarrow> lines st l \<noteq> None"
| "thread_ok st (Asleep l) \<longleftrightarrow> unconnected st l"
| "thread_ok st (Sleeping a) \<longleftrightarrow> (\<forall>l \<in> set (gs_connectQueue st). line_address st l \<noteq> acceptors st a)"
| "thread_ok st (Lock_peer a l) \<longleftrightarrow> unconnected st l \<and> l \<notin> set (gs_connectQueue st)"
| "thread_ok st (Cross a l) \<longleftrightarrow> unconnected st l \<and> l \<notin> set (gs_connectQueue st)"
| "thread_ok st _ \<longleftrightarrow> True"

definition lines_apart :: "registry \<Rightarrow> bool" where
  "lines_apart s \<longleftrightarrow> (\<forall>t u l. owns (rpcs s t) = Some l \<longrightarrow> owns (rpcs s u) = Some l \<longrightarrow> t = u)"

definition acceptors_live :: "registry \<Rightarrow> bool" where
  "acceptors_live s \<longleftrightarrow> (\<forall>t a. uses (rpcs s t) = Some a \<longrightarrow> acceptors (reg s) a \<noteq> None \<and>
     (\<forall>u. destroys (rpcs s u) = Some a \<longrightarrow> u = t))"

text \<open>A line somebody waits for is connected, queued, or in the hands of an acceptor.\<close>

definition none_forgotten :: "registry \<Rightarrow> bool" where
  "none_forgotten s \<longleftrightarrow> (\<forall>t l. awaits (rpcs s t) = Some l \<longrightarrow> unconnected (reg s) l \<longrightarrow>
     l \<in> set (gs_connectQueue (reg s)) \<or> (\<exists>u. takes (rpcs s u) = Some l))"

definition all_paired :: "inproc \<Rightarrow> bool" where
  "all_paired st \<longleftrightarrow> (\<forall>l line. lines st l = Some line \<longrightarrow> m_in line \<noteq> None \<longrightarrow> (\<exists>p. peers st l p))"

definition registry_inv :: "registry \<Rightarrow> bool" where
  "registry_inv s \<longleftrightarrow> inproc_inv (reg s) \<and> locks_ok s \<and> (\<forall>t. thread_ok (reg s) (rpcs s t)) \<and> lines_apart s \<and>
     acceptors_live s \<and> none_forgotten s \<and> all_paired (reg s)"

lemmas registry_inv_defs = registry_inv_def locks_ok_def lines_apart_def acceptors_live_def none_forgotten_def

lemmas reg_step_defs = at_pc_def lock_gs_def unlock_gs_def lock_line_def unlock_line_def

lemma wake_acceptor_simps [simp]:
  "holds_gs (wake_acceptor p) = holds_gs p" "holds_line (wake_acceptor p) = holds_line p"
  "awaits (wake_acceptor p) = awaits p" "takes (wake_acceptor p) = takes p" "owns (wake_acceptor p) = owns p"
  "uses (wake_acceptor p) = uses p" "destroys (wake_acceptor p) = destroys p"
  by (cases p; simp add: wake_acceptor_def)+

lemma wake_client_simps [simp]:
  "holds_gs (wake_client l p) = holds_gs p" "holds_line (wake_client l p) = holds_line p"
  "awaits (wake_client l p) = awaits p" "takes (wake_client l p) = takes p" "owns (wake_client l p) = owns p"
  "uses (wake_client l p) = uses p" "destroys (wake_client l p) = destroys p"
  by (cases p; simp add: wake_client_def)+

lemma rest_simps [simp]:
  "at_rest p \<Longrightarrow> \<not> holds_gs p" "at_rest p \<Longrightarrow> holds_line p = None" "at_rest p \<Longrightarrow> awaits p = None"
  "at_rest p \<Longrightarrow> takes p = None" "at_rest p \<Longrightarrow> uses p = None" "at_rest p \<Longrightarrow> destroys p = None"
  by (cases p; simp)+

lemma takes_holds: "takes p = Some l \<Longrightarrow> holds_gs p"
  by (cases p) simp_all

lemma destroys_uses: "destroys p = Some a \<Longrightarrow> uses p = Some a"
  by (cases p) simp_all

lemma line_owner:
  assumes "registry_inv s"
  shows "holds_line (rpcs s t) = Some l \<Longrightarrow> holds_line (rpcs s u) = Some l \<Longrightarrow> t = u"
    and "line_mutex s l = None \<Longrightarrow> holds_line (rpcs s u) \<noteq> Some l"
    and "holds_line (rpcs s t) = Some l \<Longrightarrow> line_mutex s l = Some t"
  using assms by (metis registry_inv_def locks_ok_def option.inject option.distinct(1))+

lemma gs_owner:
  assumes "registry_inv s"
  shows "holds_gs (rpcs s t) \<Longrightarrow> holds_gs (rpcs s u) \<Longrightarrow> t = u"
    and "gs_mutex s = None \<Longrightarrow> \<not> holds_gs (rpcs s u)"
    and "holds_gs (rpcs s t) \<Longrightarrow> gs_mutex s = Some t"
  using assms by (metis registry_inv_def locks_ok_def option.inject option.distinct(1))+

lemma forgotten_frame:
  assumes "none_forgotten s" and "reg s' = reg s"
    and "\<And>u l. awaits (rpcs s' u) = Some l \<Longrightarrow> unconnected (reg s) l \<Longrightarrow> awaits (rpcs s u) = Some l"
    and "\<And>u l. takes (rpcs s u) = Some l \<Longrightarrow> takes (rpcs s' u) = Some l"
  shows "none_forgotten s'"
  using assms unfolding none_forgotten_def by metis

text \<open>Steps that leave the registry alone.\<close>

lemma lock_gs_inv:
  assumes "registry_inv s" and "lock_gs s t p = Some s'" and "holds_gs p" and "\<not> holds_gs (rpcs s t)"
    and "holds_line (rpcs s t) = None" "holds_line p = None" and "awaits p = None" and "takes (rpcs s t) = None"
    and "owns p = None" and "thread_ok (reg s) p"
    and "\<And>a. uses p = Some a \<Longrightarrow> acceptors (reg s) a \<noteq> None \<and> (\<forall>u. u \<noteq> t \<longrightarrow> destroys (rpcs s u) \<noteq> Some a)"
    and "\<And>a. destroys p = Some a \<Longrightarrow> \<forall>u. u \<noteq> t \<longrightarrow> uses (rpcs s u) \<noteq> Some a"
  shows "registry_inv s'"
proof -
  have s': "s' = at_pc (s\<lparr>gs_mutex := Some t\<rparr>) t p" and free: "gs_mutex s = None"
    using assms(2) by (auto simp: lock_gs_def split: if_splits)
  have "locks_ok s'" using assms(1,3,5,6) free by (auto simp: registry_inv_def locks_ok_def s' at_pc_def)
  moreover have "lines_apart s'" "\<forall>u. thread_ok (reg s') (rpcs s' u)"
    using assms(1,9,10) by (auto simp: registry_inv_def lines_apart_def s' at_pc_def)
  moreover have "none_forgotten s'"
    by (rule forgotten_frame [of s]) (use assms(1,7,8) in \<open>auto simp: registry_inv_def s' at_pc_def split: if_splits\<close>)
  moreover have "acceptors_live s'"
    using assms(1,11,12) by (auto simp: registry_inv_defs s' at_pc_def)
  ultimately show ?thesis using assms(1) by (simp add: registry_inv_def s' at_pc_def)
qed

lemma move_inv:
  assumes "registry_inv s" and "holds_gs p = holds_gs (rpcs s t)" and "holds_line p = holds_line (rpcs s t)"
    and "awaits p = awaits (rpcs s t)" and "takes p = takes (rpcs s t)" and "owns p = owns (rpcs s t)"
    and "uses p = uses (rpcs s t)" and "destroys p = destroys (rpcs s t)" and "thread_ok (reg s) p"
  shows "registry_inv (at_pc s t p)"
proof -
  let ?s = "at_pc s t p"
  have same: "holds_gs (rpcs ?s u) = holds_gs (rpcs s u)" "holds_line (rpcs ?s u) = holds_line (rpcs s u)"
    "awaits (rpcs ?s u) = awaits (rpcs s u)" "takes (rpcs ?s u) = takes (rpcs s u)" "owns (rpcs ?s u) = owns (rpcs s u)"
    "uses (rpcs ?s u) = uses (rpcs s u)" "destroys (rpcs ?s u) = destroys (rpcs s u)" for u
    using assms(2-8) by (simp_all add: at_pc_def)
  have "locks_ok ?s" "lines_apart ?s" "acceptors_live ?s" "none_forgotten ?s"
    using assms(1) unfolding registry_inv_defs same by (auto simp: at_pc_def)
  then show ?thesis using assms(1,9) by (simp add: registry_inv_def at_pc_def)
qed

lemma lock_line_inv:
  assumes "registry_inv s" and "lock_line s t l p = Some s'" and "holds_line p = Some l" "holds_line (rpcs s t) = None"
    and "holds_gs p = holds_gs (rpcs s t)" and "awaits p = awaits (rpcs s t)" and "takes p = takes (rpcs s t)"
    and "owns p = owns (rpcs s t)" and "uses p = uses (rpcs s t)" and "destroys p = destroys (rpcs s t)"
    and "thread_ok (reg s) p"
  shows "registry_inv s'"
proof -
  have s': "s' = at_pc (s\<lparr>line_mutex := (line_mutex s)(l := Some t)\<rparr>) t p" and free: "line_mutex s l = None"
    using assms(2) by (auto simp: lock_line_def split: if_splits)
  have same: "holds_gs (rpcs s' u) = holds_gs (rpcs s u)"
    "awaits (rpcs s' u) = awaits (rpcs s u)" "takes (rpcs s' u) = takes (rpcs s u)" "owns (rpcs s' u) = owns (rpcs s u)"
    "uses (rpcs s' u) = uses (rpcs s u)" "destroys (rpcs s' u) = destroys (rpcs s u)" for u
    using assms(5-10) by (simp_all add: s' at_pc_def)
  have "locks_ok s'"
    using assms(1,3,4,5) line_owner(2) [OF assms(1) free] by (auto simp: registry_inv_def locks_ok_def s' at_pc_def)
  moreover have "lines_apart s'" "acceptors_live s'" "none_forgotten s'"
    using assms(1) unfolding registry_inv_defs same by (auto simp: s' at_pc_def)
  ultimately show ?thesis using assms(1,11) by (simp add: registry_inv_def s' at_pc_def)
qed

lemma unlock_line_inv:
  assumes "registry_inv s" and "rpcs s t = Test l" and "p = Got_line l \<and> \<not> unconnected (reg s) l \<or> p = Asleep l"
    and "thread_ok (reg s) p"
  shows "registry_inv (unlock_line s t l p)"
proof -
  let ?s = "unlock_line s t l p"
  have same: "holds_gs (rpcs ?s u) = holds_gs (rpcs s u)" "takes (rpcs ?s u) = takes (rpcs s u)"
    "owns (rpcs ?s u) = owns (rpcs s u)" "uses (rpcs ?s u) = uses (rpcs s u)"
    "destroys (rpcs ?s u) = destroys (rpcs s u)" for u
    using assms(2,3) by (auto simp: unlock_line_def at_pc_def)
  have "holds_line p = None" and only: "holds_line (rpcs s u) = Some l \<Longrightarrow> u = t" for u
    using assms(2,3) line_owner(1) [OF assms(1), of u l t] by auto
  then have "locks_ok ?s"
    using assms(1,2) unfolding registry_inv_def locks_ok_def same by (auto simp: unlock_line_def at_pc_def)
  moreover have "none_forgotten ?s"
    by (rule forgotten_frame [of s]) (use assms(1-3) in \<open>auto simp: registry_inv_def unlock_line_def at_pc_def split: if_splits\<close>)
  moreover have "lines_apart ?s" "acceptors_live ?s"
    using assms(1) unfolding registry_inv_defs same by (auto simp: unlock_line_def at_pc_def)
  ultimately show ?thesis using assms(1,4) by (simp add: registry_inv_def unlock_line_def at_pc_def)
qed

text \<open>
  The end of a critical section on \<^verbatim>\<open>gs_mutex\<close>: the registry becomes \<open>st\<close>, some threads are woken by \<open>w\<close>, the mutexes of
  the lines become \<open>lm\<close>, and the thread goes on at \<open>p\<close>.
\<close>

definition keeps_role :: "(reg_pc \<Rightarrow> reg_pc) \<Rightarrow> bool" where
  "keeps_role w \<longleftrightarrow> (\<forall>p. holds_gs (w p) = holds_gs p \<and> holds_line (w p) = holds_line p \<and> awaits (w p) = awaits p \<and>
     takes (w p) = takes p \<and> owns (w p) = owns p \<and> uses (w p) = uses p \<and> destroys (w p) = destroys p)"

lemma keeps_role_intros [simp]: "keeps_role wake_acceptor" "keeps_role (wake_client l)" "keeps_role (\<lambda>p. p)"
  by (simp_all add: keeps_role_def)

lemma leave_gs_inv:
  assumes inv: "registry_inv s" and gs: "holds_gs (rpcs s t)" and st: "inproc_inv st" "all_paired st" and w: "keeps_role w"
    and p: "\<not> holds_gs p" "holds_line p = None" "destroys p = None" "thread_ok st p"
    and lm: "\<And>u k. lm k = Some u \<longleftrightarrow> u \<noteq> t \<and> holds_line (rpcs s u) = Some k"
    and others: "\<And>u. u \<noteq> t \<Longrightarrow> thread_ok st (w (rpcs s u))"
    and owned: "\<And>u l. u \<noteq> t \<Longrightarrow> owns p = Some l \<Longrightarrow> owns (rpcs s u) \<noteq> Some l"
    and used: "\<And>u a. u \<noteq> t \<Longrightarrow> uses (rpcs s u) = Some a \<Longrightarrow> acceptors st a \<noteq> None"
      "\<And>a. uses p = Some a \<Longrightarrow> acceptors st a \<noteq> None"
    and awaited: "\<And>u l. u \<noteq> t \<Longrightarrow> awaits (rpcs s u) = Some l \<Longrightarrow> unconnected st l \<Longrightarrow> l \<in> set (gs_connectQueue st)"
      "\<And>l. awaits p = Some l \<Longrightarrow> unconnected st l \<Longrightarrow> l \<in> set (gs_connectQueue st)"
  shows "registry_inv (s\<lparr>reg := st, line_mutex := lm, gs_mutex := None, rpcs := (w \<circ> rpcs s)(t := p)\<rparr>)"
proof -
  let ?s = "s\<lparr>reg := st, line_mutex := lm, gs_mutex := None, rpcs := (w \<circ> rpcs s)(t := p)\<rparr>"
  note role = w [unfolded keeps_role_def]
  have alone: "\<not> holds_gs (rpcs s u)" if "u \<noteq> t" for u using gs_owner(1) [OF inv gs] that by blast
  have "locks_ok ?s" using p(1,2) lm alone role by (auto simp: locks_ok_def)
  moreover have "lines_apart ?s"
    using inv owned role by (auto simp: registry_inv_def lines_apart_def)
  moreover have "destroys (rpcs s u) = None" if "u \<noteq> t" for u using alone [OF that] by (cases "rpcs s u") simp_all
  then have "acceptors_live ?s" using used role p(3) by (auto simp: acceptors_live_def)
  moreover have "none_forgotten ?s" using awaited role by (auto simp: none_forgotten_def)
  ultimately show ?thesis using st p(4) others by (simp add: registry_inv_def)
qed

lemma thread_ok_mono:
  assumes "thread_ok st p" and "\<not> holds_gs p" and "\<And>c q. peers st c q \<Longrightarrow> peers st' c q"
    and "\<And>l. lines st l \<noteq> None \<Longrightarrow> lines st' l \<noteq> None"
    and "\<And>l. p = Asleep l \<Longrightarrow> unconnected st l \<Longrightarrow> unconnected st' l"
    and "\<And>a. p = Sleeping a \<Longrightarrow> thread_ok st (Sleeping a) \<Longrightarrow> thread_ok st' (Sleeping a)"
  shows "thread_ok st' p"
proof (cases p)
  case (Got_peer r)
  with assms(1,3) show ?thesis by (cases r) auto
qed (use assms in auto)

lemma owns_line: "thread_ok st p \<Longrightarrow> owns p = Some l \<Longrightarrow> lines st l \<noteq> None"
  by (cases p rule: owns.cases) (auto simp: peers_def unconnected_def)

lemma awaited_queued:
  assumes "registry_inv s" and "holds_gs (rpcs s t)" and "awaits (rpcs s u) = Some l" and "unconnected (reg s) l"
  shows "l \<in> set (gs_connectQueue (reg s)) \<or> takes (rpcs s t) = Some l"
  using assms gs_owner(1) [OF assms(1,2)] takes_holds by (metis registry_inv_def none_forgotten_def)

lemma fresh_unused: "inproc_inv st \<Longrightarrow> fresh st \<le> k \<Longrightarrow> lines st k = None \<and> acceptors st k = None"
  by (simp add: inproc_inv_def ids_ok_def)

lemma peers_lines_mono: "(\<And>k x. lines st k = Some x \<Longrightarrow> m_in x \<noteq> None \<Longrightarrow> lines st' k = Some x) \<Longrightarrow> peers st c p \<Longrightarrow> peers st' c p"
  unfolding peers_def by (metis option.discI)

lemma all_paired_mono:
  assumes "all_paired st" and "\<And>c q. peers st c q \<Longrightarrow> peers st' c q"
    and "\<And>k x. lines st' k = Some x \<Longrightarrow> m_in x \<noteq> None \<Longrightarrow> lines st k = Some x \<or> (\<exists>q. peers st' k q)"
  shows "all_paired st'"
  using assms unfolding all_paired_def by metis

lemma enqueue_inv:
  assumes inv: "registry_inv s" and pc: "rpcs s t = Enqueue address" and step: "proceed s t (rpcs s t) = Some (Inr s')"
  shows "registry_inv s'"
proof -
  let ?st = "fst (createClient_enqueue (reg s) address)" and ?l = "fresh (reg s)"
  have eq: "lines ?st = (lines (reg s))(?l \<mapsto> \<lparr>m_address = address, m_in = None, m_out = None, m_readTimeout = 0\<rparr>)"
    "gs_connectQueue ?st = gs_connectQueue (reg s) @ [?l]" "acceptors ?st = acceptors (reg s)"
    "snd (createClient_enqueue (reg s) address) = ?l"
    by (simp_all add: createClient_enqueue_def InprocLine_client_def)
  have st: "inproc_inv (reg s)" and ok: "\<And>u. thread_ok (reg s) (rpcs s u)" and paired: "all_paired (reg s)"
    using inv by (simp_all add: registry_inv_def)
  have new: "lines (reg s) ?l = None" using fresh_unused [OF st] by simp
  have mono: "peers (reg s) c q \<Longrightarrow> peers ?st c q" for c q
    by (rule peers_lines_mono [of "reg s"]) (use new in \<open>auto simp: eq\<close>)
  have unc: "unconnected ?st k \<longleftrightarrow> k = ?l \<or> unconnected (reg s) k" for k using new by (auto simp: unconnected_def eq)
  have "all_paired ?st" by (rule all_paired_mono [OF paired mono]) (auto simp: eq split: if_splits)
  moreover have "thread_ok ?st (wake_acceptor (rpcs s u))" if "u \<noteq> t" for u
  proof (rule thread_ok_mono [of "reg s"])
    show "thread_ok (reg s) (wake_acceptor (rpcs s u))" using ok [of u] by (cases "rpcs s u") (simp_all add: wake_acceptor_def)
    show "\<not> holds_gs (wake_acceptor (rpcs s u))" using gs_owner(1) [OF inv, of t u] that by (auto simp: pc)
    show "thread_ok ?st (Sleeping a)" if "wake_acceptor (rpcs s u) = Sleeping a" for a
      using that by (cases "rpcs s u") (simp_all add: wake_acceptor_def)
  qed (auto simp: mono eq(1) unc)
  moreover have "owns (rpcs s u) \<noteq> Some ?l" for u using owns_line [OF ok] new by blast
  moreover have "l \<in> set (gs_connectQueue ?st)" if "awaits (rpcs s u) = Some l" "unconnected ?st l" for u l
    using awaited_queued [OF inv _ that(1), of t] that(2) by (auto simp: pc eq unc)
  ultimately have "registry_inv (s\<lparr>reg := ?st, line_mutex := line_mutex s, gs_mutex := None,
      rpcs := (wake_acceptor \<circ> rpcs s)(t := Enter ?l)\<rparr>)"
    using inv pc by (intro leave_gs_inv) (auto simp: client_inv [OF st] eq registry_inv_defs)
  then show ?thesis using step pc by (simp add: split_beta unlock_gs_def at_pc_def eq Let_def)
qed

lemma server_eq:
  "lines st l = Some line \<Longrightarrow> InprocLine_server st l = Inr (paired st l line (gs_connectQueue st), fresh st + 2)"
  by (simp add: InprocLine_server_def paired_def fresh_queue_def Let_def)

lemma server_inv:
  assumes "inproc_inv st" and "lines st l = Some line" and "m_in line = None" and "l \<notin> set (gs_connectQueue st)"
  shows "inproc_inv (paired st l line (gs_connectQueue st))"
proof -
  let ?st = "st\<lparr>gs_connectQueue := l # gs_connectQueue st\<rparr>"
  have "lines_ok ?st = lines_ok st" "accept_ok ?st = accept_ok st" "unshared ?st = unshared st"
    by (intro inv_parts_cong; simp)+
  then have "inproc_inv ?st" using assms by (auto simp: inproc_inv_def connect_ok_def ids_ok_def)
  from paired_inv [OF this, of "[]" l "gs_connectQueue st" line] assms(2) show ?thesis by (simp add: paired_def)
qed

text \<open>What pairing a line changes for the others: nothing, except that the line is connected now.\<close>

lemma paired_facts:
  assumes st: "inproc_inv st" and l: "lines st l = Some line" "m_in line = None"
  defines "st' \<equiv> paired st l line (gs_connectQueue st)"
  shows "peers st' l (fresh st + 2)" and "peers st c q \<Longrightarrow> peers st' c q"
    and "unconnected st' k \<longleftrightarrow> k \<noteq> l \<and> unconnected st k" and "lines st k \<noteq> None \<Longrightarrow> lines st' k \<noteq> None"
    and "all_paired st \<Longrightarrow> all_paired st'" and "thread_ok st (Sleeping a) \<Longrightarrow> thread_ok st' (Sleeping a)"
proof -
  have new: "lines st (Suc (Suc (fresh st))) = None" using fresh_unused [OF st] by simp
  have "l < fresh st" using fresh_unused [OF st, of l] l by (cases "l < fresh st") auto
  then show peers: "peers st' l (fresh st + 2)" unfolding st'_def by (rule paired_peers(1))
  then have reverse: "peers st' (fresh st + 2) l" by (auto simp: peers_def)
  show mono: "peers st c q \<Longrightarrow> peers st' c q" for c q
    by (rule peers_lines_mono [of st]) (use new l in \<open>auto simp: st'_def paired_def\<close>)
  show "unconnected st' k \<longleftrightarrow> k \<noteq> l \<and> unconnected st k" "lines st k \<noteq> None \<Longrightarrow> lines st' k \<noteq> None"
    using new by (auto simp: unconnected_def st'_def paired_def)
  have rest: "lines st' k = lines st k" if "k \<noteq> l" "k \<noteq> fresh st + 2" for k using that by (simp add: st'_def paired_def)
  show "all_paired st'" if "all_paired st"
    by (rule all_paired_mono [OF that], erule mono) (metis rest peers reverse)
  show "thread_ok st' (Sleeping a)" if "thread_ok st (Sleeping a)"
    using that queued_below [OF st] by (fastforce simp: st'_def line_address_paired [OF l(1)])
qed

lemma cross_inv:
  assumes inv: "registry_inv s" and pc: "rpcs s t = Cross a l" and step: "proceed s t (rpcs s t) = Some (Inr s')"
  shows "registry_inv s'"
proof -
  have st: "inproc_inv (reg s)" and ok: "\<And>u. thread_ok (reg s) (rpcs s u)" and paired: "all_paired (reg s)"
    using inv by (simp_all add: registry_inv_def)
  obtain line where l: "lines (reg s) l = Some line" "m_in line = None" "l \<notin> set (gs_connectQueue (reg s))"
    using ok [of t] by (auto simp: pc unconnected_def)
  let ?st = "paired (reg s) l line (gs_connectQueue (reg s))" and ?p = "fresh (reg s) + 2"
  note facts = paired_facts [OF st l(1,2)]
  have "thread_ok ?st (wake_client l (rpcs s u))" if "u \<noteq> t" for u
  proof (rule thread_ok_mono [of "reg s"])
    show "thread_ok (reg s) (wake_client l (rpcs s u))"
      using ok [of u] by (cases "rpcs s u") (auto simp: wake_client_def unconnected_def)
    show "\<not> holds_gs (wake_client l (rpcs s u))" using gs_owner(1) [OF inv, of t u] that by (auto simp: pc)
    show "unconnected ?st k" if "wake_client l (rpcs s u) = Asleep k" "unconnected (reg s) k" for k
      using that by (cases "rpcs s u") (auto simp: wake_client_def facts(3) split: if_splits)
  qed (use facts in blast)+
  moreover have "owns (rpcs s u) \<noteq> Some ?p" for u using owns_line [OF ok, of u] fresh_unused [OF st, of ?p] by auto
  moreover have "k \<in> set (gs_connectQueue ?st)" if "awaits (rpcs s u) = Some k" "unconnected ?st k" for u k
    using awaited_queued [OF inv _ that(1), of t] that(2) by (auto simp: pc facts(3))
  moreover have "((line_mutex s)(l := None)) k = Some u \<longleftrightarrow> u \<noteq> t \<and> holds_line (rpcs s u) = Some k" for u k
    using line_owner(1) [OF inv, of u l t] inv pc by (auto simp: registry_inv_defs)
  ultimately have "registry_inv (s\<lparr>reg := ?st, line_mutex := (line_mutex s)(l := None), gs_mutex := None,
      rpcs := (wake_client l \<circ> rpcs s)(t := Got_peer (Some ?p))\<rparr>)"
    using inv pc server_inv [OF st l] facts(1,5) paired by (intro leave_gs_inv) (auto simp: registry_inv_defs)
  then show ?thesis using step pc by (simp add: server_eq [OF l(1)] unlock_gs_def unlock_line_def at_pc_def)
qed

text \<open>A critical section that changes acceptors only, none that another thread uses.\<close>

lemma acceptors_change_inv:
  assumes inv: "registry_inv s" and gs: "holds_gs (rpcs s t)" "takes (rpcs s t) = None" "holds_line (rpcs s t) = None"
    and eq: "lines st' = lines (reg s)" "gs_connectQueue st' = gs_connectQueue (reg s)" and st': "inproc_inv st'"
    and kept: "\<And>u a. u \<noteq> t \<Longrightarrow> uses (rpcs s u) = Some a \<Longrightarrow> acceptors st' a = acceptors (reg s) a"
    and p: "at_rest p" "owns p = None" "thread_ok st' p"
  shows "registry_inv (unlock_gs (s\<lparr>reg := st'\<rparr>) t p)"
proof -
  have ok: "\<And>u. thread_ok (reg s) (rpcs s u)" using inv by (simp add: registry_inv_def)
  have same: "peers st' = peers (reg s)" "unconnected st' = unconnected (reg s)" "line_address st' = line_address (reg s)"
    using eq by (simp_all add: fun_eq_iff peers_def unconnected_def line_address_def)
  have live: "acceptors st' a \<noteq> None" if "u \<noteq> t" "uses (rpcs s u) = Some a" for u a
    using inv kept [OF that] that(2) by (simp add: registry_inv_def acceptors_live_def)
  have "thread_ok st' (rpcs s u)" if "u \<noteq> t" for u
  proof (rule thread_ok_mono [OF ok])
    show "\<not> holds_gs (rpcs s u)" using gs_owner(1) [OF inv gs(1)] that by blast
    show "thread_ok st' (Sleeping a)" if "rpcs s u = Sleeping a" "thread_ok (reg s) (Sleeping a)" for a
      using that kept [OF \<open>u \<noteq> t\<close>, of a] by (simp add: eq same)
  qed (simp_all add: same eq)
  moreover have "l \<in> set (gs_connectQueue st')" if "awaits (rpcs s u) = Some l" "unconnected st' l" for u l
    using awaited_queued [OF inv gs(1) that(1)] that(2) by (simp add: gs eq same)
  moreover have "all_paired st'" using inv by (simp add: registry_inv_def all_paired_def eq same)
  moreover have "line_mutex s k = Some u \<longleftrightarrow> u \<noteq> t \<and> holds_line (rpcs s u) = Some k" for u k
    using inv gs(3) by (auto simp: registry_inv_def locks_ok_def)
  ultimately have "registry_inv (s\<lparr>reg := st', line_mutex := line_mutex s, gs_mutex := None,
      rpcs := ((\<lambda>p. p) \<circ> rpcs s)(t := p)\<rparr>)"
    using inv gs(1) st' p live by (intro leave_gs_inv) simp_all
  then show ?thesis by (simp add: unlock_gs_def at_pc_def comp_def)
qed

lemma register_inv:
  assumes inv: "registry_inv s" and pc: "rpcs s t = Register address" and step: "proceed s t (rpcs s t) = Some (Inr s')"
  shows "registry_inv s'"
proof -
  have st: "inproc_inv (reg s)" using inv by (simp add: registry_inv_def)
  obtain st' r where r: "InprocLineFactory_createServer (reg s) address = Inr (st', r)"
    by (cases "Some address \<in> acceptors (reg s) ` set (gs_acceptors (reg s))") (simp_all add: createServer_eq [OF st])
  then have eq: "lines st' = lines (reg s)" "gs_connectQueue st' = gs_connectQueue (reg s)"
    "acceptors (reg s) a \<noteq> None \<Longrightarrow> acceptors st' a = acceptors (reg s) a" for a
    using createServer_eq [OF st, of address] fresh_unused [OF st] by (auto split: if_splits)
  moreover have "uses (rpcs s u) = Some a \<Longrightarrow> acceptors (reg s) a \<noteq> None" for u a
    using inv by (auto simp: registry_inv_def acceptors_live_def)
  ultimately have "registry_inv (unlock_gs (s\<lparr>reg := st'\<rparr>) t (Got_acceptor r))"
    using inv createServer_inv [OF st r] by (intro acceptors_change_inv) (simp_all add: pc)
  then show ?thesis using step pc r by simp
qed

lemma unregister_inv:
  assumes inv: "registry_inv s" and pc: "rpcs s t = Unregister a" and step: "proceed s t (rpcs s t) = Some (Inr s')"
  shows "registry_inv s'"
proof -
  let ?st = "InprocAcceptor_destroy (reg s) a"
  have eq: "lines ?st = lines (reg s)" "gs_connectQueue ?st = gs_connectQueue (reg s)"
    "acceptors ?st = (acceptors (reg s))(a := None)"
    by (simp_all add: InprocAcceptor_destroy_def)
  have "inproc_inv ?st" using inv by (simp add: registry_inv_def acceptor_destroy_inv)
  moreover have "uses (rpcs s u) \<noteq> Some a" if "u \<noteq> t" for u
    using inv that pc by (metis registry_inv_def acceptors_live_def destroys.simps(1))
  ultimately have "registry_inv (unlock_gs (s\<lparr>reg := ?st\<rparr>) t Outside)"
    using inv by (intro acceptors_change_inv) (auto simp: pc eq)
  then show ?thesis using step pc by simp
qed

lemma live_acceptor: "registry_inv s \<Longrightarrow> uses (rpcs s u) = Some a \<Longrightarrow> \<exists>address. acceptors (reg s) a = Some address"
  by (auto simp: registry_inv_def acceptors_live_def)

lemma scan_cases:
  assumes "registry_inv s" and "rpcs s t = Scan a"
  obtains pre l post where "gs_connectQueue (reg s) = pre @ l # post" and "line_address (reg s) l = acceptors (reg s) a"
      and "scan_turn s t a e = Inr (at_pc (s\<lparr>reg := (reg s)\<lparr>gs_connectQueue := pre @ post\<rparr>\<rparr>) t (Lock_peer a l))"
  | "\<forall>l \<in> set (gs_connectQueue (reg s)). line_address (reg s) l \<noteq> acceptors (reg s) a"
      and "scan_turn s t a e = Inr (unlock_gs s t (if e then Got_peer None else Sleeping a))"
proof -
  obtain address where a: "acceptors (reg s) a = Some address"
    using live_acceptor [OF assms(1), of t a] assms(2) by auto
  have "\<forall>l \<in> set (gs_connectQueue (reg s)). \<exists>line. lines (reg s) l = Some line"
    using assms(1) by (auto simp: registry_inv_def inproc_inv_def connect_ok_def)
  from scan_queue_eq [OF this, of address] that a show thesis
    by (elim disjE exE conjE) (auto simp: scan_turn_def line_address_def)
qed

lemma dequeue_inv:
  assumes inv: "registry_inv s" and pc: "rpcs s t = Scan a" and q: "gs_connectQueue (reg s) = pre @ l # post"
  shows "registry_inv (at_pc (s\<lparr>reg := (reg s)\<lparr>gs_connectQueue := pre @ post\<rparr>\<rparr>) t (Lock_peer a l))"
proof -
  let ?st = "(reg s)\<lparr>gs_connectQueue := pre @ post\<rparr>"
  let ?s = "at_pc (s\<lparr>reg := ?st\<rparr>) t (Lock_peer a l)"
  have st: "inproc_inv (reg s)" and ok: "\<And>u. thread_ok (reg s) (rpcs s u)" using inv by (simp_all add: registry_inv_def)
  have l: "unconnected (reg s) l" "l \<notin> set (pre @ post)"
    using queued_unconnected [OF st q] by (auto simp: unconnected_def)
  have "lines_ok ?st = lines_ok (reg s)" "accept_ok ?st = accept_ok (reg s)" "unshared ?st = unshared (reg s)"
    by (intro inv_parts_cong; simp)+
  then have "inproc_inv ?st" using st by (auto simp: inproc_inv_def connect_ok_def ids_ok_def q)
  have same: "peers ?st = peers (reg s)" "unconnected ?st = unconnected (reg s)" "line_address ?st = line_address (reg s)"
    by (simp_all add: fun_eq_iff peers_def unconnected_def line_address_def)
  have "thread_ok ?st (rpcs s u)" if "u \<noteq> t" for u
  proof (rule thread_ok_mono [OF ok])
    show "\<not> holds_gs (rpcs s u)" using gs_owner(1) [OF inv, of t u] that by (auto simp: pc)
  qed (auto simp: same q)
  then have "\<forall>u. thread_ok (reg ?s) (rpcs ?s u)" using l by (simp add: at_pc_def same)
  moreover have "uses (rpcs s t) = Some a" by (simp add: pc)
  then have "acceptors_live ?s" "locks_ok ?s" "lines_apart ?s"
    using inv pc live_acceptor [OF inv, of t a] by (auto simp: registry_inv_defs at_pc_def)
  moreover have "k = l \<or> k \<in> set (pre @ post)" if "awaits (rpcs s u) = Some k" "unconnected (reg s) k" for u k
    using awaited_queued [OF inv _ that, of t] by (auto simp: pc q)
  then have "none_forgotten ?s" by (fastforce simp: none_forgotten_def at_pc_def same)
  moreover have "all_paired ?st" using inv by (simp add: registry_inv_def all_paired_def same)
  ultimately show ?thesis using \<open>inproc_inv ?st\<close> by (simp add: registry_inv_def at_pc_def)
qed

lemma scan_inv:
  assumes inv: "registry_inv s" and pc: "rpcs s t = Scan a" and step: "scan_turn s t a e = Inr s'"
  shows "registry_inv s'"
  using inv pc
proof (cases rule: scan_cases [where e = e])
  case (1 pre l post)
  from dequeue_inv [OF inv pc 1(1)] step 1(3) show ?thesis by simp
next
  case 2
  let ?p = "if e then Got_peer None else Sleeping a"
  have "registry_inv (s\<lparr>reg := reg s, line_mutex := line_mutex s, gs_mutex := None, rpcs := ((\<lambda>p. p) \<circ> rpcs s)(t := ?p)\<rparr>)"
    using inv pc 2(1) awaited_queued [OF inv, of t] live_acceptor [OF inv] live_acceptor [OF inv, of t a]
    by (intro leave_gs_inv) (auto simp: registry_inv_defs split: if_splits)
  then show ?thesis using step 2(2) by (simp add: unlock_gs_def at_pc_def comp_def)
qed

lemma test_inv:
  assumes inv: "registry_inv s" and pc: "rpcs s t = Test l" and step: "proceed s t (rpcs s t) = Some (Inr s')"
  shows "registry_inv s'"
proof -
  have ok: "thread_ok (reg s) (Test l)" and st: "inproc_inv (reg s)" "all_paired (reg s)"
    using inv pc by (auto simp: registry_inv_def dest: spec [of _ t])
  then obtain line where l: "lines (reg s) l = Some line" by auto
  have "line_ok (reg s) line" using st(1) l by (simp add: inproc_inv_def lines_ok_def)
  then have "m_in line = None \<longleftrightarrow> m_out line = None" by (auto simp: line_ok_def)
  then have "s' = unlock_line s t l (if unconnected (reg s) l then Asleep l else Got_line l)"
    using step l by (auto simp: pc InprocLine_connected_def unconnected_def split: if_splits)
  moreover have "\<not> unconnected (reg s) l \<Longrightarrow> \<exists>p. peers (reg s) l p"
    using st(2) l by (auto simp: all_paired_def unconnected_def)
  ultimately show ?thesis using unlock_line_inv [OF inv pc] by simp
qed

lemma proceed_inv:
  assumes inv: "registry_inv s" and step: "proceed s t (rpcs s t) = Some (Inr s')"
  shows "registry_inv s'"
proof -
  have ok: "thread_ok (reg s) (rpcs s t)" using inv by (simp add: registry_inv_def)
  show ?thesis
  proof (cases "rpcs s t")
    case (Woken a)
    moreover have "u \<noteq> t \<longrightarrow> destroys (rpcs s u) \<noteq> Some a" for u
      using inv Woken by (metis registry_inv_def acceptors_live_def uses.simps(3))
    ultimately show ?thesis
      using step live_acceptor [OF inv, of t a] by (auto intro!: lock_gs_inv [OF inv])
  next
    case (Enter l)
    with step ok show ?thesis by (auto intro: lock_line_inv [OF inv, where t = t])
  next
    case (Lock_peer a l)
    with step ok show ?thesis by (auto intro: lock_line_inv [OF inv, where t = t])
  next
    case (Scan a)
    with step show ?thesis by (auto intro: scan_inv [OF inv])
  qed (use step enqueue_inv [OF inv] cross_inv [OF inv] register_inv [OF inv] unregister_inv [OF inv] test_inv [OF inv]
    in \<open>fastforce simp del: proceed.simps(1,3,7-9)\<close>)+
qed

lemma reg_act_inv:
  assumes inv: "registry_inv s" and call: "call_ok s x" and step: "reg_act s t x = Some (Inr s')"
  shows "registry_inv s'"
proof (cases x)
  case Proceed
  with step proceed_inv [OF inv] show ?thesis by simp
next
  case Deadline
  with step scan_inv [OF inv] show ?thesis by (auto split: reg_pc.splits)
next
  case Wake_up
  have ok: "thread_ok (reg s) (rpcs s t)" using inv by (simp add: registry_inv_def)
  with Wake_up step show ?thesis
    by (auto split: reg_pc.splits intro!: move_inv [OF inv] simp: unconnected_def)
qed (use step call in \<open>auto intro!: lock_gs_inv [OF inv] split: if_splits dest: destroys_uses\<close>)

lemma registry_reachable_inv: "registry_reachable s \<Longrightarrow> registry_inv s"
proof (induction rule: registry_reachable.induct)
  case start
  have "all_paired inproc_init" by (simp add: all_paired_def inproc_init_def)
  then show ?case by (simp add: registry_inv_defs registry_init_def inproc_init_inv)
next
  case (move s x t s')
  then show ?case using reg_act_inv by blast
qed

section \<open>Progress\<close>

fun asleep :: "reg_pc \<Rightarrow> bool" where
  "asleep (Asleep _) = True"
| "asleep (Sleeping _) = True"
| "asleep _ = False"

text \<open>No step of a thread follows a null or dangling pointer.\<close>

lemma proceed_defined:
  assumes inv: "registry_inv s"
  shows "proceed s t (rpcs s t) \<noteq> Some (Inl e)"
proof -
  have st: "inproc_inv (reg s)" and ok: "thread_ok (reg s) (rpcs s t)" using inv by (simp_all add: registry_inv_def)
  show ?thesis
  proof (cases "rpcs s t")
    case (Scan a)
    with scan_cases [OF inv Scan, of False] show ?thesis by fastforce
  next
    case (Test l)
    with ok show ?thesis by (auto simp: InprocLine_connected_def)
  next
    case (Cross a l)
    with ok obtain line where "lines (reg s) l = Some line" by (auto simp: unconnected_def)
    then show ?thesis by (simp add: Cross server_eq)
  next
    case (Register address)
    then show ?thesis
      by (cases "Some address \<in> acceptors (reg s) ` set (gs_acceptors (reg s))") (simp_all add: createServer_eq [OF st])
  qed (simp_all add: split_beta Let_def)
qed

lemma reg_act_defined: "registry_inv s \<Longrightarrow> reg_act s t x \<noteq> Some (Inl e)"
proof (cases x)
  case Deadline
  assume inv: "registry_inv s"
  show ?thesis
  proof (cases "rpcs s t")
    case (Scan a)
    with scan_cases [OF inv Scan, of True] show ?thesis by (fastforce simp: Deadline)
  qed (simp_all add: Deadline)
qed (auto simp: proceed_defined split: reg_pc.splits)

text \<open>A thread inside a call that does not sleep can go on, or the owner of the mutex it waits for can.\<close>

lemma line_owner_moves:
  assumes inv: "registry_inv s" and t: "proceed s t (rpcs s t) = map_option Inr (lock_line s t l p)"
    and none: "\<And>a. rpcs s u = Cross a l \<Longrightarrow> proceed s u (rpcs s u) \<noteq> None"
    and "line_mutex s l = None \<or> line_mutex s l = Some u"
  shows "\<exists>u. proceed s u (rpcs s u) \<noteq> None"
proof (cases "line_mutex s l = None")
  case True
  with t show ?thesis by (intro exI [of _ t]) (simp add: lock_line_def)
next
  case False
  with assms(4) inv have "holds_line (rpcs s u) = Some l" by (simp add: registry_inv_def locks_ok_def)
  then have "rpcs s u = Test l \<or> (\<exists>a. rpcs s u = Cross a l)" by (cases "rpcs s u") simp_all
  with none show ?thesis by (intro exI [of _ u]) auto
qed

lemma active_moves:
  assumes inv: "registry_inv s" and "\<not> at_rest (rpcs s t)" and "\<not> asleep (rpcs s t)"
  shows "\<exists>u. proceed s u (rpcs s u) \<noteq> None"
proof -
  have line: "\<exists>u. proceed s u (rpcs s u) \<noteq> None" if "proceed s t (rpcs s t) = map_option Inr (lock_line s t l p)" for l p
    using line_owner_moves [OF inv that] by (cases "line_mutex s l") auto
  have holder: "\<exists>u. proceed s u (rpcs s u) \<noteq> None" if "holds_gs (rpcs s v)" for v
  proof (cases "rpcs s v")
    case (Lock_peer a l)
    then show ?thesis using line_owner_moves [OF inv, of v l] by (cases "line_mutex s l") auto
  qed (use that in \<open>auto intro!: exI [of _ v] simp: split_beta Let_def\<close>)
  show ?thesis
  proof (cases "rpcs s t")
    case (Woken a)
    show ?thesis
    proof (cases "gs_mutex s")
      case None
      with Woken show ?thesis by (intro exI [of _ t]) (simp add: lock_gs_def)
    next
      case (Some v)
      with inv have "holds_gs (rpcs s v)" by (metis registry_inv_def locks_ok_def)
      then show ?thesis by (rule holder)
    qed
  next
    case (Enter l)
    then show ?thesis using line by simp
  next
    case (Test l)
    then show ?thesis by (intro exI [of _ t]) simp
  qed (use assms(2,3) holder [of t] in simp_all)
qed

text \<open>A run for the examples: an acceptor of an address goes to sleep, and then a client of that address enqueues itself.\<close>

fun reg_run :: "registry \<Rightarrow> (nat \<times> reg_action) list \<Rightarrow> registry option" where
  "reg_run s [] = Some s"
| "reg_run s ((t, x) # xs) =
     (if call_ok s x then (case reg_act s t x of Some (Inr s') \<Rightarrow> reg_run s' xs | _ \<Rightarrow> None) else None)"

lemma reg_run_reachable: "registry_reachable s \<Longrightarrow> reg_run s xs = Some s' \<Longrightarrow> registry_reachable s'"
proof (induction xs arbitrary: s)
  case (Cons tx xs)
  then show ?case
    by (cases tx) (auto split: if_splits option.splits sum.splits intro: registry_reachable.move)
qed simp

definition meeting_run :: "(nat \<times> reg_action) list" where
  "meeting_run = [(0, Create_server ''foo''), (0, Proceed), (0, Wait_connection 0), (0, Proceed),
                  (1, Create_client ''foo''), (1, Proceed)]"

lemma meeting:
  "\<exists>s. registry_reachable s \<and> rpcs s 0 = Woken 0 \<and> rpcs s 1 = Enter 1"
proof -
  have "\<exists>s. reg_run registry_init meeting_run = Some s \<and> rpcs s 0 = Woken 0 \<and> rpcs s 1 = Enter 1"
    by (simp add: meeting_run_def registry_init_def inproc_init_def reg_step_defs InprocLineFactory_createServer_def
        scan_turn_def createClient_enqueue_def InprocLine_client_def wake_acceptor_def)
  then show ?thesis using reg_run_reachable [OF registry_reachable.start] by blast
qed

section \<open>Properties\<close>

text \<open>
  C12 (registry_threads_safe): however any number of threads create clients and servers, wait for connections and destroy
  acceptors that nobody uses, with spurious wake-ups and timeouts: at most one thread is inside a section on \<^verbatim>\<open>gs_mutex\<close>, and
  at most one in a section on the mutex of a line; no step follows a null or dangling pointer; the line
  \<^verbatim>\<open>createClient\<close> returned and the line \<^verbatim>\<open>waitConnection\<close> returned are connected to a peer; and no two threads get the same line.
\<close>
theorem registry_threads_safe:
  assumes "registry_reachable s"
  shows "(\<forall>t u. holds_gs (rpcs s t) \<and> holds_gs (rpcs s u) \<longrightarrow> t = u) \<and>
    (\<forall>t u l. holds_line (rpcs s t) = Some l \<and> holds_line (rpcs s u) = Some l \<longrightarrow> t = u) \<and>
    (\<forall>t x e. reg_act s t x \<noteq> Some (Inl e)) \<and>
    (\<forall>t l. rpcs s t = Got_line l \<longrightarrow> (\<exists>p. peers (reg s) l p)) \<and>
    (\<forall>t p. rpcs s t = Got_peer (Some p) \<longrightarrow> (\<exists>l. peers (reg s) l p)) \<and>
    (\<forall>t u l. owns (rpcs s t) = Some l \<and> owns (rpcs s u) = Some l \<longrightarrow> t = u)"
proof -
  have inv: "registry_inv s" using assms by (rule registry_reachable_inv)
  then have ok: "thread_ok (reg s) (rpcs s t)" for t by (simp add: registry_inv_def)
  have "\<exists>p. peers (reg s) l p" if "rpcs s t = Got_line l" for t l using ok [of t] that by simp
  moreover have "\<exists>l. peers (reg s) l p" if "rpcs s t = Got_peer (Some p)" for t p using ok [of t] that by simp
  moreover have "owns (rpcs s t) = Some l \<and> owns (rpcs s u) = Some l \<longrightarrow> t = u" for t u l
    using inv unfolding registry_inv_def lines_apart_def by blast
  ultimately show ?thesis using gs_owner(1) [OF inv] line_owner(1) [OF inv] reg_act_defined [OF inv] by blast
qed

theorem registry_threads_safe_witness:
  "\<exists>s. rpcs s 0 = Woken 0 \<and> rpcs s 1 = Enter 1 \<and> (\<forall>t x e. reg_act s t x \<noteq> Some (Inl e))"
  using meeting registry_threads_safe by blast

text \<open>
  C11 (registry_rendezvous): no rendezvous is missed and nothing deadlocks. In every reachable state some thread
  inside a call can go on, or every thread is outside of its calls or asleep in a wait; then every client that sleeps
  is in the connect queue, and no acceptor of its address sleeps: client and server of one address never wait for each
  other.
\<close>
theorem registry_rendezvous:
  assumes "registry_reachable s"
  shows "(\<exists>t s'. reg_act s t Proceed = Some (Inr s')) \<or>
    (\<forall>t. at_rest (rpcs s t) \<or> asleep (rpcs s t)) \<and>
    (\<forall>t l. rpcs s t = Asleep l \<longrightarrow> l \<in> set (gs_connectQueue (reg s)) \<and>
       (\<forall>u a. rpcs s u = Sleeping a \<longrightarrow> line_address (reg s) l \<noteq> acceptors (reg s) a))"
proof (cases "\<forall>t. at_rest (rpcs s t) \<or> asleep (rpcs s t)")
  case True
  have inv: "registry_inv s" using assms by (rule registry_reachable_inv)
  then have ok: "thread_ok (reg s) (rpcs s t)" for t by (simp add: registry_inv_def)
  have "takes (rpcs s u) = None" for u using True by (cases "rpcs s u") (force dest: spec [of _ u])+
  then have "l \<in> set (gs_connectQueue (reg s))" if "rpcs s t = Asleep l" for t l
    using inv ok [of t] that unfolding registry_inv_def none_forgotten_def
    by (metis awaits.simps(3) thread_ok.simps(5) option.distinct(1))
  moreover have "line_address (reg s) l \<noteq> acceptors (reg s) a"
    if "rpcs s u = Sleeping a" "l \<in> set (gs_connectQueue (reg s))" for u a l
    using ok [of u] that by simp
  ultimately show ?thesis using True by blast
next
  case False
  have inv: "registry_inv s" using assms by (rule registry_reachable_inv)
  obtain t where "proceed s t (rpcs s t) \<noteq> None" using active_moves [OF inv] False by blast
  with proceed_defined [OF inv] show ?thesis by (metis reg_act.simps(5) option.exhaust sum.exhaust)
qed

theorem registry_rendezvous_witness:
  "\<exists>s. rpcs s 0 = Woken 0 \<and> rpcs s 1 = Enter 1 \<and> (\<exists>t s'. reg_act s t Proceed = Some (Inr s'))"
proof -
  obtain s where s: "registry_reachable s" "rpcs s 0 = Woken 0" "rpcs s 1 = Enter 1" using meeting by blast
  then have "\<not> (at_rest (rpcs s 0) \<or> asleep (rpcs s 0))" by simp
  with registry_rendezvous [OF s(1)] s(2,3) show ?thesis by blast
qed

end
