(* ===== verification/Machines.thy ===== *)
theory Machines
  imports Cppio_Prelude
begin

text \<open>
  Runs of step relations, shared by the theories about threads. A step carries the event it makes visible to the users of
  the component, or none. A refinement relates a detailed machine to a specification whose every step is an
  event: whatever the detailed one does, the events it shows are those of a run of the specification.
\<close>

section \<open>Runs\<close>

inductive trace :: "('s \<Rightarrow> 'e \<Rightarrow> 's \<Rightarrow> bool) \<Rightarrow> 's \<Rightarrow> 'e list \<Rightarrow> 's \<Rightarrow> bool" for step s where
  trace_nil: "trace step s [] s"
| trace_snoc: "trace step s es s' \<Longrightarrow> step s' e s'' \<Longrightarrow> trace step s (es @ [e]) s''"

inductive_cases trace_nilE: "trace step s [] s'"

lemma trace_append: "trace step s' fs s'' \<Longrightarrow> trace step s es s' \<Longrightarrow> trace step s (es @ fs) s''"
proof (induction rule: trace.induct)
  case (trace_snoc fs t e u)
  then have "trace step s ((es @ fs) @ [e]) u" by (blast intro: trace.trace_snoc)
  then show ?case by simp
qed simp

lemma trace_single: "step s e s' \<Longrightarrow> trace step s [e] s'"
  using trace_snoc [OF trace_nil] by fastforce

text \<open>The visible events of a run.\<close>

fun visible :: "'e option list \<Rightarrow> 'e list" where
  "visible [] = []"
| "visible (None # es) = visible es"
| "visible (Some e # es) = e # visible es"

lemma visible_append [simp]: "visible (es @ fs) = visible es @ visible fs"
  by (induction es rule: visible.induct) simp_all

section \<open>Invariants and refinement\<close>

locale machine =
  fixes step :: "'s \<Rightarrow> 'e option \<Rightarrow> 's \<Rightarrow> bool" and inv :: "'s \<Rightarrow> bool"
  assumes step_inv: "inv s \<Longrightarrow> step s e s' \<Longrightarrow> inv s'"
begin

lemma run_inv: "trace step s es s' \<Longrightarrow> inv s \<Longrightarrow> inv s'"
  by (induction rule: trace.induct) (auto intro: step_inv)

end

locale refinement = machine step inv
  for step :: "'s \<Rightarrow> 'e option \<Rightarrow> 's \<Rightarrow> bool" and inv :: "'s \<Rightarrow> bool" +
  fixes spec :: "'a \<Rightarrow> 'e \<Rightarrow> 'a \<Rightarrow> bool" and abs :: "'s \<Rightarrow> 'a"
  assumes silent: "inv s \<Longrightarrow> step s None s' \<Longrightarrow> abs s' = abs s"
    and shown: "inv s \<Longrightarrow> step s (Some e) s' \<Longrightarrow> spec (abs s) e (abs s')"
begin

theorem run_refines: "trace step s es s' \<Longrightarrow> inv s \<Longrightarrow> trace spec (abs s) (visible es) (abs s')"
proof (induction rule: trace.induct)
  case (trace_snoc es s' e s'')
  have "inv s'" using run_inv trace_snoc.hyps(1) trace_snoc.prems .
  with trace_snoc show ?case
    by (cases e) (auto dest: silent shown intro: trace.trace_snoc)
qed (simp add: trace_nil)

end

end
