(* ===== verification/RegistryLinear.thy ===== *)
theory RegistryLinear
  imports RegistryThreads Machines
begin

text \<open>
  The registry of inter-thread lines is atomic. The theory \<open>Inproc\<close> has the operations on it as functions that run alone;
  \<open>RegistryThreads\<close> has them as steps of threads with the mutexes and condition variables of the code. Here the second
  refines the first: whatever the threads do, the registry goes through states that the functions of \<open>Inproc\<close> make one after the
  other, so that what is proved of the reachable states of \<open>Inproc\<close> holds for it.
\<close>

section \<open>The specification\<close>

datatype registry_event =
    Client_queued nat string nat
  | Client_returns nat nat
  | Accepts nat nat "nat option"
  | Peer_returns nat nat
  | Server_created nat string "nat option"
  | Acceptor_destroyed nat nat

text \<open>
  Each event is one function of \<open>Inproc\<close>. An acceptor takes effect when it takes the client from the queue (\<open>Accepts\<close>, with the line
  it is going to return); its return and that of a client (\<open>Peer_returns\<close>, \<open>Client_returns\<close>) find the lines connected.
\<close>

inductive registry_spec :: "inproc \<Rightarrow> registry_event \<Rightarrow> inproc \<Rightarrow> bool" where
  client_queued: "createClient_enqueue st address = (st', l) \<Longrightarrow> registry_spec st (Client_queued t address l) st'"
| client_returns: "InprocLine_connected st l = Inr True \<Longrightarrow> registry_spec st (Client_returns t l) st"
| accepts: "InprocAcceptor_accept st a = Inr (st', r) \<Longrightarrow> registry_spec st (Accepts t a r) st'"
| peer_returns: "peers st l p \<Longrightarrow> registry_spec st (Peer_returns t p) st"
| server_created: "InprocLineFactory_createServer st address = Inr (st', r) \<Longrightarrow>
    registry_spec st (Server_created t address r) st'"
| acceptor_destroyed: "registry_spec st (Acceptor_destroyed t a) (InprocAcceptor_destroy st a)"

lemma spec_reachable: "registry_spec st e st' \<Longrightarrow> inproc_reachable st \<Longrightarrow> inproc_reachable st'"
  by (induction rule: registry_spec.induct) (auto intro: inproc_reachable.step inproc_step.intros)

lemma spec_run_reachable: "trace registry_spec st es st' \<Longrightarrow> inproc_reachable st \<Longrightarrow> inproc_reachable st'"
  by (induction rule: trace.induct) (auto intro: spec_reachable)

section \<open>The steps and their events\<close>

fun scan_event :: "registry \<Rightarrow> nat \<Rightarrow> nat \<Rightarrow> reg_pc \<Rightarrow> registry_event option" where
  "scan_event s' t a (Lock_peer _ l) =
     (case InprocLine_server (reg s') l of Inr (_, p) \<Rightarrow> Some (Accepts t a (Some p)) | Inl _ \<Rightarrow> None)"
| "scan_event s' t a (Got_peer None) = Some (Accepts t a None)"
| "scan_event s' t a _ = None"

fun proceed_event :: "registry \<Rightarrow> nat \<Rightarrow> reg_pc \<Rightarrow> reg_pc \<Rightarrow> registry_event option" where
  "proceed_event s' t (Enqueue address) p = map_option (Client_queued t address) (owns p)"
| "proceed_event s' t (Test l) p = (if p = Got_line l then Some (Client_returns t l) else None)"
| "proceed_event s' t (Scan a) p = scan_event s' t a p"
| "proceed_event s' t (Cross _ _) p = map_option (Peer_returns t) (owns p)"
| "proceed_event s' t (Register address) p = (case p of Got_acceptor r \<Rightarrow> Some (Server_created t address r) | _ \<Rightarrow> None)"
| "proceed_event s' t (Unregister a) p = Some (Acceptor_destroyed t a)"
| "proceed_event s' t _ p = None"

fun reg_event :: "registry \<Rightarrow> nat \<Rightarrow> reg_action \<Rightarrow> registry \<Rightarrow> registry_event option" where
  "reg_event s t Proceed s' = proceed_event s' t (rpcs s t) (rpcs s' t)"
| "reg_event s t Deadline s' = proceed_event s' t (rpcs s t) (rpcs s' t)"
| "reg_event s t _ s' = None"

definition registry_step :: "registry \<Rightarrow> registry_event option \<Rightarrow> registry \<Rightarrow> bool" where
  "registry_step s e s' \<longleftrightarrow> (\<exists>t x. call_ok s x \<and> reg_act s t x = Some (Inr s') \<and> e = reg_event s t x s')"

text \<open>
  The registry as the specification sees it: while an acceptor holds \<^verbatim>\<open>gs_mutex\<close> and connects the client it has taken, the
  two are connected already.
\<close>

definition taken :: "registry \<Rightarrow> nat option" where
  "taken s = Option.bind (gs_mutex s) (\<lambda>t. takes (rpcs s t))"

definition registry_abs :: "registry \<Rightarrow> inproc" where
  "registry_abs s =
     (case taken s of
        None \<Rightarrow> reg s
      | Some l \<Rightarrow> (case InprocLine_server (reg s) l of Inr (st, _) \<Rightarrow> st | Inl _ \<Rightarrow> reg s))"

lemma abs_idle: "taken s = None \<Longrightarrow> registry_abs s = reg s"
  by (simp add: registry_abs_def)

lemma abs_same: "reg s' = reg s \<Longrightarrow> taken s' = taken s \<Longrightarrow> registry_abs s' = registry_abs s"
  unfolding registry_abs_def by (simp cong: option.case_cong sum.case_cong)

lemma taken_owner: "registry_inv s \<Longrightarrow> holds_gs (rpcs s t) \<Longrightarrow> taken s = takes (rpcs s t)"
  using gs_owner(3) [of s t] by (simp add: taken_def)

lemma taken_line:
  assumes "registry_inv s" and "taken s = Some l"
  obtains line where "lines (reg s) l = Some line" and "m_in line = None"
    and "registry_abs s = paired (reg s) l line (gs_connectQueue (reg s))"
proof -
  obtain t where t: "takes (rpcs s t) = Some l" using assms(2) by (auto simp: taken_def bind_eq_Some_conv)
  have "thread_ok (reg s) (rpcs s t)" using assms(1) by (simp add: registry_inv_def)
  then obtain line where "lines (reg s) l = Some line" "m_in line = None"
    using t by (cases "rpcs s t") (auto simp: unconnected_def)
  then show thesis using that assms(2) by (simp add: registry_abs_def server_eq)
qed

text \<open>What is connected in the registry is connected in the specification.\<close>

lemma abs_peers: "registry_inv s \<Longrightarrow> peers (reg s) l p \<Longrightarrow> peers (registry_abs s) l p"
proof (cases "taken s")
  case (Some k)
  assume inv: "registry_inv s" and "peers (reg s) l p"
  then show ?thesis
    using taken_line [OF inv Some] paired_facts(2) by (metis registry_inv_def)
qed (simp add: abs_idle)

definition matches :: "registry \<Rightarrow> registry_event option \<Rightarrow> registry \<Rightarrow> bool" where
  "matches s e s' \<longleftrightarrow>
     (case e of None \<Rightarrow> registry_abs s' = registry_abs s | Some e \<Rightarrow> registry_spec (registry_abs s) e (registry_abs s'))"

lemma matches_silent: "reg s' = reg s \<Longrightarrow> taken s' = taken s \<Longrightarrow> matches s None s'"
  unfolding matches_def by (simp, rule abs_same)

text \<open>A step that leaves \<^verbatim>\<open>gs_mutex\<close> alone, of a thread that does not hold it.\<close>

lemma taken_other:
  assumes "registry_inv s" and "\<not> holds_gs (rpcs s t)" and "gs_mutex s' = gs_mutex s" and "rpcs s' = (rpcs s)(t := p)"
  shows "taken s' = taken s"
proof -
  have "gs_mutex s \<noteq> Some t" using assms(1,2) by (auto simp: registry_inv_def locks_ok_def)
  then show ?thesis using assms(3,4) by (cases "gs_mutex s") (auto simp: taken_def)
qed

text \<open>A step that takes or gives back \<^verbatim>\<open>gs_mutex\<close>, with no client taken.\<close>

lemma taken_free: "gs_mutex s = None \<Longrightarrow> taken s = None"
  by (simp add: taken_def)

lemma lock_gs_matches: "lock_gs s t p = Some s' \<Longrightarrow> takes p = None \<Longrightarrow> matches s None s'"
  by (rule matches_silent) (auto simp: lock_gs_def at_pc_def taken_def split: if_splits)

lemma lock_line_matches:
  assumes "registry_inv s" and "lock_line s t l p = Some s'" and "takes p = takes (rpcs s t)"
  shows "matches s None s'"
proof -
  have s': "reg s' = reg s" "gs_mutex s' = gs_mutex s" "rpcs s' = (rpcs s)(t := p)"
    using assms(2) by (auto simp: lock_line_def at_pc_def split: if_splits)
  then have "taken s' = taken s" using assms(3) by (cases "gs_mutex s") (auto simp: taken_def)
  then show ?thesis by (rule matches_silent [OF s'(1)])
qed

text \<open>A turn of the loop and the function of \<open>Inproc\<close> scan the queue in the same way.\<close>

lemma scan_accept:
  assumes "scan_turn s t a expired = Inr s'"
  shows "(\<exists>l rest. s' = at_pc (s\<lparr>reg := (reg s)\<lparr>gs_connectQueue := rest\<rparr>\<rparr>) t (Lock_peer a l) \<and>
      InprocAcceptor_accept (reg s) a =
        bind_res (InprocLine_server ((reg s)\<lparr>gs_connectQueue := rest\<rparr>) l) (\<lambda>(st, p). Inr (st, Some p))) \<or>
    s' = unlock_gs s t (if expired then Got_peer None else Sleeping a) \<and> InprocAcceptor_accept (reg s) a = Inr (reg s, None)"
proof -
  obtain address where a: "acceptors (reg s) a = Some address"
    using assms by (cases "acceptors (reg s) a") (simp_all add: scan_turn_def deref_def)
  obtain r where r: "scan_queue (lines (reg s)) address (gs_connectQueue (reg s)) = Inr r"
    using assms a by (cases "scan_queue (lines (reg s)) address (gs_connectQueue (reg s))") (simp_all add: scan_turn_def)
  show ?thesis
    using assms a r by (cases r) (auto simp: scan_turn_def InprocAcceptor_accept_def)
qed

lemma scan_matches:
  assumes inv: "registry_inv s" and pc: "rpcs s t = Scan a" and step: "scan_turn s t a expired = Inr s'"
  shows "matches s (scan_event s' t a (rpcs s' t)) s'"
proof -
  have idle: "registry_abs s = reg s" using taken_owner [OF inv, of t] pc by (simp add: abs_idle)
  have inv': "registry_inv s'" by (rule scan_inv [OF inv pc step])
  consider l rest where "s' = at_pc (s\<lparr>reg := (reg s)\<lparr>gs_connectQueue := rest\<rparr>\<rparr>) t (Lock_peer a l)"
      "InprocAcceptor_accept (reg s) a =
         bind_res (InprocLine_server ((reg s)\<lparr>gs_connectQueue := rest\<rparr>) l) (\<lambda>(st, p). Inr (st, Some p))"
    | "s' = unlock_gs s t (if expired then Got_peer None else Sleeping a)" "InprocAcceptor_accept (reg s) a = Inr (reg s, None)"
    using scan_accept [OF step] by blast
  then show ?thesis
  proof cases
    case (1 l rest)
    have "taken s' = Some l" using taken_owner [OF inv', of t] by (simp add: 1(1) at_pc_def)
    with inv' obtain line where line: "lines (reg s') l = Some line"
      "registry_abs s' = paired (reg s') l line (gs_connectQueue (reg s'))"
      by (rule taken_line)
    have "reg s' = (reg s)\<lparr>gs_connectQueue := rest\<rparr>" "rpcs s' t = Lock_peer a l" by (simp_all add: 1(1) at_pc_def)
    with 1(2) server_eq [OF line(1)] line(2) show ?thesis by (simp add: matches_def idle accepts)
  next
    case 2
    have "registry_abs s' = reg s" using abs_idle [OF taken_free, of s'] by (simp add: 2(1) unlock_gs_def at_pc_def)
    moreover have "rpcs s' t = (if expired then Got_peer None else Sleeping a)" by (simp add: 2(1) unlock_gs_def at_pc_def)
    ultimately show ?thesis using 2(2) by (cases expired) (simp_all add: matches_def idle accepts)
  qed
qed

lemma cross_matches:
  assumes inv: "registry_inv s" and pc: "rpcs s t = Cross a l" and step: "proceed s t (rpcs s t) = Some (Inr s')"
  shows "matches s (proceed_event s' t (rpcs s t) (rpcs s' t)) s'"
proof -
  have "taken s = Some l" using taken_owner [OF inv, of t] pc by simp
  with inv obtain line where line: "lines (reg s) l = Some line" "m_in line = None"
    "registry_abs s = paired (reg s) l line (gs_connectQueue (reg s))"
    by (rule taken_line)
  let ?p = "fresh (reg s) + 2"
  have s': "reg s' = registry_abs s" "gs_mutex s' = None" "rpcs s' t = Got_peer (Some ?p)"
    using step by (auto simp: pc server_eq [OF line(1)] line(3) unlock_gs_def unlock_line_def at_pc_def)
  have "peers (registry_abs s) l ?p"
    unfolding line(3) using inv line(1,2) by (intro paired_facts(1)) (simp_all add: registry_inv_def)
  then show ?thesis using s' abs_idle [OF taken_free [OF s'(2)]] by (simp add: matches_def pc peer_returns)
qed

lemma proceed_matches:
  assumes inv: "registry_inv s" and step: "proceed s t (rpcs s t) = Some (Inr s')"
  shows "matches s (proceed_event s' t (rpcs s t) (rpcs s' t)) s'"
proof (cases "rpcs s t")
  case (Test l)
  have "reg s' = reg s" "taken s' = taken s"
    using step taken_other [OF inv, of t s'] by (auto simp: Test unlock_line_def at_pc_def InprocLine_connected_def bind_res_def split: sum.splits)
  then have abs: "registry_abs s' = registry_abs s" by (rule abs_same)
  have "InprocLine_connected (registry_abs s) l = Inr True" if "rpcs s' t = Got_line l"
  proof -
    have "registry_inv s'" by (rule proceed_inv [OF inv step])
    with that obtain p where "peers (reg s') l p" by (metis registry_inv_def thread_ok.simps(1))
    with \<open>reg s' = reg s\<close> have "peers (registry_abs s) l p" using abs_peers [OF inv] by simp
    then show ?thesis by (rule peers_connected)
  qed
  then show ?thesis by (simp add: matches_def Test abs client_returns)
next
  case (Cross a l)
  show ?thesis by (rule cross_matches [OF inv Cross step])
next
  case (Scan a)
  with step scan_matches [OF inv Scan, of False] show ?thesis by simp
next
  case (Enqueue address)
  have idle: "registry_abs s = reg s" using taken_owner [OF inv, of t] Enqueue by (simp add: abs_idle)
  obtain st l where e: "createClient_enqueue (reg s) address = (st, l)" by fastforce
  then have "reg s' = st" "gs_mutex s' = None" "rpcs s' t = Enter l"
    using step by (auto simp: Enqueue unlock_gs_def at_pc_def)
  with e idle abs_idle [OF taken_free, of s'] show ?thesis by (simp add: matches_def Enqueue client_queued)
next
  case (Register address)
  have idle: "registry_abs s = reg s" using taken_owner [OF inv, of t] Register by (simp add: abs_idle)
  obtain st r where e: "InprocLineFactory_createServer (reg s) address = Inr (st, r)" "s' = unlock_gs (s\<lparr>reg := st\<rparr>) t (Got_acceptor r)"
    using step by (auto simp: Register bind_res_def split: sum.splits)
  then have "reg s' = st" "gs_mutex s' = None" "rpcs s' t = Got_acceptor r" by (simp_all add: unlock_gs_def at_pc_def)
  with e(1) idle abs_idle [OF taken_free, of s'] show ?thesis by (simp add: matches_def Register server_created)
next
  case (Unregister a)
  have idle: "registry_abs s = reg s" using taken_owner [OF inv, of t] Unregister by (simp add: abs_idle)
  have "reg s' = InprocAcceptor_destroy (reg s) a" "gs_mutex s' = None"
    using step by (auto simp: Unregister unlock_gs_def at_pc_def)
  with idle abs_idle [OF taken_free, of s'] show ?thesis by (simp add: matches_def Unregister acceptor_destroyed)
qed (use step in \<open>auto dest: lock_gs_matches lock_line_matches [OF inv]\<close>)

lemma reg_act_matches:
  assumes inv: "registry_inv s" and step: "reg_act s t x = Some (Inr s')"
  shows "matches s (reg_event s t x s') s'"
proof (cases x)
  case Proceed
  with step proceed_matches [OF inv] show ?thesis by simp
next
  case Deadline
  with step obtain a where "rpcs s t = Scan a" "scan_turn s t a True = Inr s'" by (auto split: reg_pc.splits)
  with scan_matches [OF inv this] Deadline show ?thesis by simp
next
  case Wake_up
  with step have "reg s' = reg s" "gs_mutex s' = gs_mutex s" "\<exists>p. rpcs s' = (rpcs s)(t := p)" "\<not> holds_gs (rpcs s t)"
    by (auto simp: at_pc_def split: reg_pc.splits)
  then have "taken s' = taken s" using taken_other [OF inv] by blast
  with \<open>reg s' = reg s\<close> Wake_up show ?thesis by (simp add: matches_silent)
qed (use step in \<open>auto split: if_splits dest: lock_gs_matches\<close>)

lemma registry_step_matches:
  assumes "registry_inv s" and "registry_step s e s'"
  shows "registry_inv s'" and "matches s e s'"
  using assms reg_act_inv reg_act_matches unfolding registry_step_def by blast+

interpretation registry: refinement registry_step registry_inv registry_spec registry_abs
  by unfold_locales (use registry_step_matches in \<open>fastforce simp: matches_def\<close>)+

lemma registry_trace_reachable: "trace registry_step registry_init es s \<Longrightarrow> registry_reachable s"
  by (induction rule: trace.induct) (auto simp: registry_step_def intro: registry_reachable.intros)

section \<open>Properties\<close>

text \<open>
  C4 (registry_atomic): the registry of inter-thread lines is atomic. However any number of threads create clients and servers, wait for
  connections and destroy acceptors, the events they show are a run of the operations of the registry one after the other, from the empty
  registry to the one the threads have; every line returned to a thread is connected there; and whenever nobody holds \<^verbatim>\<open>gs_mutex\<close>
  the registry of the threads itself is a state that those operations reach.
\<close>
theorem registry_atomic:
  assumes "trace registry_step registry_init es s"
  shows "trace registry_spec inproc_init (visible es) (registry_abs s) \<and> inproc_reachable (registry_abs s) \<and>
    (gs_mutex s = None \<longrightarrow> inproc_reachable (reg s))"
proof -
  have "registry_inv registry_init" using registry_reachable.start by (rule registry_reachable_inv)
  moreover have "registry_abs registry_init = inproc_init" by (simp add: registry_abs_def taken_def registry_init_def)
  ultimately have run: "trace registry_spec inproc_init (visible es) (registry_abs s)"
    using registry.run_refines [OF assms] by simp
  then have "inproc_reachable (registry_abs s)" by (rule spec_run_reachable) (rule inproc_reachable.init)
  with run show ?thesis using abs_idle [OF taken_free, of s] by auto
qed

lemma one_server:
  "\<exists>es s. trace registry_step registry_init es s \<and> visible es = [Server_created 0 ''foo'' (Some 0)]"
proof -
  define s1 where "s1 = registry_init\<lparr>gs_mutex := Some 0, rpcs := (rpcs registry_init)(0 := Register ''foo'')\<rparr>"
  have a1: "registry_step registry_init None s1"
    unfolding registry_step_def
    by (intro exI [of _ 0] exI [of _ "Create_server ''foo''"]) (simp add: s1_def registry_init_def lock_gs_def at_pc_def)
  obtain s2 where s2: "proceed s1 0 (rpcs s1 0) = Some (Inr s2)" "rpcs s2 0 = Got_acceptor (Some 0)"
    by (simp add: s1_def registry_init_def inproc_init_def InprocLineFactory_createServer_def unlock_gs_def at_pc_def)
  then have a2: "registry_step s1 (Some (Server_created 0 ''foo'' (Some 0))) s2"
    unfolding registry_step_def by (intro exI [of _ 0] exI [of _ Proceed]) (simp add: s1_def)
  from a1 have "trace registry_step registry_init [None] s1" by (rule trace_single)
  then have "trace registry_step registry_init ([None] @ [Some (Server_created 0 ''foo'' (Some 0))]) s2"
    using a2 by (rule trace_snoc)
  then show ?thesis by (intro exI conjI) (assumption, simp)
qed

theorem registry_atomic_witness:
  "\<exists>st. trace registry_spec inproc_init [Server_created 0 ''foo'' (Some 0)] st \<and> inproc_reachable st"
proof -
  obtain es s where "trace registry_step registry_init es s" "visible es = [Server_created 0 ''foo'' (Some 0)]"
    using one_server by blast
  with registry_atomic [of es s] show ?thesis by auto
qed

end
