(* ===== verification/QueueThreads.thy ===== *)
theory QueueThreads
  imports DataQueue
begin

text \<open>
  The class \<^verbatim>\<open>DataQueue\<close> of src/common/inproc.cpp used by any number of threads. The theory \<open>DataQueue\<close>
  describes one call with the effects of the others given; here every thread has a program
  counter, the mutex has an owner, and a condition variable has waiting threads, so that the order of
  check, wait and notification is explicit.

  A step of a thread is the part of a call between two points at which another thread can
  intervene: locking the mutex, waiting on a condition variable (which unlocks it), unlocking at
  the end, and, because \<^verbatim>\<open>setConnectionFlag\<close> runs without the mutex, the point between the test of
  \<^verbatim>\<open>m_connected\<close> and the wait that follows it.
\<close>

section \<open>Threads\<close>

text \<open>
  Where a thread is. \<open>Ready\<close>: outside of every call, with the value its last call returned.
  For a read: \<open>R_check\<close> at the head of the loop, \<open>R_wait\<close> before the wait, \<open>R_parked\<close> in the wait,
  \<open>R_woken\<close> notified but without the mutex yet, \<open>R_recheck\<close> behind the wait. For a read with
  a timeout: \<open>T_check\<close>, the predicate of the wait \<open>T_pred\<close>, the wait \<open>T_parked\<close>, \<open>T_woken\<close> with
  whether the deadline passed, and \<open>T_last\<close>, the evaluation of the predicate after the
  deadline. For a write: \<open>W_check\<close>, the predicate of the wait \<open>W_pred\<close>, the wait, and the transfer \<open>W_put\<close>.
  For \<^verbatim>\<open>setConnectionFlag(false)\<close>: \<open>F_notify\<close> between the change of the flag and the notifications.
\<close>

datatype pc =
    Ready "int option"
  | R_check nat | R_wait nat | R_parked nat | R_woken nat | R_recheck nat
  | T_check nat | T_pred nat | T_parked nat | T_woken nat bool | T_last nat
  | W_check "byte list" | W_pred "byte list" | W_parked "byte list" | W_woken "byte list" | W_put "byte list"
  | F_notify

text \<open>
  \<open>sent\<close> and \<open>received\<close> record the bytes accepted and delivered so far, in the order of the
  transfers; the code does not have them.
\<close>

record tstate =
  shared :: data_queue
  mutex :: "nat option"
  pcs :: "nat \<Rightarrow> pc"
  sent :: "byte list"
  received :: "byte list"

definition tinit :: "nat \<Rightarrow> bool \<Rightarrow> tstate" where
  "tinit bufferSize c = \<lparr>shared = DataQueue_setConnectionFlag (DataQueue bufferSize) c, mutex = None,
                   pcs = (\<lambda>_. Ready None), sent = [], received = []\<rparr>"

text \<open>\<^verbatim>\<open>notify_all\<close> of the two condition variables.\<close>

definition wake_reader :: "pc \<Rightarrow> pc" where
  "wake_reader p = (case p of R_parked n \<Rightarrow> R_woken n | T_parked n \<Rightarrow> T_woken n False | _ \<Rightarrow> p)"

definition wake_writer :: "pc \<Rightarrow> pc" where
  "wake_writer p = (case p of W_parked bs \<Rightarrow> W_woken bs | _ \<Rightarrow> p)"

definition goto :: "tstate \<Rightarrow> nat \<Rightarrow> pc \<Rightarrow> tstate" where
  "goto s t p = s\<lparr>pcs := (pcs s)(t := p)\<rparr>"

definition lock :: "tstate \<Rightarrow> nat \<Rightarrow> pc \<Rightarrow> tstate option" where
  "lock s t p = (if mutex s = None then Some (goto (s\<lparr>mutex := Some t\<rparr>) t p) else None)"

definition unlock :: "tstate \<Rightarrow> nat \<Rightarrow> pc \<Rightarrow> tstate" where
  "unlock s t p = goto (s\<lparr>mutex := None\<rparr>) t p"

definition take_and_return :: "tstate \<Rightarrow> nat \<Rightarrow> nat \<Rightarrow> tstate option" where
  "take_and_return s t n =
     (case DataQueue_take (shared s) n of
        Inl _ \<Rightarrow> None
      | Inr (q, out, rc) \<Rightarrow>
          Some (unlock (s\<lparr>shared := q, received := received s @ out\<rparr>) t (Ready (Some rc))))"

definition put_and_return :: "tstate \<Rightarrow> nat \<Rightarrow> byte list \<Rightarrow> tstate option" where
  "put_and_return s t bs =
     (case DataQueue_put (shared s) bs of
        Inl _ \<Rightarrow> None
      | Inr (q, rc) \<Rightarrow>
          Some (unlock (s\<lparr>shared := q, sent := sent s @ take (nat rc) bs, pcs := wake_reader \<circ> pcs s\<rparr>)
                  t (Ready (Some rc))))"

text \<open>What a thread does next inside a call; \<open>None\<close> when it has to wait.\<close>

fun continue :: "tstate \<Rightarrow> nat \<Rightarrow> pc \<Rightarrow> tstate option" where
  "continue s t (R_check n) =
     (if DataQueue_availableReadSize (shared s) = 0 then
        (if \<not> m_connected (shared s) then Some (unlock s t (Ready (Some eConnectionLost)))
         else Some (goto s t (R_wait n)))
      else take_and_return s t n)"
| "continue s t (R_wait n) = Some (unlock s t (R_parked n))"
| "continue s t (R_woken n) = lock s t (R_recheck n)"
| "continue s t (R_recheck n) =
     (if DataQueue_availableReadSize (shared s) = 0 \<and> \<not> m_connected (shared s)
      then Some (unlock s t (Ready (Some eConnectionLost)))
      else Some (goto s t (R_check n)))"
| "continue s t (T_check n) =
     (if DataQueue_availableReadSize (shared s) = 0 then
        (if \<not> m_connected (shared s) then Some (unlock s t (Ready (Some eConnectionLost)))
         else Some (goto s t (T_pred n)))
      else take_and_return s t n)"
| "continue s t (T_pred n) =
     (if DataQueue_availableReadSize (shared s) > 0 then take_and_return s t n
      else Some (unlock s t (T_parked n)))"
| "continue s t (T_woken n expired) = lock s t (if expired then T_last n else T_pred n)"
| "continue s t (T_last n) =
     (if DataQueue_availableReadSize (shared s) > 0 then take_and_return s t n
      else Some (unlock s t (Ready (Some (if \<not> m_connected (shared s) then eConnectionLost else eTimeout)))))"
| "continue s t (W_check bs) =
     (if length bs \<ge> RingBuffer_size (m_buffer (shared s)) then Some (unlock s t (Ready (Some eTooBigBuffer)))
      else if DataQueue_availableWriteSize (shared s) = 0 then
        (if \<not> m_connected (shared s) then Some (unlock s t (Ready (Some eConnectionLost)))
         else Some (goto s t (W_pred bs)))
      else Some (goto s t (W_put bs)))"
| "continue s t (W_pred bs) =
     (if DataQueue_availableWriteSize (shared s) > 0 then Some (goto s t (W_put bs))
      else Some (unlock s t (W_parked bs)))"
| "continue s t (W_woken bs) = lock s t (W_pred bs)"
| "continue s t (W_put bs) =
     (if DataQueue_availableWriteSize (shared s) = 0 \<and> \<not> m_connected (shared s)
      then Some (unlock s t (Ready (Some eConnectionLost)))
      else put_and_return s t bs)"
| "continue s t F_notify =
     Some (goto (s\<lparr>pcs := wake_writer \<circ> (wake_reader \<circ> pcs s)\<rparr>) t (Ready None))"
| "continue s t p = None"

datatype action =
    Call_read nat | Call_readWithTimeout nat | Call_write "byte list" | Call_setConnectionFlag bool
  | Continue | Spurious | Expire

text \<open>
  One step of thread \<open>t\<close>: it begins a call, continues one, wakes up spuriously, or its deadline passes.
\<close>

fun act :: "tstate \<Rightarrow> nat \<Rightarrow> action \<Rightarrow> tstate option" where
  "act s t Continue = continue s t (pcs s t)"
| "act s t Spurious =
     (case pcs s t of
        R_parked n \<Rightarrow> Some (goto s t (R_woken n))
      | T_parked n \<Rightarrow> Some (goto s t (T_woken n False))
      | W_parked bs \<Rightarrow> Some (goto s t (W_woken bs))
      | _ \<Rightarrow> None)"
| "act s t Expire = (case pcs s t of T_parked n \<Rightarrow> Some (goto s t (T_woken n True)) | _ \<Rightarrow> None)"
| "act s t (Call_read n) =
     (case pcs s t of Ready _ \<Rightarrow> lock (s\<lparr>pcs := wake_writer \<circ> pcs s\<rparr>) t (R_check n) | _ \<Rightarrow> None)"
| "act s t (Call_readWithTimeout n) =
     (case pcs s t of Ready _ \<Rightarrow> lock (s\<lparr>pcs := wake_writer \<circ> pcs s\<rparr>) t (T_check n) | _ \<Rightarrow> None)"
| "act s t (Call_write bs) = (case pcs s t of Ready _ \<Rightarrow> lock s t (W_check bs) | _ \<Rightarrow> None)"
| "act s t (Call_setConnectionFlag c) =
     (case pcs s t of
        Ready _ \<Rightarrow>
          (if c then Some (s\<lparr>shared := (shared s)\<lparr>m_connected := True\<rparr>\<rparr>)
           else if m_connected (shared s)
           then Some (goto (s\<lparr>shared := (shared s)\<lparr>m_connected := False\<rparr>\<rparr>) t F_notify)
           else Some s)
      | _ \<Rightarrow> None)"

fun run :: "tstate \<Rightarrow> (nat \<times> action) list \<Rightarrow> tstate option" where
  "run s [] = Some s"
| "run s ((t, a) # as) = Option.bind (act s t a) (\<lambda>s'. run s' as)"

inductive threads_reachable :: "nat \<Rightarrow> tstate \<Rightarrow> bool" for bufferSize where
  start: "threads_reachable bufferSize (tinit bufferSize c)"
| move: "threads_reachable bufferSize s \<Longrightarrow> act s t a = Some s' \<Longrightarrow> threads_reachable bufferSize s'"

section \<open>Invariant\<close>

fun holds_mutex :: "pc \<Rightarrow> bool" where
  "holds_mutex (R_check _) = True"
| "holds_mutex (R_wait _) = True"
| "holds_mutex (R_recheck _) = True"
| "holds_mutex (T_check _) = True"
| "holds_mutex (T_pred _) = True"
| "holds_mutex (T_last _) = True"
| "holds_mutex (W_check _) = True"
| "holds_mutex (W_pred _) = True"
| "holds_mutex (W_put _) = True"
| "holds_mutex _ = False"

fun reader_parked :: "pc \<Rightarrow> bool" where
  "reader_parked (R_parked _) = True"
| "reader_parked (T_parked _) = True"
| "reader_parked _ = False"

fun about_to_wait :: "pc \<Rightarrow> bool" where
  "about_to_wait (R_wait _) = True"
| "about_to_wait _ = False"

definition exclusive :: "tstate \<Rightarrow> bool" where
  "exclusive s \<longleftrightarrow> (\<forall>t. holds_mutex (pcs s t) \<longleftrightarrow> mutex s = Some t)"

text \<open>A reader is parked, or goes to park, only while the queue is empty.\<close>

definition no_reader_left :: "tstate \<Rightarrow> bool" where
  "no_reader_left s \<longleftrightarrow>
     (dq_contents (shared s) \<noteq> [] \<longrightarrow> (\<forall>t. \<not> reader_parked (pcs s t) \<and> \<not> about_to_wait (pcs s t)))"

definition stream_ok :: "tstate \<Rightarrow> bool" where
  "stream_ok s \<longleftrightarrow> dq_inv (shared s) \<and> sent s = received s @ dq_contents (shared s)"

definition threads_inv :: "tstate \<Rightarrow> bool" where
  "threads_inv s \<longleftrightarrow> exclusive s \<and> no_reader_left s \<and> stream_ok s"

lemma wake_simps [simp]:
  "holds_mutex (wake_reader p) = holds_mutex p" "holds_mutex (wake_writer p) = holds_mutex p"
  "reader_parked (wake_writer p) = reader_parked p" "\<not> reader_parked (wake_reader p)"
  "about_to_wait (wake_reader p) = about_to_wait p" "about_to_wait (wake_writer p) = about_to_wait p"
  by (cases p; simp add: wake_reader_def wake_writer_def)+

lemma parked_not_holding: "reader_parked p \<Longrightarrow> \<not> holds_mutex p" "about_to_wait p \<Longrightarrow> holds_mutex p"
  by (cases p; simp)+

text \<open>How the building blocks of the steps act on the invariant.\<close>

lemma goto_inv:
  assumes "threads_inv s" and "holds_mutex p = holds_mutex (pcs s t)"
    and "dq_contents (shared s) \<noteq> [] \<Longrightarrow> \<not> reader_parked p \<and> \<not> about_to_wait p"
  shows "threads_inv (goto s t p)"
  using assms by (auto simp: threads_inv_def goto_def exclusive_def no_reader_left_def stream_ok_def)

lemma lock_inv:
  assumes "threads_inv s" and "lock s t p = Some s'" and "holds_mutex p" and "\<not> about_to_wait p"
  shows "threads_inv s'"
  using assms parked_not_holding(1) [of p]
  by (auto simp: threads_inv_def lock_def goto_def exclusive_def no_reader_left_def stream_ok_def split: if_splits)

lemma unlock_inv:
  assumes "threads_inv s" and "mutex s = Some t" and "\<not> holds_mutex p"
    and "dq_contents (shared s) \<noteq> [] \<Longrightarrow> \<not> reader_parked p"
  shows "threads_inv (unlock s t p)"
  using assms parked_not_holding(2) [of p]
  by (auto simp: threads_inv_def unlock_def goto_def exclusive_def no_reader_left_def stream_ok_def)

lemma take_inv:
  assumes inv: "threads_inv s" and m: "mutex s = Some t" and n: "dq_contents (shared s) \<noteq> []"
    and "take_and_return s t n = Some s'"
  shows "threads_inv s'"
proof -
  have dq: "dq_inv (shared s)" using inv by (simp add: threads_inv_def stream_ok_def)
  obtain q where q: "DataQueue_take (shared s) n =
      Inr (q, take n (dq_contents (shared s)), int (min n (length (dq_contents (shared s)))))"
    "dq_inv q" "dq_contents q = drop n (dq_contents (shared s))"
    using dq by (rule take_spec)
  then have s': "s' = unlock (s\<lparr>shared := q, received := received s @ take n (dq_contents (shared s))\<rparr>) t
      (Ready (Some (int (min n (length (dq_contents (shared s)))))))"
    using assms(4) by (simp add: take_and_return_def)
  have "threads_inv (s\<lparr>shared := q, received := received s @ take n (dq_contents (shared s))\<rparr>)"
    using inv n q by (simp add: threads_inv_def exclusive_def no_reader_left_def stream_ok_def)
  then show ?thesis unfolding s' by (rule unlock_inv) (simp_all add: m)
qed

lemma put_inv:
  assumes inv: "threads_inv s" and m: "mutex s = Some t" and r: "\<not> about_to_wait (pcs s t)"
    and "put_and_return s t bs = Some s'"
  shows "threads_inv s'"
proof -
  have dq: "dq_inv (shared s)" using inv by (simp add: threads_inv_def stream_ok_def)
  let ?space = "dq_capacity (shared s) - length (dq_contents (shared s))"
  obtain q where q: "DataQueue_put (shared s) bs = Inr (q, int (min (length bs) ?space))"
    "dq_inv q" "dq_contents q = dq_contents (shared s) @ take ?space bs"
    using dq by (rule put_spec)
  let ?s = "s\<lparr>shared := q, sent := sent s @ take (min (length bs) ?space) bs, pcs := wake_reader \<circ> pcs s\<rparr>"
  have s': "s' = unlock ?s t (Ready (Some (int (min (length bs) ?space))))"
    using assms(4) q by (simp add: put_and_return_def)
  have "\<not> about_to_wait (pcs s u)" for u
    using inv m r parked_not_holding(2) [of "pcs s u"] by (cases "u = t") (auto simp: threads_inv_def exclusive_def)
  then have "threads_inv ?s"
    using inv q by (auto simp: threads_inv_def exclusive_def no_reader_left_def stream_ok_def min_def)
  then show ?thesis unfolding s' by (rule unlock_inv) (simp_all add: m)
qed

lemma continue_inv:
  assumes inv: "threads_inv s" and step: "continue s t (pcs s t) = Some s'"
  shows "threads_inv s'"
proof -
  have dq: "dq_inv (shared s)" using inv by (simp add: threads_inv_def stream_ok_def)
  have own: "holds_mutex (pcs s t) \<longleftrightarrow> mutex s = Some t" using inv by (simp add: threads_inv_def exclusive_def)
  have left: "about_to_wait (pcs s t) \<Longrightarrow> dq_contents (shared s) = []"
    using inv by (auto simp: threads_inv_def no_reader_left_def)
  show ?thesis
  proof (cases "pcs s t")
    case F_notify
    have "threads_inv (s\<lparr>pcs := wake_writer \<circ> (wake_reader \<circ> pcs s)\<rparr>)"
      using inv by (simp add: threads_inv_def exclusive_def no_reader_left_def stream_ok_def)
    with F_notify step show ?thesis
      by (auto intro!: goto_inv simp: wake_reader_def wake_writer_def)
  qed (use step inv dq own left in \<open>auto intro: lock_inv take_inv put_inv intro!: unlock_inv goto_inv split: if_splits\<close>)
qed

lemma act_inv:
  assumes inv: "threads_inv s" and step: "act s t a = Some s'"
  shows "threads_inv s'"
proof -
  have woken: "threads_inv (s\<lparr>pcs := wake_writer \<circ> pcs s\<rparr>)"
    using inv by (simp add: threads_inv_def exclusive_def no_reader_left_def stream_ok_def)
  have flag: "threads_inv (s\<lparr>shared := (shared s)\<lparr>m_connected := c\<rparr>\<rparr>)" for c
    using inv by (simp add: threads_inv_def exclusive_def no_reader_left_def stream_ok_def dq_defs)
  show ?thesis
  proof (cases a)
    case Continue
    with step continue_inv [OF inv] show ?thesis by simp
  next
    case (Call_setConnectionFlag c)
    with step inv flag show ?thesis
      by (auto intro!: goto_inv split: pc.splits if_splits)
  qed (use step inv woken in \<open>auto intro: lock_inv intro!: goto_inv split: pc.splits\<close>)
qed

lemma tinit_inv: "0 < n \<Longrightarrow> n < 2 ^ 63 \<Longrightarrow> threads_inv (tinit n c)"
  by (simp add: tinit_def threads_inv_def exclusive_def no_reader_left_def stream_ok_def dq_inv_new)

lemma threads_reachable_inv:
  "threads_reachable n s \<Longrightarrow> 0 < n \<Longrightarrow> n < 2 ^ 63 \<Longrightarrow> threads_inv s"
  by (induction rule: threads_reachable.induct) (auto intro: tinit_inv act_inv)

lemma run_reachable: "threads_reachable n s \<Longrightarrow> run s as = Some s' \<Longrightarrow> threads_reachable n s'"
proof (induction as arbitrary: s)
  case (Cons ta as)
  then obtain s1 where "act s (fst ta) (snd ta) = Some s1" "run s1 as = Some s'"
    by (cases ta) (auto simp: bind_eq_Some_conv)
  with Cons show ?case by (auto intro: threads_reachable.move)
qed simp

section \<open>Interleavings\<close>

text \<open>The steps of the two runs below, for a queue of any size.\<close>

lemmas step_defs = lock_def unlock_def goto_def take_and_return_def put_and_return_def wake_reader_def
  wake_writer_def

definition quiet_but :: "nat \<Rightarrow> tstate \<Rightarrow> bool" where
  "quiet_but t s \<longleftrightarrow> mutex s = None \<and> (\<forall>u. u \<noteq> t \<longrightarrow> (\<exists>r. pcs s u = Ready r))"

lemma disconnect_runs:
  assumes "0 < n" and "n < 2 ^ 63"
  shows "\<exists>s. run (tinit n True) [(0, Call_read k), (0, Continue), (1, Call_setConnectionFlag False), (1, Continue), (0, Continue)] = Some s \<and>
     pcs s 0 = R_parked k \<and> \<not> m_connected (shared s) \<and> dq_inv (shared s) \<and> dq_contents (shared s) = [] \<and> quiet_but 0 s"
    and "\<exists>s. run (tinit n True) [(0, Call_read k), (0, Continue), (0, Continue), (1, Call_setConnectionFlag False), (1, Continue),
       (0, Continue), (0, Continue)] = Some s \<and> pcs s 0 = Ready (Some eConnectionLost)"
proof -
  let ?q = "DataQueue_setConnectionFlag (DataQueue n) True"
  have q: "dq_inv ?q" "dq_contents ?q = []" "m_connected ?q" using assms by (simp_all add: dq_inv_new)
  then have lost: "dq_inv (?q\<lparr>m_connected := False\<rparr>)" "dq_contents (?q\<lparr>m_connected := False\<rparr>) = []" by (simp_all add: dq_defs)
  have s: "tinit n True = \<lparr>shared = ?q, mutex = None, pcs = (\<lambda>_. Ready None), sent = [], received = []\<rparr>"
    by (simp add: tinit_def)
  show "\<exists>s. run (tinit n True) [(0, Call_read k), (0, Continue), (1, Call_setConnectionFlag False), (1, Continue), (0, Continue)] = Some s \<and>
     pcs s 0 = R_parked k \<and> \<not> m_connected (shared s) \<and> dq_inv (shared s) \<and> dq_contents (shared s) = [] \<and> quiet_but 0 s"
    unfolding s using q lost by (simp add: step_defs comp_def quiet_but_def)
  show "\<exists>s. run (tinit n True) [(0, Call_read k), (0, Continue), (0, Continue), (1, Call_setConnectionFlag False), (1, Continue),
       (0, Continue), (0, Continue)] = Some s \<and> pcs s 0 = Ready (Some eConnectionLost)"
    unfolding s using q lost by (simp add: step_defs comp_def)
qed

text \<open>
  What may wake the reader \<open>0\<close> of a disconnected, empty queue: a new write, a new connection, or a spurious wake-up. As long
  as none of these happens, a reader that is in its wait stays there. \<open>deaf\<close> is the invariant: no other thread is inside a
  write or about to notify.
\<close>

fun wakes_reader :: "nat \<times> action \<Rightarrow> bool" where
  "wakes_reader (t, Call_write _) = True"
| "wakes_reader (t, Call_setConnectionFlag c) = c"
| "wakes_reader (t, Spurious) = (t = 0)"
| "wakes_reader _ = False"

fun notifies :: "pc \<Rightarrow> bool" where
  "notifies (W_check _) = True"
| "notifies (W_pred _) = True"
| "notifies (W_parked _) = True"
| "notifies (W_woken _) = True"
| "notifies (W_put _) = True"
| "notifies F_notify = True"
| "notifies _ = False"

definition deaf :: "nat \<Rightarrow> tstate \<Rightarrow> bool" where
  "deaf k s \<longleftrightarrow> pcs s 0 = R_parked k \<and> \<not> m_connected (shared s) \<and> dq_inv (shared s) \<and> dq_contents (shared s) = [] \<and>
     (\<forall>t. \<not> notifies (pcs s t))"

lemma wake_writer_quiet: "\<not> notifies p \<Longrightarrow> wake_writer p = p"
  by (cases p) (simp_all add: wake_writer_def)

lemma deaf_goto: "deaf k s \<Longrightarrow> t \<noteq> 0 \<Longrightarrow> \<not> notifies p \<Longrightarrow> deaf k (goto s t p) \<and> deaf k (goto (s\<lparr>mutex := m\<rparr>) t p)"
  by (simp add: deaf_def goto_def)

lemma deaf_continue:
  assumes "deaf k s" and "continue s t (pcs s t) = Some s'"
  shows "deaf k s'"
proof -
  have t: "t \<noteq> 0" using assms by (cases "t = 0") (simp_all add: deaf_def)
  have q: "\<not> notifies (pcs s t)" "dq_inv (shared s)" "dq_contents (shared s) = []" "\<not> m_connected (shared s)"
    using assms(1) by (simp_all add: deaf_def)
  note go = deaf_goto [OF assms(1) t]
  show ?thesis
    using assms(2) q by (cases "pcs s t") (auto simp: unlock_def lock_def go split: if_splits)
qed

lemma deaf_act:
  assumes "deaf k s" and "act s t a = Some s'" and "\<not> wakes_reader (t, a)"
  shows "deaf k s'"
proof -
  have same: "s\<lparr>pcs := wake_writer \<circ> pcs s\<rparr> = s"
    using assms(1) by (cases s) (auto simp: deaf_def wake_writer_quiet comp_def)
  have zero: "pcs s 0 = R_parked k" "\<not> m_connected (shared s)" "\<not> notifies (pcs s t)" using assms(1) by (simp_all add: deaf_def)
  have t: "t \<noteq> 0" using assms zero by (cases "t = 0"; cases a) simp_all
  note go = deaf_goto [OF assms(1) t]
  show ?thesis
  proof (cases a)
    case Continue
    with deaf_continue [OF assms(1)] assms(2) show ?thesis by simp
  qed (use assms zero same go in \<open>auto simp: lock_def split: pc.splits if_splits\<close>)
qed

lemma deaf_run:
  "deaf k s \<Longrightarrow> \<forall>x \<in> set as. \<not> wakes_reader x \<Longrightarrow> run s as = Some s' \<Longrightarrow> deaf k s'"
proof (induction as arbitrary: s)
  case (Cons x as)
  then obtain s1 where "act s (fst x) (snd x) = Some s1" "run s1 as = Some s'"
    by (cases x) (auto simp: bind_eq_Some_conv)
  with Cons deaf_act [of k s "fst x" "snd x" s1] show ?case by auto
qed simp

lemma writer_run:
  assumes "1 < n" and "n < 2 ^ 63"
  shows "\<exists>s. run (tinit n True)
       ([(0, Call_read n), (0, Continue), (0, Continue)] @
        [(1, Call_write (replicate (n - 1) 0)), (1, Continue), (1, Continue)] @
        [(1, Call_write [1]), (1, Continue), (1, Continue)] @
        [(0, Continue), (0, Continue), (0, Continue)]) = Some s \<and>
     pcs s 1 = W_parked [1] \<and> dq_contents (shared s) = [] \<and> quiet_but 1 s"
proof -
  let ?q = "DataQueue_setConnectionFlag (DataQueue n) True" and ?bs = "replicate (n - 1) 0 :: byte list"
  have q: "dq_inv ?q" "dq_contents ?q = []" "m_connected ?q" "dq_capacity ?q = n - 1" using assms by (simp_all add: dq_inv_new)
  have s: "tinit n True = \<lparr>shared = ?q, mutex = None, pcs = (\<lambda>_. Ready None), sent = [], received = []\<rparr>"
    by (simp add: tinit_def)
  obtain q1 where q1: "DataQueue_put ?q ?bs = Inr (q1, int (n - 1))" "dq_inv q1" "dq_contents q1 = ?bs"
    "dq_capacity q1 = n - 1" "m_connected q1"
    using put_spec [OF q(1), of ?bs] q by auto
  obtain q2 where q2: "DataQueue_take q1 n = Inr (q2, ?bs, int (n - 1))" "dq_inv q2" "dq_contents q2 = []"
    using take_spec [OF q1(2), of n] q1 by auto
  show ?thesis unfolding s using q q1 q2 assms by (simp add: step_defs comp_def quiet_but_def)
qed

section \<open>Properties\<close>

text \<open>
  C5 (threads_stream_safe): whatever any number of threads do with one queue, in any interleaving, with
  spurious wake-ups and timeouts, at most one thread is inside a critical section, the bytes delivered so
  far followed by the bytes in the queue are the bytes accepted so far, and no reader waits
  while there is something to read: the notification of a write is never missed.
\<close>
theorem threads_stream_safe:
  assumes "threads_reachable bufferSize s" and "0 < bufferSize" and "bufferSize < 2 ^ 63"
  shows "(\<forall>t u. holds_mutex (pcs s t) \<and> holds_mutex (pcs s u) \<longrightarrow> t = u) \<and>
     received s @ dq_contents (shared s) = sent s \<and>
     (dq_contents (shared s) \<noteq> [] \<longrightarrow> (\<forall>t n. pcs s t \<noteq> R_parked n \<and> pcs s t \<noteq> T_parked n))"
proof -
  have inv: "threads_inv s" using assms by (rule threads_reachable_inv)
  then have "\<forall>t u. holds_mutex (pcs s t) \<and> holds_mutex (pcs s u) \<longrightarrow> t = u"
    by (auto simp: threads_inv_def exclusive_def)
  moreover have "\<forall>t n. pcs s t \<noteq> R_parked n \<and> pcs s t \<noteq> T_parked n" if "dq_contents (shared s) \<noteq> []"
    using inv that by (metis threads_inv_def no_reader_left_def reader_parked.simps(1,2))
  ultimately show ?thesis using inv by (auto simp: threads_inv_def stream_ok_def)
qed

theorem threads_stream_safe_witness:
  "received (tinit 65536 True) @ dq_contents (shared (tinit 65536 True)) = sent (tinit 65536 True)"
  using threads_stream_safe [OF threads_reachable.start [of 65536 True]] by simp

text \<open>
  C31 (reader_misses_disconnect): \<^verbatim>\<open>setConnectionFlag\<close> changes the flag and notifies without the mutex. When it runs
  after a reader has tested the flag and before the reader waits, the notification is lost: the queue is empty and the
  connection gone, every other thread is outside of its calls, and the reader waits. It goes on waiting, with the
  connection gone, through whatever the threads do (further reads, timed reads, disconnections), until another write or
  connection begins or the reader wakes up spuriously. When \<^verbatim>\<open>setConnectionFlag\<close> runs a moment later, with the reader in its
  wait, the reader is woken and returns \<^verbatim>\<open>eConnectionLost\<close>.
\<close>
theorem reader_misses_disconnect:
  assumes "0 < bufferSize" and "bufferSize < 2 ^ 63"
  shows "\<exists>s. run (tinit bufferSize True)
       [(0, Call_read k), (0, Continue), (1, Call_setConnectionFlag False), (1, Continue), (0, Continue)] = Some s \<and>
     pcs s 0 = R_parked k \<and> \<not> m_connected (shared s) \<and> dq_contents (shared s) = [] \<and> quiet_but 0 s \<and>
     (\<forall>as s'. (\<forall>x \<in> set as. \<not> wakes_reader x) \<and> run s as = Some s' \<longrightarrow>
        pcs s' 0 = R_parked k \<and> \<not> m_connected (shared s')) \<and>
     (\<exists>r. run (tinit bufferSize True)
        [(0, Call_read k), (0, Continue), (0, Continue), (1, Call_setConnectionFlag False), (1, Continue),
         (0, Continue), (0, Continue)] = Some r \<and> pcs r 0 = Ready (Some eConnectionLost))"
proof -
  obtain s where s: "run (tinit bufferSize True)
      [(0, Call_read k), (0, Continue), (1, Call_setConnectionFlag False), (1, Continue), (0, Continue)] = Some s"
    "pcs s 0 = R_parked k" "\<not> m_connected (shared s)" "dq_inv (shared s)" "dq_contents (shared s) = []" "quiet_but 0 s"
    using disconnect_runs(1) [OF assms] by blast
  have "\<not> notifies (pcs s t)" for t using s(2,6) unfolding quiet_but_def by (cases "t = 0") (auto dest!: spec [of _ t])
  with s have "deaf k s" by (simp add: deaf_def)
  then have later: "\<forall>as s'. (\<forall>x \<in> set as. \<not> wakes_reader x) \<and> run s as = Some s' \<longrightarrow>
      pcs s' 0 = R_parked k \<and> \<not> m_connected (shared s')"
    using deaf_run unfolding deaf_def by metis
  show ?thesis
    by (intro exI [of _ s] conjI s(1,2,3,5,6) later disconnect_runs(2) [OF assms])
qed

theorem reader_misses_disconnect_witness:
  "\<exists>s. run (tinit 65536 True)
       [(0, Call_read 8), (0, Continue), (1, Call_setConnectionFlag False), (1, Continue), (0, Continue)] = Some s \<and>
     pcs s 0 = R_parked 8 \<and> \<not> m_connected (shared s) \<and>
     (\<forall>s'. run s [(1, Call_readWithTimeout 4), (1, Continue), (2, Call_setConnectionFlag False)] = Some s' \<longrightarrow>
        pcs s' 0 = R_parked 8)"
proof -
  have size: "0 < (65536 :: nat)" "(65536 :: nat) < 2 ^ 63" by simp_all
  have calm: "\<forall>x \<in> set [(1, Call_readWithTimeout 4), (1, Continue), (2, Call_setConnectionFlag False)]. \<not> wakes_reader x" by simp
  from reader_misses_disconnect [OF size, of 8] show ?thesis using calm by (elim exE conjE) (intro exI conjI allI impI; blast)
qed

text \<open>
  C30 (writer_left_waiting): \<^verbatim>\<open>read\<close> notifies the writers when it is called, not when it has taken bytes out. A
  reader that waited, was woken by a write that filled the queue, and takes everything after the
  writer has begun to wait for space, returns without waking the writer: the queue is empty, every
  other thread is outside of its calls, and the writer waits.
\<close>
theorem writer_left_waiting:
  shows "\<exists>s. threads_reachable 65536 s \<and> pcs s 1 = W_parked [1] \<and> dq_contents (shared s) = [] \<and> quiet_but 1 s"
  using writer_run [of 65536] run_reachable [OF threads_reachable.start] by fastforce

end
