(* ===== verification/QueueLinear.thy ===== *)
theory QueueLinear
  imports QueueThreads Machines
begin

text \<open>
  What the class \<^verbatim>\<open>DataQueue\<close> promises to threads that share a queue: an atomic bounded queue of bytes with a connection
  flag. The specification knows nothing of mutexes, condition variables, waits and array positions; every call is one
  event that happens at once. The steps of \<open>QueueThreads\<close> refine it: in any interleaving, the calls return what they would
  return if each of them ran alone at the moment of its return.
\<close>

section \<open>The specification\<close>

record bounded_queue =
  q_bytes :: "byte list"
  q_open :: bool
  q_capacity :: nat

text \<open>
  A call that returns: the thread, the arguments, the bytes delivered and the value returned. The flag of a read says
  whether it has a timeout.
\<close>

datatype return_event =
    Read_returns nat bool nat "byte list" int
  | Write_returns nat "byte list" int
  | Flag_set nat bool

inductive queue_spec :: "bounded_queue \<Rightarrow> return_event \<Rightarrow> bounded_queue \<Rightarrow> bool" where
  delivered: "q_bytes q \<noteq> [] \<Longrightarrow> out = take n (q_bytes q) \<Longrightarrow>
    queue_spec q (Read_returns t timed n out (int (length out))) (q\<lparr>q_bytes := drop n (q_bytes q)\<rparr>)"
| read_lost: "q_bytes q = [] \<Longrightarrow> \<not> q_open q \<Longrightarrow> queue_spec q (Read_returns t timed n [] eConnectionLost) q"
| timed_out: "q_bytes q = [] \<Longrightarrow> q_open q \<Longrightarrow> queue_spec q (Read_returns t True n [] eTimeout) q"
| accepted: "length bs \<le> q_capacity q \<Longrightarrow> length (q_bytes q) < q_capacity q \<Longrightarrow>
    k = min (length bs) (q_capacity q - length (q_bytes q)) \<Longrightarrow>
    queue_spec q (Write_returns t bs (int k)) (q\<lparr>q_bytes := q_bytes q @ take k bs\<rparr>)"
| too_big: "q_capacity q < length bs \<Longrightarrow> queue_spec q (Write_returns t bs eTooBigBuffer) q"
| write_lost: "length bs \<le> q_capacity q \<Longrightarrow> length (q_bytes q) = q_capacity q \<Longrightarrow> \<not> q_open q \<Longrightarrow>
    queue_spec q (Write_returns t bs eConnectionLost) q"
| flagged: "queue_spec q (Flag_set t c) (q\<lparr>q_open := c\<rparr>)"

text \<open>For one event the specification leaves no choice of the next state.\<close>

inductive_cases queue_specE:
  "queue_spec q (Read_returns t timed n out rc) q'"
  "queue_spec q (Write_returns t bs rc) q'"
  "queue_spec q (Flag_set t c) q'"

lemma queue_spec_bounded:
  "queue_spec q e q' \<Longrightarrow> length (q_bytes q) \<le> q_capacity q \<Longrightarrow> length (q_bytes q') \<le> q_capacity q' \<and> q_capacity q' = q_capacity q"
  by (induction rule: queue_spec.induct) auto

section \<open>The steps and their events\<close>

fun reads :: "pc \<Rightarrow> (bool \<times> nat) option" where
  "reads (R_check n) = Some (False, n)"
| "reads (R_recheck n) = Some (False, n)"
| "reads (T_check n) = Some (True, n)"
| "reads (T_pred n) = Some (True, n)"
| "reads (T_last n) = Some (True, n)"
| "reads _ = None"

fun writes :: "pc \<Rightarrow> byte list option" where
  "writes (W_check bs) = Some bs"
| "writes (W_pred bs) = Some bs"
| "writes (W_put bs) = Some bs"
| "writes _ = None"

text \<open>A step shows an event when a call returns in it, or sets the flag.\<close>

fun shown_event :: "tstate \<Rightarrow> nat \<Rightarrow> action \<Rightarrow> tstate \<Rightarrow> return_event option" where
  "shown_event s t (Call_setConnectionFlag c) s' = Some (Flag_set t c)"
| "shown_event s t Continue s' =
     (case pcs s' t of
        Ready (Some rc) \<Rightarrow>
          (case reads (pcs s t) of
             Some (timed, n) \<Rightarrow> Some (Read_returns t timed n (drop (length (received s)) (received s')) rc)
           | None \<Rightarrow> map_option (\<lambda>bs. Write_returns t bs rc) (writes (pcs s t)))
      | _ \<Rightarrow> None)"
| "shown_event s t _ s' = None"

definition queue_step :: "tstate \<Rightarrow> return_event option \<Rightarrow> tstate \<Rightarrow> bool" where
  "queue_step s e s' \<longleftrightarrow> (\<exists>t a. act s t a = Some s' \<and> e = shown_event s t a s')"

definition queue_abs :: "tstate \<Rightarrow> bounded_queue" where
  "queue_abs s = \<lparr>q_bytes = dq_contents (shared s), q_open = m_connected (shared s), q_capacity = dq_capacity (shared s)\<rparr>"

section \<open>Invariant\<close>

text \<open>A writer past the first test has a buffer of a proper size, and at the transfer there is space.\<close>

fun write_fits :: "data_queue \<Rightarrow> pc \<Rightarrow> bool" where
  "write_fits q (W_pred bs) \<longleftrightarrow> length bs \<le> dq_capacity q"
| "write_fits q (W_parked bs) \<longleftrightarrow> length bs \<le> dq_capacity q"
| "write_fits q (W_woken bs) \<longleftrightarrow> length bs \<le> dq_capacity q"
| "write_fits q (W_put bs) \<longleftrightarrow> length bs \<le> dq_capacity q \<and> length (dq_contents q) < dq_capacity q"
| "write_fits q _ \<longleftrightarrow> True"

definition queue_inv :: "tstate \<Rightarrow> bool" where
  "queue_inv s \<longleftrightarrow> threads_inv s \<and> (\<forall>t. write_fits (shared s) (pcs s t))"

lemma writer_ok_wake [simp]:
  "write_fits q (wake_reader p) = write_fits q p" "write_fits q (wake_writer p) = write_fits q p"
  by (cases p; simp add: wake_reader_def wake_writer_def)+

lemma writer_ok_cong:
  "write_fits q p \<Longrightarrow> dq_capacity q' = dq_capacity q \<Longrightarrow> \<not> holds_mutex p \<or> dq_contents q' = dq_contents q \<Longrightarrow> write_fits q' p"
  by (cases p) simp_all

text \<open>The two transfers.\<close>

lemma take_step:
  assumes "dq_inv (shared s)" and "take_and_return s t n = Some s'"
  shows "dq_contents (shared s') = drop n (dq_contents (shared s))" and "dq_capacity (shared s') = dq_capacity (shared s)"
    and "m_connected (shared s') = m_connected (shared s)" and "received s' = received s @ take n (dq_contents (shared s))"
    and "pcs s' = (pcs s)(t := Ready (Some (int (length (take n (dq_contents (shared s)))))))"
proof -
  obtain q where q: "DataQueue_take (shared s) n =
      Inr (q, take n (dq_contents (shared s)), int (min n (length (dq_contents (shared s)))))"
    "dq_contents q = drop n (dq_contents (shared s))" "dq_capacity q = dq_capacity (shared s)"
    "m_connected q = m_connected (shared s)"
    using take_spec [OF assms(1), of n] by metis
  from assms(2) q(1) have s': "s' = unlock (s\<lparr>shared := q, received := received s @ take n (dq_contents (shared s))\<rparr>) t
      (Ready (Some (int (min n (length (dq_contents (shared s)))))))"
    by (simp add: take_and_return_def)
  show "dq_contents (shared s') = drop n (dq_contents (shared s))" "dq_capacity (shared s') = dq_capacity (shared s)"
    "m_connected (shared s') = m_connected (shared s)" "received s' = received s @ take n (dq_contents (shared s))"
    "pcs s' = (pcs s)(t := Ready (Some (int (length (take n (dq_contents (shared s)))))))"
    using q by (simp_all add: s' unlock_def goto_def min.commute)
qed

lemma put_step:
  assumes "dq_inv (shared s)" and "put_and_return s t bs = Some s'"
  defines "k \<equiv> min (length bs) (dq_capacity (shared s) - length (dq_contents (shared s)))"
  shows "dq_contents (shared s') = dq_contents (shared s) @ take k bs" and "dq_capacity (shared s') = dq_capacity (shared s)"
    and "m_connected (shared s') = m_connected (shared s)"
    and "pcs s' = (wake_reader \<circ> pcs s)(t := Ready (Some (int k)))"
proof -
  have all: "take (dq_capacity (shared s) - length (dq_contents (shared s))) bs = take k bs" by (simp add: k_def min_def)
  obtain q where "DataQueue_put (shared s) bs = Inr (q, int k)"
    "dq_contents q = dq_contents (shared s) @ take (dq_capacity (shared s) - length (dq_contents (shared s))) bs"
    "dq_capacity q = dq_capacity (shared s)" "m_connected q = m_connected (shared s)"
    unfolding k_def using assms(1) by (rule put_spec)
  note q = this [unfolded all]
  from assms(2) q(1) have s': "s' = unlock (s\<lparr>shared := q, sent := sent s @ take k bs, pcs := wake_reader \<circ> pcs s\<rparr>) t
      (Ready (Some (int k)))"
    by (simp add: put_and_return_def)
  show "dq_contents (shared s') = dq_contents (shared s) @ take k bs" "dq_capacity (shared s') = dq_capacity (shared s)"
    "m_connected (shared s') = m_connected (shared s)" "pcs s' = (wake_reader \<circ> pcs s)(t := Ready (Some (int k)))"
    using q by (simp_all add: s' unlock_def goto_def)
qed

lemma queue_invD:
  assumes "queue_inv s"
  shows "threads_inv s" and "dq_inv (shared s)" and "write_fits (shared s) (pcs s u)"
    and "holds_mutex (pcs s t) \<Longrightarrow> holds_mutex (pcs s u) \<Longrightarrow> u = t"
  using assms by (auto simp: queue_inv_def threads_inv_def stream_ok_def exclusive_def)

text \<open>A step leaves the queue as it is, or is a transfer by the owner of the mutex, or sets the flag.\<close>

lemma writers_kept:
  assumes inv: "queue_inv s" and "holds_mutex (pcs s t)" and "dq_capacity (shared s') = dq_capacity (shared s)"
    and "\<And>u. u \<noteq> t \<Longrightarrow> pcs s' u = pcs s u \<or> pcs s' u = wake_reader (pcs s u)" and "\<exists>r. pcs s' t = Ready r"
  shows "\<forall>u. write_fits (shared s') (pcs s' u)"
proof
  fix u
  have "\<not> holds_mutex (pcs s u)" if "u \<noteq> t" using queue_invD(4) [OF inv assms(2)] that by blast
  then have "write_fits (shared s') (pcs s u)" if "u \<noteq> t"
    using writer_ok_cong [OF queue_invD(3) [OF inv] assms(3)] that by blast
  with assms(4) [of u] assms(5) show "write_fits (shared s') (pcs s' u)"
    by (cases "u = t") auto
qed

lemma transfer_step:
  assumes inv: "queue_inv s" and own: "holds_mutex (pcs s t)"
  shows "reads (pcs s t) = Some (timed, n) \<Longrightarrow> dq_contents (shared s) \<noteq> [] \<Longrightarrow> take_and_return s t n = Some s' \<Longrightarrow>
      (\<forall>u. write_fits (shared s') (pcs s' u)) \<and> (\<exists>e. shown_event s t Continue s' = Some e \<and> queue_spec (queue_abs s) e (queue_abs s'))"
    and "pcs s t = W_put bs \<Longrightarrow> put_and_return s t bs = Some s' \<Longrightarrow>
      (\<forall>u. write_fits (shared s') (pcs s' u)) \<and> (\<exists>e. shown_event s t Continue s' = Some e \<and> queue_spec (queue_abs s) e (queue_abs s'))"
proof -
  assume r: "reads (pcs s t) = Some (timed, n)" "dq_contents (shared s) \<noteq> []" "take_and_return s t n = Some s'"
  note take = take_step [OF queue_invD(2) [OF inv] r(3)]
  have "\<forall>u. write_fits (shared s') (pcs s' u)" by (rule writers_kept [OF inv own take(2)]) (simp_all add: take(5))
  moreover have "queue_spec (queue_abs s) (Read_returns t timed n (take n (dq_contents (shared s)))
      (int (length (take n (dq_contents (shared s)))))) ((queue_abs s)\<lparr>q_bytes := drop n (q_bytes (queue_abs s))\<rparr>)"
    using r(2) by (intro delivered) (simp_all add: queue_abs_def)
  ultimately show "(\<forall>u. write_fits (shared s') (pcs s' u)) \<and>
      (\<exists>e. shown_event s t Continue s' = Some e \<and> queue_spec (queue_abs s) e (queue_abs s'))"
    using r(1) take by (simp add: queue_abs_def)
next
  assume w: "pcs s t = W_put bs" "put_and_return s t bs = Some s'"
  note put = put_step [OF queue_invD(2) [OF inv] w(2)]
  let ?k = "min (length bs) (dq_capacity (shared s) - length (dq_contents (shared s)))"
  have "\<forall>u. write_fits (shared s') (pcs s' u)" by (rule writers_kept [OF inv own put(2)]) (simp_all add: put(4))
  moreover have "queue_spec (queue_abs s) (Write_returns t bs (int ?k))
      ((queue_abs s)\<lparr>q_bytes := q_bytes (queue_abs s) @ take ?k bs\<rparr>)"
    using queue_invD(3) [OF inv, of t] w(1) by (intro accepted) (simp_all add: queue_abs_def)
  ultimately show "(\<forall>u. write_fits (shared s') (pcs s' u)) \<and>
      (\<exists>e. shown_event s t Continue s' = Some e \<and> queue_spec (queue_abs s) e (queue_abs s'))"
    using w(1) put by (simp add: queue_abs_def)
qed

definition step_ok :: "tstate \<Rightarrow> nat \<Rightarrow> action \<Rightarrow> tstate \<Rightarrow> bool" where
  "step_ok s t a s' \<longleftrightarrow> (\<forall>u. write_fits (shared s') (pcs s' u)) \<and>
     (case shown_event s t a s' of None \<Rightarrow> queue_abs s' = queue_abs s | Some e \<Rightarrow> queue_spec (queue_abs s) e (queue_abs s'))"

lemma silent_step:
  assumes "queue_inv s" and "shared s' = shared s" and "shown_event s t a s' = None"
    and "\<And>u. u \<noteq> t \<Longrightarrow> pcs s' u \<in> {pcs s u, wake_reader (pcs s u), wake_writer (pcs s u), wake_writer (wake_reader (pcs s u))}"
    and "write_fits (shared s) (pcs s' t)"
  shows "step_ok s t a s'"
proof -
  have "write_fits (shared s) (pcs s' u)" for u
    using assms(4) [of u] assms(5) queue_invD(3) [OF assms(1), of u] by (cases "u = t") auto
  then show ?thesis using assms(2,3) by (simp add: step_ok_def queue_abs_def)
qed

fun inside :: "pc \<Rightarrow> bool" where
  "inside (Ready _) = False"
| "inside _ = True"

lemma goto_ok:
  assumes "queue_inv s" and "inside p" and "write_fits (shared s) p"
  shows "step_ok s t Continue (goto s t p)" and "step_ok s t Continue (unlock s t p)"
  by (rule silent_step [OF assms(1)]; use assms(2,3) in \<open>cases p; auto simp: unlock_def goto_def\<close>)+

lemma lock_ok:
  assumes "lock s t p = Some s'" and "queue_inv s" and "inside p" and "write_fits (shared s) p"
  shows "step_ok s t Continue s'"
  by (rule silent_step [OF assms(2)]; use assms(1,3,4) in \<open>cases p; auto simp: lock_def goto_def split: if_splits\<close>)

text \<open>A call that returns an error code leaves the queue alone.\<close>

lemma error_step:
  assumes inv: "queue_inv s" and "queue_spec (queue_abs s) e (queue_abs s)"
    and "shown_event s t Continue (unlock s t (Ready (Some rc))) = Some e"
  shows "step_ok s t Continue (unlock s t (Ready (Some rc)))"
proof -
  let ?s = "unlock s t (Ready (Some rc))"
  have "queue_abs ?s = queue_abs s" by (simp add: queue_abs_def unlock_def goto_def)
  moreover have "\<forall>u. write_fits (shared ?s) (pcs ?s u)"
    using queue_invD(3) [OF inv] by (simp add: unlock_def goto_def)
  ultimately show ?thesis using assms(2,3) by (simp add: step_ok_def)
qed

lemma read_error_ok:
  assumes "queue_inv s" and "reads (pcs s t) = Some (timed, n)" and "dq_contents (shared s) = []"
  shows "\<not> m_connected (shared s) \<Longrightarrow> step_ok s t Continue (unlock s t (Ready (Some eConnectionLost)))"
    and "m_connected (shared s) \<Longrightarrow> timed \<Longrightarrow> step_ok s t Continue (unlock s t (Ready (Some eTimeout)))"
  by (rule error_step [OF assms(1)];
      use assms(2,3) in \<open>force simp: queue_abs_def unlock_def goto_def intro: queue_spec.intros\<close>)+

lemma write_error_ok:
  assumes "queue_inv s" and "writes (pcs s t) = Some bs" and "reads (pcs s t) = None"
  shows "dq_capacity (shared s) < length bs \<Longrightarrow> step_ok s t Continue (unlock s t (Ready (Some eTooBigBuffer)))"
    and "length bs \<le> dq_capacity (shared s) \<Longrightarrow> length (dq_contents (shared s)) = dq_capacity (shared s) \<Longrightarrow>
      \<not> m_connected (shared s) \<Longrightarrow> step_ok s t Continue (unlock s t (Ready (Some eConnectionLost)))"
  by (rule error_step [OF assms(1)];
      use assms(2,3) in \<open>force simp: queue_abs_def unlock_def goto_def intro: queue_spec.intros\<close>)+

lemma take_ok:
  assumes "take_and_return s t n = Some s'" and "queue_inv s" and "holds_mutex (pcs s t)"
    and "reads (pcs s t) = Some (timed, n)" and "dq_contents (shared s) \<noteq> []"
  shows "step_ok s t Continue s'"
  using transfer_step(1) [OF assms(2-5,1)] by (auto simp: step_ok_def simp del: shown_event.simps)

lemma put_ok:
  assumes "put_and_return s t bs = Some s'" and "queue_inv s" and "pcs s t = W_put bs"
  shows "step_ok s t Continue s'"
  using transfer_step(2) [OF assms(2) _ assms(3,1)] assms(3) by (auto simp: step_ok_def simp del: shown_event.simps)

lemma continue_ok:
  assumes inv: "queue_inv s" and step: "continue s t (pcs s t) = Some s'"
  shows "step_ok s t Continue s'"
proof -
  note inv' = queue_invD [OF inv]
  have bounded: "length (dq_contents (shared s)) \<le> dq_capacity (shared s)" using inv'(2) by (rule dq_bounded)
  have w: "write_fits (shared s) (pcs s t)" by (rule inv'(3))
  show ?thesis
  proof (cases "pcs s t")
    case F_notify
    with step show ?thesis
      by (intro silent_step [OF inv]) (auto simp: goto_def)
  qed (use step inv'(2) w bounded in \<open>auto split: if_splits dest: take_ok [OF _ inv] put_ok [OF _ inv] lock_ok [OF _ inv]
      intro: goto_ok [OF inv] read_error_ok [OF inv] write_error_ok [OF inv]\<close>)
qed

lemma act_ok:
  assumes inv: "queue_inv s" and step: "act s t a = Some s'"
  shows "step_ok s t a s'"
proof (cases a)
  case Continue
  with step continue_ok [OF inv] show ?thesis by simp
next
  case (Call_setConnectionFlag c)
  with step have s': "shared s' = (shared s)\<lparr>m_connected := c\<rparr>" "\<And>u. pcs s' u = pcs s u \<or> pcs s' u = F_notify"
    by (auto simp: goto_def split: pc.splits if_splits)
  have "write_fits (shared s') (pcs s' u)" for u
    using s'(2) [of u] writer_ok_cong [OF queue_invD(3) [OF inv, of u], of "shared s'"] by (auto simp: s'(1) dq_defs)
  moreover have "queue_spec (queue_abs s) (Flag_set t c) (queue_abs s')"
    using flagged [of "queue_abs s" t c] by (simp add: queue_abs_def s'(1) dq_defs)
  ultimately show ?thesis by (simp add: step_ok_def Call_setConnectionFlag)
qed (rule silent_step [OF inv];
    use step queue_invD(3) [OF inv, of t] in \<open>force simp: lock_def goto_def split: pc.splits if_splits\<close>)+

lemma queue_step_ok:
  assumes "queue_inv s" and "queue_step s e s'"
  shows "queue_inv s'" and "case e of None \<Rightarrow> queue_abs s' = queue_abs s | Some e \<Rightarrow> queue_spec (queue_abs s) e (queue_abs s')"
proof -
  obtain t a where a: "act s t a = Some s'" "e = shown_event s t a s'" using assms(2) by (auto simp: queue_step_def)
  then show "case e of None \<Rightarrow> queue_abs s' = queue_abs s | Some e \<Rightarrow> queue_spec (queue_abs s) e (queue_abs s')"
    using act_ok [OF assms(1) a(1)] by (simp add: step_ok_def)
  show "queue_inv s'"
    using act_ok [OF assms(1) a(1)] act_inv [OF _ a(1)] assms(1) by (simp add: queue_inv_def step_ok_def)
qed

interpretation queue: refinement queue_step queue_inv queue_spec queue_abs
  by unfold_locales (use queue_step_ok in \<open>fastforce+\<close>)

lemma queue_inv_init: "0 < n \<Longrightarrow> n < 2 ^ 63 \<Longrightarrow> queue_inv (tinit n c)"
  by (simp add: queue_inv_def tinit_inv) (simp add: tinit_def)

lemma act_trace:
  "trace queue_step s es s1 \<Longrightarrow> act s1 t a = Some s2 \<Longrightarrow> trace queue_step s (es @ [shown_event s1 t a s2]) s2"
  by (rule trace_snoc) (auto simp: queue_step_def)

section \<open>Properties\<close>

text \<open>
  C3 (queue_linearizable): a queue shared by threads is an atomic bounded queue. For every interleaving of any number of threads
  that read, read with a timeout, write and set the connection flag, with spurious wake-ups and timeouts, the calls that have returned,
  in the order of their returns and with the values and bytes they returned, are a run of the specification, which ends with the
  bytes and the flag the queue has.
\<close>
theorem queue_linearizable:
  assumes "trace queue_step (tinit bufferSize c) es s" and "0 < bufferSize" and "bufferSize < 2 ^ 63"
  shows "trace queue_spec \<lparr>q_bytes = [], q_open = c, q_capacity = bufferSize - 1\<rparr> (visible es) (queue_abs s)"
proof -
  have "queue_abs (tinit bufferSize c) = \<lparr>q_bytes = [], q_open = c, q_capacity = bufferSize - 1\<rparr>"
    by (simp add: queue_abs_def tinit_def)
  with queue.run_refines [OF assms(1) queue_inv_init [OF assms(2,3)]] show ?thesis by simp
qed

lemma one_write:
  "\<exists>es s. trace queue_step (tinit 65536 True) es s \<and> visible es = [Write_returns 1 [7] 1]"
proof -
  let ?q = "DataQueue_setConnectionFlag (DataQueue 65536) True"
  have q: "dq_inv ?q" "dq_contents ?q = []" "dq_capacity ?q = 65535" by (simp_all add: dq_inv_new)
  obtain q' where put: "DataQueue_put ?q [7] = Inr (q', 1)" using put_spec [OF q(1), of "[7]"] q by auto
  define s1 where "s1 = tinit 65536 True\<lparr>mutex := Some 1, pcs := (pcs (tinit 65536 True))(1 := W_check [7])\<rparr>"
  define s2 where "s2 = goto s1 1 (W_put [7])"
  have a1: "act (tinit 65536 True) 1 (Call_write [7]) = Some s1" by (simp add: s1_def tinit_def lock_def goto_def)
  have a2: "act s1 1 Continue = Some s2" using q by (simp add: s1_def s2_def tinit_def)
  obtain s3 where s3: "put_and_return s2 1 [7] = Some s3" "pcs s3 1 = Ready (Some 1)"
    using put by (simp add: s1_def s2_def tinit_def goto_def put_and_return_def unlock_def)
  then have a3: "act s2 1 Continue = Some s3" using q by (simp add: s1_def s2_def tinit_def goto_def)
  have "shown_event s1 1 Continue s2 = None" "shown_event s2 1 Continue s3 = Some (Write_returns 1 [7] 1)"
    using s3(2) by (simp_all add: s2_def goto_def)
  then show ?thesis using act_trace [OF act_trace [OF act_trace [OF trace_nil a1] a2] a3]
    by (intro exI conjI) (assumption, simp del: shown_event.simps(2))
qed

theorem queue_linearizable_witness:
  "\<exists>q. trace queue_spec \<lparr>q_bytes = [], q_open = True, q_capacity = 65535\<rparr> [Write_returns 1 [7] 1] q"
proof -
  obtain es s where "trace queue_step (tinit 65536 True) es s" "visible es = [Write_returns 1 [7] 1]" using one_write by blast
  with queue_linearizable [of 65536 True es s] show ?thesis by auto
qed

end
