(* ===== verification/NonBlockingRing.thy ===== *)
theory NonBlockingRing
  imports RingBuffer
begin

text \<open>
  The ring buffer of src/common/inproc.cpp in its other configuration (the branch without
  \<^verbatim>\<open>CPPIO_BLOCKING_INPROC\<close>): the two positions are atomic variables, and one thread may read while
  another writes, without a mutex.

  The first part has the operations as functions, for one thread, and shows that they agree with
  those of the blocking configuration. The second part has them as steps of one reader and one
  writer: an operation takes a snapshot of the position of the other side, copies, and
  publishes its own position; between these the other thread can do anything.
\<close>

section \<open>One thread\<close>

function RingBufferNB_read ::
    "ring_buffer \<Rightarrow> nat \<Rightarrow> failure + (ring_buffer \<times> byte list \<times> nat)" where
  "RingBufferNB_read rb buflen =
     (let wrptr = m_wrptr rb; rdptr = m_rdptr rb in
      if wrptr = rdptr then Inr (rb, [], 0)
      else if rdptr < wrptr then
        (let tocopy = min (sz_sub wrptr rdptr) buflen
         in bind_res (mem_read (m_data rb) rdptr tocopy)
              (\<lambda>out. Inr (rb\<lparr>m_rdptr := sz_add (m_rdptr rb) tocopy\<rparr>, out, tocopy)))
      else
        (let tocopy = min (sz_sub (length (m_data rb)) rdptr) buflen
         in bind_res (mem_read (m_data rb) rdptr tocopy)
              (\<lambda>out. let rdptr1 = sz_add rdptr tocopy;
                         rdptr2 = (if rdptr1 = length (m_data rb) then 0 else rdptr1);
                         rb' = rb\<lparr>m_rdptr := rdptr2\<rparr>
                     in if tocopy < buflen then
                          (if wrptr = rdptr2 then Inr (rb', out, tocopy)
                           else if tocopy = 0 then Inr (rb', out, 0)
                           else bind_res (RingBufferNB_read rb' (buflen - tocopy))
                                  (\<lambda>(rb'', out', n). Inr (rb'', out @ out', sz_add tocopy n)))
                        else Inr (rb', out, tocopy))))"
  by pat_completeness auto
termination
  by (relation "measure snd") auto

function RingBufferNB_write ::
    "ring_buffer \<Rightarrow> byte list \<Rightarrow> failure + (ring_buffer \<times> nat)" where
  "RingBufferNB_write rb buffer =
     (let wrptr = m_wrptr rb; rdptr = m_rdptr rb; buflen = length buffer in
      if rdptr \<le> wrptr then
        (let most = min (sz_sub (length (m_data rb)) wrptr) buflen;
             tocopy = (if rdptr = 0 \<and> most = sz_sub (length (m_data rb)) wrptr then sz_sub most 1 else most)
         in bind_res (mem_write (m_data rb) wrptr buffer tocopy)
              (\<lambda>data. let wrptr1 = sz_add wrptr tocopy;
                         wrptr2 = (if wrptr1 = length data then 0 else wrptr1);
                         rb' = rb\<lparr>m_data := data, m_wrptr := wrptr2\<rparr>
                     in if tocopy < buflen then
                          (if rdptr = 0 then Inr (rb', tocopy)
                           else if tocopy = 0 then Inr (rb', 0)
                           else bind_res (RingBufferNB_write rb' (drop tocopy buffer))
                                  (\<lambda>(rb'', n). Inr (rb'', sz_add tocopy n)))
                        else Inr (rb', tocopy)))
      else
        (let tocopy = min (sz_sub (sz_sub rdptr 1) wrptr) buflen
         in bind_res (mem_write (m_data rb) wrptr buffer tocopy)
              (\<lambda>data. Inr (rb\<lparr>m_data := data, m_wrptr := sz_add (m_wrptr rb) tocopy\<rparr>, tocopy))))"
  by pat_completeness auto
termination
  by (relation "measure (\<lambda>(rb, buffer). length buffer)") auto

declare RingBufferNB_read.simps [simp del] RingBufferNB_write.simps [simp del]

definition RingBufferNB_new :: "nat \<Rightarrow> ring_buffer" where
  "RingBufferNB_new bufferSizePower = \<lparr>m_data = replicate bufferSizePower 0, m_wrptr = 0, m_rdptr = 0\<rparr>"

lemma RingBufferNB_new_eq [simp]: "RingBufferNB_new n = RingBuffer n"
  by (simp add: RingBufferNB_new_def RingBuffer_def)

definition RingBufferNB_availableReadSize :: "ring_buffer \<Rightarrow> nat" where
  "RingBufferNB_availableReadSize rb =
     (let wrptr = m_wrptr rb; rdptr = m_rdptr rb in
      if rdptr = wrptr then 0
      else if rdptr < wrptr then sz_sub wrptr rdptr
      else sz_add (sz_sub (length (m_data rb)) rdptr) wrptr)"

definition RingBufferNB_availableWriteSize :: "ring_buffer \<Rightarrow> nat" where
  "RingBufferNB_availableWriteSize rb =
     (let wrptr = m_wrptr rb; rdptr = m_rdptr rb in
      if rdptr = wrptr then sz_sub (length (m_data rb)) 1
      else if rdptr < wrptr then sz_sub (sz_add (sz_sub (length (m_data rb)) wrptr) rdptr) 1
      else sz_sub (sz_sub rdptr wrptr) 1)"

lemma nb_read_eq: "RingBufferNB_read rb n = RingBuffer_read rb n"
proof (induction rb n rule: RingBufferNB_read.induct)
  case (1 rb n)
  show ?case
    by (subst RingBufferNB_read.simps, subst RingBuffer_read.simps, unfold Let_def)
      (intro if_cong refl bind_res_cong, simp_all add: 1)
qed

lemma nb_write_eq: "RingBufferNB_write rb bs = RingBuffer_write rb bs"
proof (induction rb bs rule: RingBufferNB_write.induct)
  case (1 rb bs)
  show ?case
    by (subst RingBufferNB_write.simps, subst RingBuffer_write.simps, unfold Let_def)
      (intro if_cong refl bind_res_cong, simp_all add: 1)
qed

lemma nb_available_eq:
  "RingBufferNB_availableReadSize rb = RingBuffer_availableReadSize rb"
  "RingBufferNB_availableWriteSize rb = RingBuffer_availableWriteSize rb"
  by (simp_all add: RingBufferNB_availableReadSize_def RingBuffer_availableReadSize_def
      RingBufferNB_availableWriteSize_def RingBuffer_availableWriteSize_def Let_def)

section \<open>One reader and one writer\<close>

text \<open>
  The reader: about to take its snapshot (\<open>RCall\<close>, with the bytes still wanted), with the snapshot
  of the write position (\<open>RSnap\<close>), with the bytes copied but its position not yet published
  (\<open>RCopied\<close>). The writer in the same way, with the bytes still to write.
\<close>

datatype rpc = RIdle | RCall nat | RSnap nat nat | RCopied nat nat "byte list"

datatype wpc = WIdle | WCall "byte list" | WSnap "byte list" nat | WCopied "byte list" nat nat

text \<open>\<open>sent\<close> and \<open>received\<close> record what has been published; the code does not have them.\<close>

record spsc =
  ring :: ring_buffer
  reader :: rpc
  writer :: wpc
  sent :: "byte list"
  received :: "byte list"

definition spsc_init :: "nat \<Rightarrow> spsc" where
  "spsc_init n = \<lparr>ring = RingBufferNB_new n, reader = RIdle, writer = WIdle, sent = [], received = []\<rparr>"

text \<open>The number of bytes an operation copies, from the snapshot.\<close>

definition read_count :: "ring_buffer \<Rightarrow> nat \<Rightarrow> nat \<Rightarrow> nat" where
  "read_count rb n w =
     (if m_rdptr rb < w then min (sz_sub w (m_rdptr rb)) n else min (sz_sub (length (m_data rb)) (m_rdptr rb)) n)"

definition write_count :: "ring_buffer \<Rightarrow> nat \<Rightarrow> nat \<Rightarrow> nat" where
  "write_count rb n r =
     (if r \<le> m_wrptr rb then
        (let space = sz_sub (length (m_data rb)) (m_wrptr rb); most = min space n
         in if r = 0 \<and> most = space then sz_sub most 1 else most)
      else min (sz_sub (sz_sub r 1) (m_wrptr rb)) n)"

definition reader_step :: "spsc \<Rightarrow> failure + spsc" where
  "reader_step s =
     (let rb = ring s in
      case reader s of
        RIdle \<Rightarrow> Inr s
      | RCall n \<Rightarrow> Inr (s\<lparr>reader := RSnap n (m_wrptr rb)\<rparr>)
      | RSnap n w \<Rightarrow>
          if w = m_rdptr rb then Inr (s\<lparr>reader := RIdle\<rparr>)
          else bind_res (mem_read (m_data rb) (m_rdptr rb) (read_count rb n w))
                 (\<lambda>out. Inr (s\<lparr>reader := RCopied n w out\<rparr>))
      | RCopied n w out \<Rightarrow>
          let tocopy = length out; rdptr1 = sz_add (m_rdptr rb) tocopy in
          if m_rdptr rb < w then
            Inr (s\<lparr>ring := rb\<lparr>m_rdptr := rdptr1\<rparr>, received := received s @ out, reader := RIdle\<rparr>)
          else
            (let rdptr2 = (if rdptr1 = length (m_data rb) then 0 else rdptr1)
             in Inr (s\<lparr>ring := rb\<lparr>m_rdptr := rdptr2\<rparr>, received := received s @ out,
                       reader := (if tocopy < n \<and> w \<noteq> rdptr2 \<and> tocopy \<noteq> 0 then RCall (n - tocopy) else RIdle)\<rparr>)))"

definition writer_step :: "spsc \<Rightarrow> failure + spsc" where
  "writer_step s =
     (let rb = ring s in
      case writer s of
        WIdle \<Rightarrow> Inr s
      | WCall bs \<Rightarrow> Inr (s\<lparr>writer := WSnap bs (m_rdptr rb)\<rparr>)
      | WSnap bs r \<Rightarrow>
          bind_res (mem_write (m_data rb) (m_wrptr rb) bs (write_count rb (length bs) r))
            (\<lambda>data. Inr (s\<lparr>ring := rb\<lparr>m_data := data\<rparr>,
                            writer := WCopied bs r (write_count rb (length bs) r)\<rparr>))
      | WCopied bs r tocopy \<Rightarrow>
          let wrptr1 = sz_add (m_wrptr rb) tocopy in
          if r \<le> m_wrptr rb then
            (let wrptr2 = (if wrptr1 = length (m_data rb) then 0 else wrptr1)
             in Inr (s\<lparr>ring := rb\<lparr>m_wrptr := wrptr2\<rparr>, sent := sent s @ take tocopy bs,
                       writer := (if tocopy < length bs \<and> r \<noteq> 0 \<and> tocopy \<noteq> 0 then WCall (drop tocopy bs) else WIdle)\<rparr>))
          else
            Inr (s\<lparr>ring := rb\<lparr>m_wrptr := wrptr1\<rparr>, sent := sent s @ take tocopy bs, writer := WIdle\<rparr>))"

inductive spsc_reachable :: "nat \<Rightarrow> spsc \<Rightarrow> bool" for bufferSize where
  start: "spsc_reachable bufferSize (spsc_init bufferSize)"
| begin_read: "spsc_reachable bufferSize s \<Longrightarrow> reader s = RIdle \<Longrightarrow> spsc_reachable bufferSize (s\<lparr>reader := RCall n\<rparr>)"
| begin_write: "spsc_reachable bufferSize s \<Longrightarrow> writer s = WIdle \<Longrightarrow> spsc_reachable bufferSize (s\<lparr>writer := WCall bs\<rparr>)"
| reader_moves: "spsc_reachable bufferSize s \<Longrightarrow> reader_step s = Inr s' \<Longrightarrow> spsc_reachable bufferSize s'"
| writer_moves: "spsc_reachable bufferSize s \<Longrightarrow> writer_step s = Inr s' \<Longrightarrow> spsc_reachable bufferSize s'"

section \<open>A call is a sequence of steps\<close>

text \<open>
  The two views of an operation agree: when the other thread does nothing meanwhile, the steps of a
  call compute what the function computes, its failures included.
\<close>

primrec steps :: "('s \<Rightarrow> failure + 's) \<Rightarrow> nat \<Rightarrow> 's \<Rightarrow> failure + 's" where
  "steps f 0 s = Inr s"
| "steps f (Suc k) s = bind_res (f s) (steps f k)"

lemma steps_Suc:
  assumes "f s = Inr s'" and "\<exists>k. steps f k s' = r"
  shows "\<exists>k. steps f k s = r"
proof -
  from assms(2) obtain k where "steps f k s' = r" ..
  with assms(1) have "steps f (Suc k) s = r" by simp
  then show ?thesis ..
qed

lemma steps_last: "f s = r \<Longrightarrow> \<exists>k. steps f k s = r"
  by (rule exI [of _ 1]) (cases r, simp_all)

lemma steps_done: "\<exists>k. steps f k s = Inr s"
  by (rule exI [of _ 0]) simp

definition read_outcome :: "spsc \<Rightarrow> nat \<Rightarrow> failure + spsc" where
  "read_outcome s n = bind_res (RingBufferNB_read (ring s) n)
     (\<lambda>(rb, out, _). Inr (s\<lparr>ring := rb, received := received s @ out, reader := RIdle\<rparr>))"

definition write_outcome :: "spsc \<Rightarrow> byte list \<Rightarrow> failure + spsc" where
  "write_outcome s bs = bind_res (RingBufferNB_write (ring s) bs)
     (\<lambda>(rb, n). Inr (s\<lparr>ring := rb, sent := sent s @ take n bs, writer := WIdle\<rparr>))"

text \<open>After the snapshot and the copy, an operation either returns or continues with the remaining bytes.\<close>

definition after_read :: "spsc \<Rightarrow> nat \<Rightarrow> nat \<Rightarrow> nat \<Rightarrow> spsc" where
  "after_read s n w k =
     (let rb = ring s; rdptr1 = sz_add (m_rdptr rb) k;
          rdptr2 = (if m_rdptr rb < w then rdptr1 else if rdptr1 = length (m_data rb) then 0 else rdptr1)
      in s\<lparr>ring := rb\<lparr>m_rdptr := rdptr2\<rparr>,
           reader := (if m_rdptr rb < w then RIdle else if k < n \<and> w \<noteq> rdptr2 \<and> k \<noteq> 0 then RCall (n - k) else RIdle)\<rparr>)"

lemma RCopied_step:
  "reader_step (s\<lparr>reader := RCopied n w out\<rparr>) =
   Inr ((after_read s n w (length out))\<lparr>received := received s @ out\<rparr>)"
  by (simp add: reader_step_def after_read_def Let_def)

lemma NB_read_wrap:
  assumes "m_wrptr rb < m_rdptr rb" and "mem_read (m_data rb) (m_rdptr rb) c = Inr out"
    and c: "c = min (sz_sub (length (m_data rb)) (m_rdptr rb)) n"
    and r2: "r2 = (if sz_add (m_rdptr rb) c = length (m_data rb) then 0 else sz_add (m_rdptr rb) c)"
  shows "RingBufferNB_read rb n =
    (if c < n \<and> m_wrptr rb \<noteq> r2 \<and> c \<noteq> 0
     then bind_res (RingBufferNB_read (rb\<lparr>m_rdptr := r2\<rparr>) (n - c))
            (\<lambda>(rb', out', k). Inr (rb', out @ out', sz_add c k))
     else Inr (rb\<lparr>m_rdptr := r2\<rparr>, out, c))"
  using assms(1,2)
  by (subst RingBufferNB_read.simps) (auto simp: Let_def c [symmetric] r2)

lemma read_outcome_copy:
  assumes "m_wrptr (ring s) \<noteq> m_rdptr (ring s)"
    and "mem_read (m_data (ring s)) (m_rdptr (ring s)) (read_count (ring s) n (m_wrptr (ring s))) = Inr out"
    and s': "s' = (after_read s n (m_wrptr (ring s)) (length out))\<lparr>received := received s @ out\<rparr>"
  shows "read_outcome s n = (case reader s' of RCall k \<Rightarrow> read_outcome s' k | _ \<Rightarrow> Inr s')"
proof (cases "m_rdptr (ring s) < m_wrptr (ring s)")
  case True
  with assms mem_read_length [OF assms(2)] show ?thesis
    by (simp add: read_outcome_def RingBufferNB_read.simps read_count_def after_read_def Let_def)
next
  case False
  define c where "c = min (sz_sub (length (m_data (ring s))) (m_rdptr (ring s))) n"
  define r2 where "r2 = (if sz_add (m_rdptr (ring s)) c = length (m_data (ring s)) then 0 else sz_add (m_rdptr (ring s)) c)"
  have rd: "mem_read (m_data (ring s)) (m_rdptr (ring s)) c = Inr out" and len: "length out = c"
    using False assms(2) mem_read_length [OF assms(2)] by (simp_all add: read_count_def c_def)
  have lt: "m_wrptr (ring s) < m_rdptr (ring s)" using False assms(1) by simp
  have "s' = s\<lparr>ring := (ring s)\<lparr>m_rdptr := r2\<rparr>, received := received s @ out,
      reader := (if c < n \<and> m_wrptr (ring s) \<noteq> r2 \<and> c \<noteq> 0 then RCall (n - c) else RIdle)\<rparr>"
    using False by (simp add: s' after_read_def Let_def len r2_def)
  then show ?thesis
    by (simp add: read_outcome_def NB_read_wrap [OF lt rd c_def r2_def] bind_res_assoc case_prod_beta')
qed

lemma reader_call_steps: "\<exists>k. steps reader_step k (s\<lparr>reader := RCall n\<rparr>) = read_outcome s n"
proof (induction n arbitrary: s rule: less_induct)
  case (less n)
  let ?w = "m_wrptr (ring s)" and ?r = "m_rdptr (ring s)"
  let ?snap = "s\<lparr>reader := RSnap n ?w\<rparr>"
  have "\<exists>k. steps reader_step k ?snap = read_outcome s n"
  proof (cases "?w = ?r")
    case True
    then show ?thesis
      by (intro steps_last) (simp add: reader_step_def read_outcome_def RingBufferNB_read.simps Let_def)
  next
    case False
    show ?thesis
    proof (cases "mem_read (m_data (ring s)) ?r (read_count (ring s) n ?w)")
      case (Inl e)
      then have "read_outcome s n = Inl e"
        using False by (simp add: read_outcome_def RingBufferNB_read.simps read_count_def Let_def split: if_splits)
      with Inl False show ?thesis by (intro steps_last) (simp add: reader_step_def Let_def)
    next
      case (Inr out)
      let ?s' = "(after_read s n ?w (length out))\<lparr>received := received s @ out\<rparr>"
      have "\<exists>k. steps reader_step k ?s' = (case reader ?s' of RCall k \<Rightarrow> read_outcome ?s' k | _ \<Rightarrow> Inr ?s')"
      proof (cases "\<exists>k. reader ?s' = RCall k")
        case True
        then obtain k where k: "reader ?s' = RCall k" by blast
        then have "?s'\<lparr>reader := RCall k\<rparr> = ?s'" by simp
        moreover have "k < n" using k by (auto simp: after_read_def Let_def split: if_splits)
        ultimately show ?thesis using less [of k ?s'] k by (simp only: rpc.case)
      qed (auto simp: after_read_def Let_def steps_done split: if_splits)
      then have "\<exists>k. steps reader_step k (s\<lparr>reader := RCopied n ?w out\<rparr>) = read_outcome s n"
        unfolding read_outcome_copy [OF False Inr refl] by (rule steps_Suc [where f = reader_step, OF RCopied_step])
      moreover have "reader_step ?snap = Inr (s\<lparr>reader := RCopied n ?w out\<rparr>)"
        using Inr False by (simp add: reader_step_def Let_def)
      ultimately show ?thesis by (rule steps_Suc [rotated])
    qed
  qed
  moreover have "reader_step (s\<lparr>reader := RCall n\<rparr>) = Inr ?snap" by (simp add: reader_step_def Let_def)
  ultimately show ?case by (rule steps_Suc [rotated])
qed

definition after_write :: "spsc \<Rightarrow> byte list \<Rightarrow> nat \<Rightarrow> nat \<Rightarrow> spsc" where
  "after_write s bs r k =
     (let rb = ring s; wrptr1 = sz_add (m_wrptr rb) k;
          wrptr2 = (if r \<le> m_wrptr rb \<and> wrptr1 = length (m_data rb) then 0 else wrptr1)
      in s\<lparr>ring := rb\<lparr>m_wrptr := wrptr2\<rparr>, sent := sent s @ take k bs,
           writer := (if r \<le> m_wrptr rb \<and> k < length bs \<and> r \<noteq> 0 \<and> k \<noteq> 0 then WCall (drop k bs) else WIdle)\<rparr>)"

lemma WCopied_step: "writer_step (s\<lparr>writer := WCopied bs r k\<rparr>) = Inr (after_write s bs r k)"
  by (simp add: writer_step_def after_write_def Let_def)

lemma NB_write_step:
  assumes w: "mem_write (m_data rb) (m_wrptr rb) bs c = Inr data"
    and c: "c = write_count rb (length bs) (m_rdptr rb)"
    and w2: "w2 = (if m_rdptr rb \<le> m_wrptr rb \<and> sz_add (m_wrptr rb) c = length data then 0 else sz_add (m_wrptr rb) c)"
  shows "RingBufferNB_write rb bs =
    (if m_rdptr rb \<le> m_wrptr rb \<and> c < length bs \<and> m_rdptr rb \<noteq> 0 \<and> c \<noteq> 0
     then bind_res (RingBufferNB_write (rb\<lparr>m_data := data, m_wrptr := w2\<rparr>) (drop c bs))
            (\<lambda>(rb', k). Inr (rb', sz_add c k))
     else Inr (rb\<lparr>m_data := data, m_wrptr := w2\<rparr>, c))"
proof (cases "m_rdptr rb \<le> m_wrptr rb")
  case True
  then have c': "c = (let most = min (sz_sub (length (m_data rb)) (m_wrptr rb)) (length bs)
      in if m_rdptr rb = 0 \<and> most = sz_sub (length (m_data rb)) (m_wrptr rb) then sz_sub most 1 else most)"
    by (simp add: c write_count_def Let_def)
  show ?thesis
    using True w by (subst RingBufferNB_write.simps) (auto simp only: Let_def c' [unfolded Let_def, symmetric] w2 bind_res_simps if_True split: if_split)
next
  case False
  then have c': "c = min (sz_sub (sz_sub (m_rdptr rb) 1) (m_wrptr rb)) (length bs)"
    by (simp add: c write_count_def)
  with False w show ?thesis by (subst RingBufferNB_write.simps) (simp add: Let_def w2)
qed

lemma NB_write_le: "RingBufferNB_write rb bs = Inr (rb', n) \<Longrightarrow> n \<le> length bs"
proof (induction "length bs" arbitrary: rb bs rb' n rule: less_induct)
  case less
  let ?c = "write_count rb (length bs) (m_rdptr rb)"
  show ?case
  proof (cases "mem_write (m_data rb) (m_wrptr rb) bs ?c")
    case (Inl e)
    with less.prems show ?thesis
      by (subst (asm) RingBufferNB_write.simps) (auto simp: write_count_def Let_def split: if_splits)
  next
    case (Inr data)
    then have c: "?c \<le> length bs" by (auto simp: mem_write_def split: if_splits)
    note eq = NB_write_step [OF Inr refl refl]
    show ?thesis
    proof (cases "m_rdptr rb \<le> m_wrptr rb \<and> ?c < length bs \<and> m_rdptr rb \<noteq> 0 \<and> ?c \<noteq> 0")
      case True
      with less.prems eq obtain rb0 k where "RingBufferNB_write rb0 (drop ?c bs) = Inr (rb', k)" "n = sz_add ?c k"
        by auto
      moreover from this have "k \<le> length bs - ?c" using less.hyps [of "drop ?c bs"] True by fastforce
      moreover have "sz_add ?c k \<le> ?c + k" by (simp add: sz_add_def)
      ultimately show ?thesis using c by linarith
    next
      case False
      with less.prems eq c show ?thesis by auto
    qed
  qed
qed

lemma write_outcome_copy:
  assumes w: "mem_write (m_data (ring s)) (m_wrptr (ring s)) bs c = Inr data" and "length bs < size_modulus"
    and c: "c = write_count (ring s) (length bs) (m_rdptr (ring s))"
    and s': "s' = after_write (s\<lparr>ring := (ring s)\<lparr>m_data := data\<rparr>\<rparr>) bs (m_rdptr (ring s)) c"
  shows "write_outcome s bs = (case writer s' of WCall bs' \<Rightarrow> write_outcome s' bs' | _ \<Rightarrow> Inr s')"
proof (cases "m_rdptr (ring s) \<le> m_wrptr (ring s) \<and> c < length bs \<and> m_rdptr (ring s) \<noteq> 0 \<and> c \<noteq> 0")
  case True
  define w2 where "w2 = (if m_rdptr (ring s) \<le> m_wrptr (ring s) \<and> sz_add (m_wrptr (ring s)) c = length data
    then 0 else sz_add (m_wrptr (ring s)) c)"
  let ?rb = "(ring s)\<lparr>m_data := data, m_wrptr := w2\<rparr>"
  have sz: "take (sz_add c k) bs = take c bs @ take k (drop c bs)" if "RingBufferNB_write ?rb (drop c bs) = Inr (rb', k)" for rb' k
  proof -
    have "c + k < size_modulus" using NB_write_le [OF that] assms(2) True unfolding length_drop by linarith
    then show ?thesis by (simp add: sz_add_small take_add)
  qed
  have "s' = s\<lparr>ring := ?rb, sent := sent s @ take c bs, writer := WCall (drop c bs)\<rparr>"
    using True by (simp add: s' after_write_def Let_def w2_def)
  moreover have "write_outcome s bs = bind_res (RingBufferNB_write ?rb (drop c bs))
      (\<lambda>(rb', k). Inr (s\<lparr>ring := rb', sent := sent s @ take (sz_add c k) bs, writer := WIdle\<rparr>))"
    using True by (simp add: write_outcome_def NB_write_step [OF w c w2_def] bind_res_assoc case_prod_beta')
  ultimately show ?thesis by (auto simp: write_outcome_def sz intro!: bind_res_cong)
next
  case False
  then show ?thesis
    by (auto simp: write_outcome_def NB_write_step [OF w c refl] s' after_write_def Let_def)
qed

lemma writer_call_steps:
  "length bs < size_modulus \<Longrightarrow> \<exists>k. steps writer_step k (s\<lparr>writer := WCall bs\<rparr>) = write_outcome s bs"
proof (induction "length bs" arbitrary: bs s rule: less_induct)
  case less
  let ?r = "m_rdptr (ring s)" and ?c = "write_count (ring s) (length bs) (m_rdptr (ring s))"
  let ?snap = "s\<lparr>writer := WSnap bs ?r\<rparr>"
  have "\<exists>k. steps writer_step k ?snap = write_outcome s bs"
  proof (cases "mem_write (m_data (ring s)) (m_wrptr (ring s)) bs ?c")
    case (Inl e)
    then have "write_outcome s bs = Inl e"
      by (auto simp: write_outcome_def RingBufferNB_write.simps write_count_def Let_def split: if_splits)
    with Inl show ?thesis by (intro steps_last) (simp add: writer_step_def Let_def)
  next
    case (Inr data)
    let ?t = "s\<lparr>ring := (ring s)\<lparr>m_data := data\<rparr>\<rparr>"
    let ?s' = "after_write ?t bs ?r ?c"
    have "\<exists>k. steps writer_step k ?s' = (case writer ?s' of WCall bs' \<Rightarrow> write_outcome ?s' bs' | _ \<Rightarrow> Inr ?s')"
    proof (cases "\<exists>bs'. writer ?s' = WCall bs'")
      case True
      then obtain bs' where bs': "writer ?s' = WCall bs'" by blast
      then have same: "?s'\<lparr>writer := WCall bs'\<rparr> = ?s'" by simp
      have lt: "length bs' < length bs" using bs' by (auto simp: after_write_def Let_def split: if_splits)
      with less.prems have "length bs' < size_modulus" by simp
      from less.hyps [OF lt this, of ?s'] show ?thesis by (simp only: same bs' wpc.case)
    qed (auto simp: after_write_def Let_def steps_done split: if_splits)
    then have "\<exists>k. steps writer_step k (?t\<lparr>writer := WCopied bs ?r ?c\<rparr>) = write_outcome s bs"
      unfolding write_outcome_copy [OF Inr less.prems refl refl]
      by (rule steps_Suc [where f = writer_step, OF WCopied_step])
    moreover have "writer_step ?snap = Inr (?t\<lparr>writer := WCopied bs ?r ?c\<rparr>)"
      using Inr by (simp add: writer_step_def Let_def)
    ultimately show ?thesis by (rule steps_Suc [rotated])
  qed
  moreover have "writer_step (s\<lparr>writer := WCall bs\<rparr>) = Inr ?snap" by (simp add: writer_step_def Let_def)
  ultimately show ?case by (rule steps_Suc [rotated])
qed

section \<open>Invariant\<close>

text \<open>
  Byte number \<open>i\<close> of the stream is in cell \<open>i mod N\<close>. The positions are the numbers of the bytes
  read and written so far, modulo the size; a snapshot is such a number from some moment before.
\<close>

lemma mod_advance:
  assumes "0 < (N :: nat)" and "R mod N + k \<le> N"
  shows "(R + k) mod N = (if R mod N + k = N then 0 else R mod N + k)"
proof -
  have "(R + k) mod N = (R mod N + k) mod N" by (simp add: mod_simps)
  with assms show ?thesis by simp
qed

lemma mod_dist:
  assumes "0 < (N :: nat)" and "R \<le> V" and "V - R < N"
  shows "V - R = (if R mod N \<le> V mod N then V mod N - R mod N else N - R mod N + V mod N)"
proof -
  define d where "d = V - R"
  have V: "V = R + d" and d: "d < N" using assms by (simp_all add: d_def)
  have "R mod N < N" using assms(1) by simp
  have "V mod N = (R mod N + d) mod N" by (simp add: V mod_simps)
  moreover have "R mod N + d - N < N" using d \<open>R mod N < N\<close> by linarith
  then have "(R mod N + d - N) mod N = R mod N + d - N" by simp
  ultimately have "V mod N = (if R mod N + d < N then R mod N + d else R mod N + d - N)"
    by (simp add: mod_if [of "R mod N + d" N])
  then show ?thesis using d \<open>R mod N < N\<close> by (auto simp: V)
qed

lemma mod_distinct:
  assumes "0 < (N :: nat)" and "a < b" and "b < a + N"
  shows "a mod N \<noteq> b mod N"
proof -
  have "b - a < N" using assms(2,3) by linarith
  from mod_dist [OF assms(1) less_imp_le [OF assms(2)] this] assms(2) show ?thesis by auto
qed

definition cells_ok :: "spsc \<Rightarrow> bool" where
  "cells_ok s \<longleftrightarrow> (\<forall>i. length (received s) \<le> i \<and> i < length (sent s) \<longrightarrow>
     m_data (ring s) ! (i mod length (m_data (ring s))) = sent s ! i)"

definition positions_ok :: "spsc \<Rightarrow> bool" where
  "positions_ok s \<longleftrightarrow>
     (let N = length (m_data (ring s)); R = length (received s); W = length (sent s) in
      0 < N \<and> N < size_modulus \<and> R \<le> W \<and> W - R < N \<and> received s = take R (sent s) \<and>
      m_rdptr (ring s) = R mod N \<and> m_wrptr (ring s) = W mod N)"

definition reader_ok :: "spsc \<Rightarrow> bool" where
  "reader_ok s \<longleftrightarrow>
     (let N = length (m_data (ring s)); R = length (received s); W = length (sent s) in
      case reader s of
        RSnap n w \<Rightarrow> \<exists>V. R \<le> V \<and> V \<le> W \<and> w = V mod N
      | RCopied n w out \<Rightarrow>
          R + length out \<le> W \<and> out = take (length out) (drop R (sent s)) \<and> length out \<le> n \<and>
          (if R mod N < w then R mod N + length out < N else R mod N + length out \<le> N)
      | _ \<Rightarrow> True)"

definition writer_ok :: "spsc \<Rightarrow> bool" where
  "writer_ok s \<longleftrightarrow>
     (let N = length (m_data (ring s)); R = length (received s); W = length (sent s) in
      case writer s of
        WSnap bs r \<Rightarrow> \<exists>Q. Q \<le> R \<and> W - Q < N \<and> r = Q mod N
      | WCopied bs r k \<Rightarrow>
          k \<le> length bs \<and> W + k - R < N \<and>
          (if r \<le> W mod N then W mod N + k \<le> N else W mod N + k < N) \<and>
          (\<forall>j < k. m_data (ring s) ! ((W + j) mod N) = bs ! j)
      | _ \<Rightarrow> True)"

definition spsc_inv :: "spsc \<Rightarrow> bool" where
  "spsc_inv s \<longleftrightarrow> positions_ok s \<and> cells_ok s \<and> reader_ok s \<and> writer_ok s"

lemmas spsc_inv_defs = spsc_inv_def positions_ok_def cells_ok_def reader_ok_def writer_ok_def

lemma reader_frame [simp]:
  "positions_ok (s\<lparr>reader := r\<rparr>) = positions_ok s" "cells_ok (s\<lparr>reader := r\<rparr>) = cells_ok s"
  "writer_ok (s\<lparr>reader := r\<rparr>) = writer_ok s"
  by (simp_all add: positions_ok_def cells_ok_def writer_ok_def Let_def split: wpc.splits)

lemma writer_frame [simp]:
  "positions_ok (s\<lparr>writer := w\<rparr>) = positions_ok s" "cells_ok (s\<lparr>writer := w\<rparr>) = cells_ok s"
  "reader_ok (s\<lparr>writer := w\<rparr>) = reader_ok s"
  by (simp_all add: positions_ok_def cells_ok_def reader_ok_def Let_def split: rpc.splits)

lemma spsc_init_inv: "0 < n \<Longrightarrow> n < size_modulus \<Longrightarrow> spsc_inv (spsc_init n)"
  by (simp add: spsc_inv_defs spsc_init_def RingBuffer_def)

text \<open>A snapshot of the write position: how many bytes may be copied.\<close>

lemma read_count_bounds:
  assumes "spsc_inv s" and "reader s = RSnap n w" and "w \<noteq> m_rdptr (ring s)"
  shows "length (received s) + read_count (ring s) n w \<le> length (sent s)"
    and "read_count (ring s) n w \<le> n"
    and "if m_rdptr (ring s) < w then m_rdptr (ring s) + read_count (ring s) n w < length (m_data (ring s))
         else m_rdptr (ring s) + read_count (ring s) n w \<le> length (m_data (ring s))"
proof -
  let ?N = "length (m_data (ring s))" and ?R = "length (received s)" and ?rd = "m_rdptr (ring s)"
  obtain V where V: "?R \<le> V" "V \<le> length (sent s)" "w = V mod ?N"
    using assms(1,2) by (auto simp: spsc_inv_defs Let_def)
  have p: "0 < ?N" "?N < size_modulus" "length (sent s) - ?R < ?N" "?rd = ?R mod ?N"
    using assms(1) by (simp_all add: spsc_inv_defs Let_def)
  then have lt: "?rd < ?N" "w < ?N" using V(3) by simp_all
  have "V - ?R < ?N" using V p by linarith
  then have dist: "V - ?R = (if ?rd \<le> w then w - ?rd else ?N - ?rd + w)"
    using mod_dist [OF p(1) V(1)] p(4) V(3) by simp
  have sub: "?rd < w \<Longrightarrow> sz_sub w ?rd = w - ?rd" "sz_sub ?N ?rd = ?N - ?rd"
    using lt p(2) by (simp_all add: size_arith)
  show "?R + read_count (ring s) n w \<le> length (sent s)"
    using dist sub V assms(3) lt by (auto simp: read_count_def split: if_splits)
  show "read_count (ring s) n w \<le> n" by (simp add: read_count_def)
  show "if ?rd < w then ?rd + read_count (ring s) n w < ?N else ?rd + read_count (ring s) n w \<le> ?N"
    using sub lt by (auto simp: read_count_def)
qed

lemma write_count_bounds:
  assumes "spsc_inv s" and "writer s = WSnap bs r"
  shows "length (sent s) + write_count (ring s) (length bs) r - length (received s) < length (m_data (ring s))"
    and "write_count (ring s) (length bs) r \<le> length bs"
    and "if r \<le> m_wrptr (ring s) then m_wrptr (ring s) + write_count (ring s) (length bs) r \<le> length (m_data (ring s))
         else m_wrptr (ring s) + write_count (ring s) (length bs) r < length (m_data (ring s))"
proof -
  let ?N = "length (m_data (ring s))" and ?R = "length (received s)" and ?W = "length (sent s)"
    and ?wr = "m_wrptr (ring s)" and ?k = "write_count (ring s) (length bs) r"
  obtain Q where Q: "Q \<le> ?R" "?W - Q < ?N" "r = Q mod ?N"
    using assms by (auto simp: spsc_inv_defs Let_def)
  have p: "0 < ?N" "?N < size_modulus" "?R \<le> ?W" "?wr = ?W mod ?N"
    using assms(1) by (simp_all add: spsc_inv_defs Let_def)
  then have lt: "?wr < ?N" "r < ?N" using Q(3) by simp_all
  have QW: "Q \<le> ?W" using Q(1) p(3) by linarith
  have dist: "?W - Q = (if r \<le> ?wr then ?wr - r else ?N - r + ?wr)"
    using mod_dist [OF p(1) QW Q(2)] p(4) Q(3) by simp
  have sub: "sz_sub ?N ?wr = ?N - ?wr" "0 < r \<Longrightarrow> sz_sub r 1 = r - 1"
    "?wr < r \<Longrightarrow> sz_sub (sz_sub r 1) ?wr = r - 1 - ?wr" "sz_sub (?N - ?wr) 1 = ?N - ?wr - 1"
    using lt p(2) by (simp_all add: size_arith)
  have k: "?k = (if r \<le> ?wr then (if r = 0 \<and> ?N - ?wr \<le> length bs then ?N - ?wr - 1 else min (?N - ?wr) (length bs))
      else min (r - 1 - ?wr) (length bs))"
    using sub by (auto simp: write_count_def Let_def min_def)
  show "?W + ?k - ?R < ?N" using dist k QW Q(1) p(3) lt by (auto split: if_splits)
  show "?k \<le> length bs" using k by auto
  show "if r \<le> ?wr then ?wr + ?k \<le> ?N else ?wr + ?k < ?N" using k lt by auto
qed

text \<open>The cells an operation copies from or into, in terms of the numbers of the bytes.\<close>

lemma cell_number:
  assumes "0 < (N :: nat)" and "R mod N + k \<le> N" and "j < k"
  shows "(R + j) mod N = R mod N + j"
  using mod_advance [of N R j] assms by simp

lemma read_copy:
  assumes inv: "spsc_inv s" and "length (received s) + k \<le> length (sent s)"
    and "m_rdptr (ring s) + k \<le> length (m_data (ring s))"
  shows "mem_read (m_data (ring s)) (m_rdptr (ring s)) k = Inr (take k (drop (length (received s)) (sent s)))"
proof -
  let ?N = "length (m_data (ring s))" and ?R = "length (received s)"
  have p: "0 < ?N" "m_rdptr (ring s) = ?R mod ?N" using inv by (simp_all add: spsc_inv_defs Let_def)
  have "m_data (ring s) ! (m_rdptr (ring s) + j) = sent s ! (?R + j)" if "j < k" for j
  proof -
    have "?R \<le> ?R + j" "?R + j < length (sent s)" using that assms(2) by simp_all
    then have "m_data (ring s) ! ((?R + j) mod ?N) = sent s ! (?R + j)"
      using inv unfolding spsc_inv_def cells_ok_def by blast
    then show ?thesis using cell_number [OF p(1) _ that, of ?R] assms(3) p(2) by simp
  qed
  then have "take k (drop (m_rdptr (ring s)) (m_data (ring s))) = take k (drop ?R (sent s))"
    using assms(2,3) by (intro nth_equalityI) simp_all
  with assms(3) show ?thesis by (simp add: mem_read_def)
qed

lemma writer_ok_advance:
  assumes "writer_ok s"
  shows "writer_ok (s\<lparr>ring := (ring s)\<lparr>m_rdptr := p\<rparr>, received := received s @ out\<rparr>)"
proof (cases "writer s")
  case (WSnap bs r)
  with assms obtain Q where "Q \<le> length (received s)" "length (sent s) - Q < length (m_data (ring s))"
    "r = Q mod length (m_data (ring s))"
    by (auto simp: writer_ok_def Let_def)
  with WSnap show ?thesis by (auto simp: writer_ok_def Let_def intro!: exI [of _ Q])
qed (use assms in \<open>auto simp: writer_ok_def Let_def\<close>)

text \<open>The step that stores the new read position.\<close>

lemma reader_publish:
  assumes inv: "spsc_inv s" and RCopied: "reader s = RCopied n w out"
  shows "\<exists>s'. reader_step s = Inr s' \<and> spsc_inv s'"
proof -
  let ?N = "length (m_data (ring s))" and ?R = "length (received s)"
  have p: "0 < ?N" "?N < size_modulus" "m_rdptr (ring s) = ?R mod ?N" "received s = take ?R (sent s)"
    using inv by (simp_all add: spsc_inv_defs Let_def)
  have c: "?R + length out \<le> length (sent s)" "out = take (length out) (drop ?R (sent s))"
    "if ?R mod ?N < w then ?R mod ?N + length out < ?N else ?R mod ?N + length out \<le> ?N"
    using inv RCopied by (simp_all add: spsc_inv_defs Let_def)
  then have le: "?R mod ?N + length out \<le> ?N" by (simp split: if_splits)
  let ?rd = "(?R + length out) mod ?N"
  have rd: "?rd = (if ?R mod ?N + length out = ?N then 0 else ?R mod ?N + length out)"
    using mod_advance [OF p(1) le] .
  have "sz_add (?R mod ?N) (length out) = ?R mod ?N + length out" using le p(2) by (simp add: size_arith)
  then have "\<exists>r. reader_step s = Inr (s\<lparr>ring := (ring s)\<lparr>m_rdptr := ?rd\<rparr>, received := received s @ out, reader := r\<rparr>) \<and>
      (r = RIdle \<or> (\<exists>n. r = RCall n))"
    using RCopied c(3) rd p(3) by (cases "?R mod ?N < w"; simp add: reader_step_def Let_def; blast)
  then obtain r where r: "reader_step s = Inr (s\<lparr>ring := (ring s)\<lparr>m_rdptr := ?rd\<rparr>, received := received s @ out, reader := r\<rparr>)"
    "r = RIdle \<or> (\<exists>n. r = RCall n)" by blast
  have "received s @ out = take (?R + length out) (sent s)" using c(2) p(4) by (metis take_add)
  let ?s = "s\<lparr>ring := (ring s)\<lparr>m_rdptr := ?rd\<rparr>, received := received s @ out\<rparr>"
  have "positions_ok ?s"
    using inv c(1) \<open>received s @ out = _\<close> by (auto simp: spsc_inv_def positions_ok_def Let_def)
  moreover have "cells_ok ?s" using inv by (simp add: spsc_inv_def cells_ok_def)
  moreover have "writer_ok ?s" using inv by (intro writer_ok_advance) (simp_all add: spsc_inv_def)
  moreover have "reader_ok (?s\<lparr>reader := r\<rparr>)" using r(2) by (auto simp: reader_ok_def Let_def)
  ultimately have "spsc_inv (?s\<lparr>reader := r\<rparr>)" by (simp add: spsc_inv_def)
  with r(1) show ?thesis by simp
qed

lemma reader_step_inv:
  assumes inv: "spsc_inv s"
  shows "\<exists>s'. reader_step s = Inr s' \<and> spsc_inv s'"
proof (cases "reader s")
  case RIdle
  with inv show ?thesis by (simp add: reader_step_def Let_def)
next
  case (RCall n)
  have "reader_ok (s\<lparr>reader := RSnap n (m_wrptr (ring s))\<rparr>)"
    using inv by (auto simp: spsc_inv_def positions_ok_def reader_ok_def Let_def)
  with RCall inv show ?thesis by (simp add: reader_step_def spsc_inv_def Let_def)
next
  case (RSnap n w)
  show ?thesis
  proof (cases "w = m_rdptr (ring s)")
    case True
    moreover have "reader_ok (s\<lparr>reader := RIdle\<rparr>)" by (simp add: reader_ok_def Let_def)
    ultimately show ?thesis using RSnap inv by (simp add: reader_step_def spsc_inv_def Let_def)
  next
    case False
    note b = read_count_bounds [OF inv RSnap False]
    let ?k = "read_count (ring s) n w"
    let ?out = "take ?k (drop (length (received s)) (sent s))"
    have len: "length ?out = ?k" using b(1) by simp
    have "m_rdptr (ring s) + ?k \<le> length (m_data (ring s))" using b(3) by (simp split: if_splits)
    from read_copy [OF inv b(1) this] RSnap False
    have "reader_step s = Inr (s\<lparr>reader := RCopied n w ?out\<rparr>)" by (simp add: reader_step_def Let_def)
    moreover have rd: "m_rdptr (ring s) = length (received s) mod length (m_data (ring s))"
      using inv by (simp add: spsc_inv_def positions_ok_def Let_def)
    have "reader_ok (s\<lparr>reader := RCopied n w ?out\<rparr>)"
      using b(1,2) b(3) [unfolded rd] len by (simp add: reader_ok_def Let_def)
    then have "spsc_inv (s\<lparr>reader := RCopied n w ?out\<rparr>)" using inv by (simp add: spsc_inv_def)
    ultimately show ?thesis by blast
  qed
next
  case (RCopied n w out)
  with inv show ?thesis by (rule reader_publish)
qed

lemma write_copy:
  assumes inv: "spsc_inv s" and k: "length (sent s) + k - length (received s) < length (m_data (ring s))"
    and "k \<le> length bs" and "m_wrptr (ring s) + k \<le> length (m_data (ring s))"
  shows "\<exists>data. mem_write (m_data (ring s)) (m_wrptr (ring s)) bs k = Inr data \<and>
     length data = length (m_data (ring s)) \<and> cells_ok (s\<lparr>ring := (ring s)\<lparr>m_data := data\<rparr>\<rparr>) \<and>
     (\<forall>j < k. data ! ((length (sent s) + j) mod length (m_data (ring s))) = bs ! j)"
proof -
  let ?N = "length (m_data (ring s))" and ?R = "length (received s)" and ?W = "length (sent s)" and ?wr = "m_wrptr (ring s)"
  let ?data = "take ?wr (m_data (ring s)) @ take k bs @ drop (?wr + k) (m_data (ring s))"
  have p: "0 < ?N" "?R \<le> ?W" "?wr = ?W mod ?N" using inv by (simp_all add: spsc_inv_defs Let_def)
  have number: "(?W + j) mod ?N = ?wr + j" if "j < k" for j
    using cell_number [OF p(1) _ that, of ?W] assms(4) p(3) by simp
  have new: "?data ! ((?W + j) mod ?N) = bs ! j" if "j < k" for j
    unfolding number [OF that] using that assms(3,4) by (simp add: nth_append min_def)
  have old: "?data ! x = m_data (ring s) ! x" if "x < ?wr \<or> ?wr + k \<le> x" "x < ?N" for x
    using that assms(3,4) by (auto simp: nth_append min_def)
  have "?data ! (i mod ?N) = sent s ! i" if i: "?R \<le> i" "i < ?W" for i
  proof -
    have "i mod ?N \<noteq> ?wr + j" if "j < k" for j
      using mod_distinct [OF p(1), of i "?W + j"] number [OF that] i k that by simp
    then have "i mod ?N < ?wr \<or> ?wr + k \<le> i mod ?N"
      by (metis add_diff_inverse_nat less_diff_conv2 linorder_not_le nat_add_left_cancel_less)
    moreover have "i mod ?N < ?N" using p(1) by simp
    ultimately have "?data ! (i mod ?N) = m_data (ring s) ! (i mod ?N)" by (rule old)
    then show ?thesis using inv i unfolding spsc_inv_def cells_ok_def by simp
  qed
  moreover have "mem_write (m_data (ring s)) ?wr bs k = Inr ?data" "length ?data = ?N"
    using assms(3,4) by (simp_all add: mem_write_def)
  ultimately show ?thesis using new by (intro exI [of _ ?data]) (simp add: cells_ok_def)
qed

text \<open>The step that stores the new write position.\<close>

lemma writer_publish:
  assumes inv: "spsc_inv s" and WCopied: "writer s = WCopied bs r k"
  shows "\<exists>s'. writer_step s = Inr s' \<and> spsc_inv s'"
proof -
  let ?N = "length (m_data (ring s))" and ?R = "length (received s)" and ?W = "length (sent s)"
  have p: "0 < ?N" "?N < size_modulus" "m_wrptr (ring s) = ?W mod ?N" "received s = take ?R (sent s)" "?R \<le> ?W"
    using inv by (simp_all add: spsc_inv_defs Let_def)
  have c: "k \<le> length bs" "?W + k - ?R < ?N" "\<forall>j < k. m_data (ring s) ! ((?W + j) mod ?N) = bs ! j"
    "if r \<le> ?W mod ?N then ?W mod ?N + k \<le> ?N else ?W mod ?N + k < ?N"
    using inv WCopied by (simp_all add: spsc_inv_defs Let_def)
  then have le: "?W mod ?N + k \<le> ?N" by (simp split: if_splits)
  let ?wr = "(?W + k) mod ?N"
  have wr: "?wr = (if ?W mod ?N + k = ?N then 0 else ?W mod ?N + k)" using mod_advance [OF p(1) le] .
  have "sz_add (?W mod ?N) k = ?W mod ?N + k" using le p(2) by (simp add: size_arith)
  then have "\<exists>w. writer_step s = Inr (s\<lparr>ring := (ring s)\<lparr>m_wrptr := ?wr\<rparr>, sent := sent s @ take k bs, writer := w\<rparr>) \<and>
      (w = WIdle \<or> (\<exists>bs. w = WCall bs))"
    using WCopied c(4) wr p(3) by (cases "r \<le> ?W mod ?N"; simp add: writer_step_def Let_def; blast)
  then obtain w where w: "writer_step s = Inr (s\<lparr>ring := (ring s)\<lparr>m_wrptr := ?wr\<rparr>, sent := sent s @ take k bs, writer := w\<rparr>)"
    "w = WIdle \<or> (\<exists>bs. w = WCall bs)" by blast
  let ?s = "s\<lparr>ring := (ring s)\<lparr>m_wrptr := ?wr\<rparr>, sent := sent s @ take k bs\<rparr>"
  have "positions_ok ?s" using inv c(1,2) by (simp add: spsc_inv_def positions_ok_def Let_def)
  moreover have "reader_ok ?s"
    using inv by (auto simp: spsc_inv_def reader_ok_def Let_def split: rpc.splits)
  moreover have "m_data (ring s) ! (i mod ?N) = (sent s @ take k bs) ! i" if "?R \<le> i" "i < ?W + k" for i
  proof (cases "i < ?W")
    case True
    with that inv show ?thesis by (simp add: spsc_inv_def cells_ok_def nth_append)
  next
    case False
    with that c(1) c(3) [rule_format, of "i - ?W"] show ?thesis by (simp add: nth_append)
  qed
  then have "cells_ok ?s" using c(1) by (simp add: cells_ok_def)
  moreover have "writer_ok (?s\<lparr>writer := w\<rparr>)" using w(2) by (auto simp: writer_ok_def Let_def)
  ultimately have "spsc_inv (?s\<lparr>writer := w\<rparr>)" by (simp add: spsc_inv_def)
  then show ?thesis using w(1) by simp
qed

lemma writer_step_inv:
  assumes inv: "spsc_inv s"
  shows "\<exists>s'. writer_step s = Inr s' \<and> spsc_inv s'"
proof (cases "writer s")
  case WIdle
  with inv show ?thesis by (simp add: writer_step_def Let_def)
next
  case (WCall bs)
  have "writer_ok (s\<lparr>writer := WSnap bs (m_rdptr (ring s))\<rparr>)"
    using inv by (auto simp: spsc_inv_def positions_ok_def writer_ok_def Let_def)
  with WCall inv show ?thesis by (simp add: writer_step_def spsc_inv_def Let_def)
next
  case (WSnap bs r)
  note b = write_count_bounds [OF inv WSnap]
  let ?k = "write_count (ring s) (length bs) r"
  have "m_wrptr (ring s) + ?k \<le> length (m_data (ring s))" using b(3) by (simp split: if_splits)
  from write_copy [OF inv b(1,2) this] obtain data where
    data: "mem_write (m_data (ring s)) (m_wrptr (ring s)) bs ?k = Inr data" "length data = length (m_data (ring s))"
    "cells_ok (s\<lparr>ring := (ring s)\<lparr>m_data := data\<rparr>\<rparr>)"
    "\<forall>j < ?k. data ! ((length (sent s) + j) mod length (m_data (ring s))) = bs ! j"
    by blast
  let ?s = "s\<lparr>ring := (ring s)\<lparr>m_data := data\<rparr>\<rparr>"
  have wr: "m_wrptr (ring s) = length (sent s) mod length (m_data (ring s))"
    using inv by (simp add: spsc_inv_def positions_ok_def Let_def)
  have "positions_ok ?s" "reader_ok ?s"
    using inv data(2) by (simp_all add: spsc_inv_def positions_ok_def reader_ok_def Let_def split: rpc.splits)
  moreover have "writer_ok (?s\<lparr>writer := WCopied bs r ?k\<rparr>)"
    using b(1,2) b(3) [unfolded wr] data(2,4) by (simp add: writer_ok_def Let_def)
  ultimately have "spsc_inv (?s\<lparr>writer := WCopied bs r ?k\<rparr>)" using data(3) by (simp add: spsc_inv_def)
  then show ?thesis using WSnap data(1) by (simp add: writer_step_def Let_def)
next
  case (WCopied bs r k)
  with inv show ?thesis by (rule writer_publish)
qed

lemma spsc_reachable_inv:
  "spsc_reachable n s \<Longrightarrow> 0 < n \<Longrightarrow> n < size_modulus \<Longrightarrow> spsc_inv s"
proof (induction rule: spsc_reachable.induct)
  case start
  then show ?case by (rule spsc_init_inv)
next
  case (begin_read s n)
  then show ?case by (simp add: spsc_inv_def) (simp add: reader_ok_def Let_def)
next
  case (begin_write s bs)
  then show ?case by (simp add: spsc_inv_def) (simp add: writer_ok_def Let_def)
next
  case (reader_moves s s')
  then show ?case using reader_step_inv [of s] by auto
next
  case (writer_moves s s')
  then show ?case using writer_step_inv [of s] by auto
qed

lemma interval_disjoint:
  assumes "\<And>a b. a < k \<Longrightarrow> b < l \<Longrightarrow> x + a \<noteq> y + (b :: nat)"
  shows "{x ..< x + k} \<inter> {y ..< y + l} = {}"
proof -
  have False if "x \<le> z" "z < x + k" "y \<le> z" "z < y + l" for z
  proof -
    have "z - x < k" "z - y < l" using that by linarith+
    from assms [OF this] that show False by simp
  qed
  then show ?thesis by fastforce
qed

lemma copies_disjoint:
  assumes inv: "spsc_inv s" and r: "reader s = RSnap n w" "w \<noteq> m_rdptr (ring s)" and w: "writer s = WSnap bs q"
  shows "{m_rdptr (ring s) ..< m_rdptr (ring s) + read_count (ring s) n w} \<inter>
         {m_wrptr (ring s) ..< m_wrptr (ring s) + write_count (ring s) (length bs) q} = {}"
proof (rule interval_disjoint)
  fix a b
  assume a: "a < read_count (ring s) n w" and b: "b < write_count (ring s) (length bs) q"
  let ?N = "length (m_data (ring s))" and ?R = "length (received s)" and ?W = "length (sent s)"
  have p: "0 < ?N" "m_rdptr (ring s) = ?R mod ?N" "m_wrptr (ring s) = ?W mod ?N"
    using inv by (simp_all add: spsc_inv_def positions_ok_def Let_def)
  note rb = read_count_bounds [OF inv r] and wb = write_count_bounds [OF inv w]
  have "?R mod ?N + read_count (ring s) n w \<le> ?N" using rb(3) p(2) by (simp split: if_splits)
  then have "(?R + a) mod ?N = m_rdptr (ring s) + a" using cell_number [OF p(1) _ a] p(2) by simp
  moreover have "?W mod ?N + write_count (ring s) (length bs) q \<le> ?N" using wb(3) p(3) by (simp split: if_splits)
  then have "(?W + b) mod ?N = m_wrptr (ring s) + b" using cell_number [OF p(1) _ b] p(3) by simp
  moreover have "?R + a < ?W + b" "?W + b < ?R + a + ?N" using a b rb(1) wb(1) by linarith+
  then have "(?R + a) mod ?N \<noteq> (?W + b) mod ?N" by (rule mod_distinct [OF p(1)])
  ultimately show "m_rdptr (ring s) + a \<noteq> m_wrptr (ring s) + b" by simp
qed

section \<open>Properties\<close>

text \<open>
  C20 (one_reader_one_writer): one thread that reads and one that writes may use the non-blocking ring buffer without a
  lock. However their steps interleave, what has been read is a prefix of what has been written, no
  access leaves the array, and when both are about to copy, the cells the reader copies from and
  those the writer copies into are disjoint.
\<close>
theorem one_reader_one_writer:
  assumes "spsc_reachable bufferSize s" and "0 < bufferSize" and "bufferSize < size_modulus"
  shows "received s = take (length (received s)) (sent s) \<and>
    (\<exists>s'. reader_step s = Inr s') \<and> (\<exists>s'. writer_step s = Inr s') \<and>
    (reader s = RSnap n w \<and> w \<noteq> m_rdptr (ring s) \<and> writer s = WSnap bs r \<longrightarrow>
      {m_rdptr (ring s) ..< m_rdptr (ring s) + read_count (ring s) n w} \<inter>
      {m_wrptr (ring s) ..< m_wrptr (ring s) + write_count (ring s) (length bs) r} = {})"
proof -
  have inv: "spsc_inv s" using assms by (rule spsc_reachable_inv)
  have "received s = take (length (received s)) (sent s)" using inv by (simp add: spsc_inv_def positions_ok_def Let_def)
  then show ?thesis using reader_step_inv [OF inv] writer_step_inv [OF inv] copies_disjoint [OF inv] by blast
qed

text \<open>Two bytes are in the buffer; the reader is about to copy them out and the writer to copy a third one in.\<close>

theorem one_reader_one_writer_witness:
  "\<exists>s. spsc_reachable 4 s \<and> reader s = RSnap 9 2 \<and> writer s = WSnap [3] 0 \<and> sent s = [1, 2] \<and>
     received s = take (length (received s)) (sent s) \<and> (\<exists>s'. reader_step s = Inr s') \<and> (\<exists>s'. writer_step s = Inr s') \<and>
     {m_rdptr (ring s) ..< m_rdptr (ring s) + read_count (ring s) 9 2} \<inter>
     {m_wrptr (ring s) ..< m_wrptr (ring s) + write_count (ring s) (length [3 :: byte]) 0} = {}"
proof -
  let ?state = "\<lambda>data wr rd w out. \<lparr>ring = \<lparr>m_data = data, m_wrptr = wr, m_rdptr = 0\<rparr>, reader = rd, writer = w, sent = out,
    received = []\<rparr> :: spsc"
  have "RingBuffer 4 = \<lparr>m_data = [0, 0, 0, 0], m_wrptr = 0, m_rdptr = 0\<rparr>" by (simp add: RingBuffer_def numeral_eq_Suc)
  then have "spsc_reachable 4 (?state [0, 0, 0, 0] 0 RIdle WIdle [])"
    using spsc_reachable.start [of 4] by (simp add: spsc_init_def)
  from spsc_reachable.begin_write [OF this, of "[1, 2]"]
  have "spsc_reachable 4 (?state [0, 0, 0, 0] 0 RIdle (WCall [1, 2]) [])" by simp
  from spsc_reachable.writer_moves [OF this, of "?state [0, 0, 0, 0] 0 RIdle (WSnap [1, 2] 0) []"]
  have "spsc_reachable 4 (?state [0, 0, 0, 0] 0 RIdle (WSnap [1, 2] 0) [])" by (simp add: writer_step_def)
  from spsc_reachable.writer_moves [OF this, of "?state [1, 2, 0, 0] 0 RIdle (WCopied [1, 2] 0 2) []"]
  have "spsc_reachable 4 (?state [1, 2, 0, 0] 0 RIdle (WCopied [1, 2] 0 2) [])"
    by (simp add: writer_step_def write_count_def size_arith size_modulus_def mem_write_def)
  from spsc_reachable.writer_moves [OF this, of "?state [1, 2, 0, 0] 2 RIdle WIdle [1, 2]"]
  have "spsc_reachable 4 (?state [1, 2, 0, 0] 2 RIdle WIdle [1, 2])"
    by (simp add: writer_step_def size_arith size_modulus_def)
  from spsc_reachable.begin_write [OF this, of "[3]"]
  have "spsc_reachable 4 (?state [1, 2, 0, 0] 2 RIdle (WCall [3]) [1, 2])" by simp
  from spsc_reachable.writer_moves [OF this, of "?state [1, 2, 0, 0] 2 RIdle (WSnap [3] 0) [1, 2]"]
  have "spsc_reachable 4 (?state [1, 2, 0, 0] 2 RIdle (WSnap [3] 0) [1, 2])" by (simp add: writer_step_def)
  from spsc_reachable.begin_read [OF this, of 9]
  have "spsc_reachable 4 (?state [1, 2, 0, 0] 2 (RCall 9) (WSnap [3] 0) [1, 2])" by simp
  from spsc_reachable.reader_moves [OF this, of "?state [1, 2, 0, 0] 2 (RSnap 9 2) (WSnap [3] 0) [1, 2]"]
  have reach: "spsc_reachable 4 (?state [1, 2, 0, 0] 2 (RSnap 9 2) (WSnap [3] 0) [1, 2])" by (simp add: reader_step_def)
  have "0 < (4 :: nat)" "4 < size_modulus" by (simp_all add: size_modulus_def)
  from one_reader_one_writer [OF reach this, of 9 2 "[3]" 0] reach show ?thesis
    by (intro exI [of _ "?state [1, 2, 0, 0] 2 (RSnap 9 2) (WSnap [3] 0) [1, 2]"]) simp
qed

text \<open>
  The steps of a call of \<^verbatim>\<open>read\<close> or \<^verbatim>\<open>write\<close>, when the other thread does nothing meanwhile,
  come to an end and compute exactly what the call computes on the ring buffer, from every state, failures
  included; the bytes recorded as received or sent are those the call returns or accepts.
\<close>
lemma calls_are_steps:
  assumes "length bs < size_modulus"
  shows "(\<exists>k. steps reader_step k (s\<lparr>reader := RCall n\<rparr>) =
       bind_res (RingBufferNB_read (ring s) n)
         (\<lambda>(rb, out, _). Inr (s\<lparr>ring := rb, received := received s @ out, reader := RIdle\<rparr>))) \<and>
    (\<exists>k. steps writer_step k (s\<lparr>writer := WCall bs\<rparr>) =
       bind_res (RingBufferNB_write (ring s) bs)
         (\<lambda>(rb, m). Inr (s\<lparr>ring := rb, sent := sent s @ take m bs, writer := WIdle\<rparr>)))"
  using reader_call_steps [where s = s and n = n] writer_call_steps [OF assms, where s = s]
  by (simp add: read_outcome_def write_outcome_def)

end
