(* ===== verification/RingLinear.thy ===== *)
theory RingLinear
  imports NonBlockingRing Machines
begin

text \<open>
  The non-blocking ring buffer of src/common/inproc.cpp as its two users see it: a queue of bytes that the writer
  appends to and the reader takes from in one step each. A byte enters the queue when the writer stores its
  position and leaves it when the reader stores its own; everything else the two do in between, the snapshots and the copies,
  is not visible.
\<close>

section \<open>Specification\<close>

datatype ring_event = Pushed "byte list" | Popped "byte list"

record fifo =
  fifo_bytes :: "byte list"
  fifo_capacity :: nat

inductive fifo_spec :: "fifo \<Rightarrow> ring_event \<Rightarrow> fifo \<Rightarrow> bool" where
  pushed: "length (fifo_bytes q) + length bs \<le> fifo_capacity q \<Longrightarrow>
     fifo_spec q (Pushed bs) (q\<lparr>fifo_bytes := fifo_bytes q @ bs\<rparr>)"
| popped: "fifo_bytes q = out @ rest \<Longrightarrow> fifo_spec q (Popped out) (q\<lparr>fifo_bytes := rest\<rparr>)"

section \<open>The steps and what they show\<close>

fun reader_event :: "rpc \<Rightarrow> ring_event option" where
  "reader_event (RCopied n w out) = Some (Popped out)"
| "reader_event _ = None"

fun writer_event :: "wpc \<Rightarrow> ring_event option" where
  "writer_event (WCopied bs r k) = Some (Pushed (take k bs))"
| "writer_event _ = None"

inductive ring_step :: "spsc \<Rightarrow> ring_event option \<Rightarrow> spsc \<Rightarrow> bool" where
  read_called: "reader s = RIdle \<Longrightarrow> ring_step s None (s\<lparr>reader := RCall n\<rparr>)"
| write_called: "writer s = WIdle \<Longrightarrow> ring_step s None (s\<lparr>writer := WCall bs\<rparr>)"
| reader_goes: "reader_step s = Inr s' \<Longrightarrow> ring_step s (reader_event (reader s)) s'"
| writer_goes: "writer_step s = Inr s' \<Longrightarrow> ring_step s (writer_event (writer s)) s'"

definition ring_abs :: "spsc \<Rightarrow> fifo" where
  "ring_abs s = \<lparr>fifo_bytes = drop (length (received s)) (sent s), fifo_capacity = length (m_data (ring s)) - 1\<rparr>"

lemma reader_step_shows:
  assumes "reader_step s = Inr s'"
  shows "sent s' = sent s" and "length (m_data (ring s')) = length (m_data (ring s))"
    and "received s' = received s @ (case reader_event (reader s) of Some (Popped out) \<Rightarrow> out | _ \<Rightarrow> [])"
  using assms by (auto simp: reader_step_def Let_def split: rpc.splits if_splits)

lemma writer_step_shows:
  assumes "writer_step s = Inr s'"
  shows "received s' = received s" and "length (m_data (ring s')) = length (m_data (ring s))"
    and "sent s' = sent s @ (case writer_event (writer s) of Some (Pushed bs) \<Rightarrow> bs | _ \<Rightarrow> [])"
  using assms by (auto simp: writer_step_def Let_def dest: mem_write_length split: wpc.splits if_splits)

lemma ring_step_inv:
  assumes "spsc_inv s" and "ring_step s e s'"
  shows "spsc_inv s'"
  using assms(2)
proof cases
  case (read_called n)
  with assms(1) show ?thesis by (simp add: spsc_inv_def) (simp add: reader_ok_def Let_def)
next
  case (write_called bs)
  with assms(1) show ?thesis by (simp add: spsc_inv_def) (simp add: writer_ok_def Let_def)
next
  case reader_goes
  with reader_step_inv [OF assms(1)] show ?thesis by auto
next
  case writer_goes
  with writer_step_inv [OF assms(1)] show ?thesis by auto
qed

lemma ring_step_abs:
  assumes "spsc_inv s" and "ring_step s e s'"
  shows "case e of None \<Rightarrow> ring_abs s' = ring_abs s | Some ev \<Rightarrow> fifo_spec (ring_abs s) ev (ring_abs s')"
  using assms(2)
proof cases
  case reader_goes
  note shown = reader_step_shows [OF reader_goes(2)]
  show ?thesis
  proof (cases "reader s")
    case (RCopied n w out)
    have "out = take (length out) (drop (length (received s)) (sent s))"
      using assms(1) RCopied by (simp add: spsc_inv_def reader_ok_def Let_def)
    then have "fifo_bytes (ring_abs s) = out @ drop (length (received s) + length out) (sent s)"
      by (metis append_take_drop_id drop_drop add.commute ring_abs_def fifo.select_convs(1))
    from popped [OF this] show ?thesis using shown RCopied reader_goes(1) by (simp add: ring_abs_def)
  qed (use shown reader_goes(1) in \<open>simp_all add: ring_abs_def\<close>)
next
  case writer_goes
  note shown = writer_step_shows [OF writer_goes(2)]
  show ?thesis
  proof (cases "writer s")
    case (WCopied bs r k)
    have k: "k \<le> length bs" "length (sent s) + k - length (received s) < length (m_data (ring s))"
      "length (received s) \<le> length (sent s)"
      using assms(1) WCopied by (simp_all add: spsc_inv_def writer_ok_def positions_ok_def Let_def)
    then have "length (fifo_bytes (ring_abs s)) + length (take k bs) \<le> fifo_capacity (ring_abs s)"
      by (simp add: ring_abs_def)
    from pushed [OF this] show ?thesis using shown WCopied writer_goes(1) k(3) by (simp add: ring_abs_def)
  qed (use shown writer_goes(1) in \<open>simp_all add: ring_abs_def\<close>)
qed (simp_all add: ring_abs_def)

interpretation lock_free: refinement ring_step spsc_inv fifo_spec ring_abs
proof unfold_locales
  show "spsc_inv s' " if "spsc_inv s" "ring_step s e s'" for s e s' using that by (rule ring_step_inv)
  show "ring_abs s' = ring_abs s" if "spsc_inv s" "ring_step s None s'" for s s' using ring_step_abs [OF that] by simp
  show "fifo_spec (ring_abs s) e (ring_abs s')" if "spsc_inv s" "ring_step s (Some e) s'" for s e s'
    using ring_step_abs [OF that] by simp
qed

section \<open>Properties\<close>

text \<open>
  C16 (ring_lock_free_fifo): without a lock, one reader and one writer see a queue. However the steps of the two
  interleave, the bytes published by the writer and those taken by the reader, in the order of the stores to the two
  positions, are a run of the queue of one byte less than the array, which ends with the bytes that are in the
  ring buffer.
\<close>
theorem ring_lock_free_fifo:
  assumes "trace ring_step (spsc_init bufferSize) es s" and "0 < bufferSize" and "bufferSize < size_modulus"
  shows "trace fifo_spec \<lparr>fifo_bytes = [], fifo_capacity = bufferSize - 1\<rparr> (visible es) (ring_abs s)"
proof -
  have "ring_abs (spsc_init bufferSize) = \<lparr>fifo_bytes = [], fifo_capacity = bufferSize - 1\<rparr>"
    by (simp add: ring_abs_def spsc_init_def RingBuffer_def)
  with lock_free.run_refines [OF assms(1) spsc_init_inv [OF assms(2,3)]] show ?thesis by simp
qed

lemma one_push:
  "\<exists>es s. trace ring_step (spsc_init 4) es s \<and> visible es = [Pushed [7]]"
proof -
  define s1 where "s1 = spsc_init 4\<lparr>writer := WCall [7]\<rparr>"
  define s2 where "s2 = s1\<lparr>writer := WSnap [7] 0\<rparr>"
  define s3 where "s3 = s2\<lparr>ring := (ring s2)\<lparr>m_data := [7, 0, 0, 0]\<rparr>, writer := WCopied [7] 0 1\<rparr>"
  note defs = s1_def s2_def s3_def spsc_init_def RingBuffer_def writer_step_def
  have a1: "ring_step (spsc_init 4) None s1" unfolding s1_def by (rule write_called) (simp add: spsc_init_def)
  have a2: "writer_step s1 = Inr s2" by (simp add: defs)
  have "write_count (ring s2) 1 0 = 1"
    by (simp add: defs write_count_def sz_sub_def size_modulus_def)
  then have a3: "writer_step s2 = Inr s3" by (simp add: defs mem_write_def numeral_eq_Suc)
  obtain s4 where a4: "writer_step s3 = Inr s4" by (simp add: defs Let_def)
  have "trace ring_step (spsc_init 4) [None] s1" using a1 by (rule trace_single)
  then have "trace ring_step (spsc_init 4) ([None] @ [writer_event (writer s1)]) s2" using writer_goes [OF a2] by (rule trace_snoc)
  then have "trace ring_step (spsc_init 4) (([None] @ [writer_event (writer s1)]) @ [writer_event (writer s2)]) s3"
    using writer_goes [OF a3] by (rule trace_snoc)
  from trace_snoc [OF this writer_goes [OF a4]] show ?thesis
    by (intro exI conjI) (assumption, simp add: s1_def s2_def s3_def)
qed

theorem ring_lock_free_fifo_witness:
  "\<exists>q. trace fifo_spec \<lparr>fifo_bytes = [], fifo_capacity = 3\<rparr> [Pushed [7]] q"
proof -
  obtain es s where "trace ring_step (spsc_init 4) es s" "visible es = [Pushed [7]]" using one_push by blast
  with ring_lock_free_fifo [of 4 es s] show ?thesis by (auto simp: size_modulus_def)
qed

end
