(* ===== verification/SelectPoller.thy ===== *)
theory SelectPoller
  imports PosixSocket
begin

unbundle bit_operations_syntax

text \<open>
  The class \<^verbatim>\<open>SelectPoller\<close> of src/common/select_poller.cpp with the event flags of
  include/cppio/poller.h: a list of pollable objects with the events asked for, and a call of
  \<^verbatim>\<open>select\<close> that fills a table of the events that occurred.

  A pollable object is a number. \<^verbatim>\<open>getNativeHandle\<close> is a virtual function: \<open>handle p\<close> is the
  descriptor its result points to, \<open>None\<close> a null pointer. \<^verbatim>\<open>select\<close> is a parameter.
\<close>

section \<open>Events\<close>

type_synonym LineEvent = "32 word"

definition LineEvent_None :: LineEvent where "LineEvent_None = 0"
definition LineEvent_Read :: LineEvent where "LineEvent_Read = 1"
definition LineEvent_Write :: LineEvent where "LineEvent_Write = 2"
definition LineEvent_Error :: LineEvent where "LineEvent_Error = 4"

text \<open>The operators on events; an assignment is given by the value it stores, which is also the one it returns.\<close>

definition LineEvent_or :: "LineEvent \<Rightarrow> LineEvent \<Rightarrow> LineEvent" where
  "LineEvent_or lhs rhs = lhs OR rhs"

definition LineEvent_or_assign :: "LineEvent \<Rightarrow> LineEvent \<Rightarrow> LineEvent" where
  "LineEvent_or_assign lhs rhs = lhs OR rhs"

definition LineEvent_and :: "LineEvent \<Rightarrow> LineEvent \<Rightarrow> LineEvent" where
  "LineEvent_and lhs rhs = lhs AND rhs"

definition LineEvent_and_assign :: "LineEvent \<Rightarrow> LineEvent \<Rightarrow> LineEvent" where
  "LineEvent_and_assign lhs rhs = lhs AND rhs"

lemmas LineEvent_ops [simp] = LineEvent_or_def LineEvent_or_assign_def LineEvent_and_def LineEvent_and_assign_def

lemmas LineEvent_defs = LineEvent_None_def LineEvent_Read_def LineEvent_Write_def LineEvent_Error_def

section \<open>The class\<close>

record SelectPoller =
  m_pollables :: "(nat \<times> LineEvent) list"
  m_readfds :: "int set"
  m_writefds :: "int set"
  m_errorfds :: "int set"
  m_events :: "nat \<rightharpoonup> LineEvent"

definition SelectPoller_new :: SelectPoller where
  "SelectPoller_new = \<lparr>m_pollables = [], m_readfds = {}, m_writefds = {}, m_errorfds = {}, m_events = Map.empty\<rparr>"

text \<open>\<^verbatim>\<open>getNativeHandle\<close> of the class \<^verbatim>\<open>Pollable\<close>, for objects whose class does not override it.\<close>

definition Pollable_getNativeHandle :: "nat \<Rightarrow> int option" where
  "Pollable_getNativeHandle line = None"

definition SelectPoller_addLine ::
    "(nat \<Rightarrow> int option) \<Rightarrow> SelectPoller \<Rightarrow> nat \<Rightarrow> LineEvent \<Rightarrow> failure + SelectPoller" where
  "SelectPoller_addLine handle p line events =
     (if handle line = None then Inl (Throw (LineIsNotPollable ''''))
      else Inr (p\<lparr>m_pollables := m_pollables p @ [(line, events)]\<rparr>))"

fun erase_line :: "(nat \<times> LineEvent) list \<Rightarrow> nat \<Rightarrow> (nat \<times> LineEvent) list" where
  "erase_line [] line = []"
| "erase_line (other # rest) line = (if fst other = line then rest else other # erase_line rest line)"

definition SelectPoller_removeLine :: "SelectPoller \<Rightarrow> nat \<Rightarrow> SelectPoller" where
  "SelectPoller_removeLine p line = p\<lparr>m_pollables := erase_line (m_pollables p) line\<rparr>"

text \<open>\<^verbatim>\<open>FD_SET\<close> and \<^verbatim>\<open>FD_ISSET\<close> are defined for descriptors below \<^verbatim>\<open>FD_SETSIZE\<close>.\<close>

definition FD_SETSIZE :: int where
  "FD_SETSIZE = 1024"

definition FD_SET :: "int \<Rightarrow> int set \<Rightarrow> failure + int set" where
  "FD_SET fd fds = (if 0 \<le> fd \<and> fd < FD_SETSIZE then Inr (insert fd fds) else Inl (Undefined OutOfBounds))"

definition set_if :: "bool \<Rightarrow> int \<Rightarrow> int set \<Rightarrow> failure + int set" where
  "set_if b fd fds = (if b then FD_SET fd fds else Inr fds)"

text \<open>The loop that fills the three sets; \<open>max_fd\<close> is the largest descriptor so far.\<close>

fun fill_sets ::
    "(nat \<Rightarrow> int option) \<Rightarrow> (nat \<times> LineEvent) list \<Rightarrow> int set \<Rightarrow> int set \<Rightarrow> int set \<Rightarrow> int \<Rightarrow>
     failure + (int set \<times> int set \<times> int set \<times> int)" where
  "fill_sets handle [] rs ws es max_fd = Inr (rs, ws, es, max_fd)"
| "fill_sets handle ((line, events) # rest) rs ws es max_fd =
     (case handle line of
        None \<Rightarrow> Inl (Undefined NullPointer)
      | Some fd \<Rightarrow>
          bind_res (set_if (LineEvent_and events LineEvent_Read \<noteq> LineEvent_None) fd rs) (\<lambda>rs'.
          bind_res (set_if (LineEvent_and events LineEvent_Write \<noteq> LineEvent_None) fd ws) (\<lambda>ws'.
          bind_res (set_if (LineEvent_and events LineEvent_Error \<noteq> LineEvent_None) fd es) (\<lambda>es'.
            fill_sets handle rest rs' ws' es' (if fd > max_fd then fd else max_fd)))))"

definition or_if :: "bool \<Rightarrow> LineEvent \<Rightarrow> LineEvent \<Rightarrow> LineEvent" where
  "or_if b e events = (if b then LineEvent_or_assign events e else events)"

text \<open>The loop that fills \<^verbatim>\<open>m_events\<close>.\<close>

fun collect_events ::
    "(nat \<Rightarrow> int option) \<Rightarrow> int set \<Rightarrow> int set \<Rightarrow> int set \<Rightarrow> (nat \<times> LineEvent) list \<Rightarrow> (nat \<rightharpoonup> LineEvent) \<Rightarrow>
     failure + (nat \<rightharpoonup> LineEvent)" where
  "collect_events handle rs ws es [] m = Inr m"
| "collect_events handle rs ws es ((line, _) # rest) m =
     (case handle line of
        None \<Rightarrow> Inl (Undefined NullPointer)
      | Some fd \<Rightarrow>
          if 0 \<le> fd \<and> fd < FD_SETSIZE then
            collect_events handle rs ws es rest
              (m(line \<mapsto> or_if (fd \<in> es) LineEvent_Error (or_if (fd \<in> ws) LineEvent_Write
                         (or_if (fd \<in> rs) LineEvent_Read LineEvent_None))))
          else Inl (Undefined OutOfBounds))"

text \<open>
  The timeout is split by \<^verbatim>\<open>duration_cast\<close>, which truncates, so as in \<open>timeval_of\<close>.
  \<open>select nfds (readfds, writefds, errorfds) tv\<close> returns the three sets after the call, its
  result and the value of \<^verbatim>\<open>errno\<close>.
\<close>

type_synonym fd_sets = "int set \<times> int set \<times> int set"
type_synonym select_call = "int \<Rightarrow> fd_sets \<Rightarrow> timeval \<Rightarrow> fd_sets \<times> int \<times> int"

definition SelectPoller_poll ::
    "(nat \<Rightarrow> int option) \<Rightarrow> select_call \<Rightarrow> SelectPoller \<Rightarrow> int \<Rightarrow> SelectPoller \<times> (failure + bool)" where
  "SelectPoller_poll handle select p timeout =
     (case fill_sets handle (m_pollables p) {} {} {} 0 of
        Inl e \<Rightarrow> (p, Inl e)
      | Inr (rs, ws, es, max_fd) \<Rightarrow>
          let ((rs', ws', es'), result, errno) = select (max_fd + 1) (rs, ws, es) (timeval_of timeout);
              p' = p\<lparr>m_readfds := rs', m_writefds := ws', m_errorfds := es', m_events := Map.empty\<rparr>
          in if result < 0 then (p', Inl (Throw (IoException (''Polling error, errno = '' @ to_string errno))))
             else if result > 0 then
               (case collect_events handle rs' ws' es' (m_pollables p) Map.empty of
                  Inl e \<Rightarrow> (p', Inl e)
                | Inr m \<Rightarrow> (p'\<lparr>m_events := m\<rparr>, Inr True))
             else (p', Inr False))"

definition SelectPoller_eventsForLine :: "SelectPoller \<Rightarrow> nat \<Rightarrow> LineEvent" where
  "SelectPoller_eventsForLine p line = (case m_events p line of Some e \<Rightarrow> e | None \<Rightarrow> LineEvent_None)"

section \<open>Lemmas\<close>

text \<open>The flags of a line as one expression.\<close>

definition flag_if :: "bool \<Rightarrow> LineEvent \<Rightarrow> LineEvent" where
  "flag_if b e = (if b then e else LineEvent_None)"

lemma or_if_flags:
  "or_if c LineEvent_Error (or_if b LineEvent_Write (or_if a LineEvent_Read LineEvent_None)) =
     flag_if a LineEvent_Read OR flag_if b LineEvent_Write OR flag_if c LineEvent_Error"
  by (simp add: or_if_def flag_if_def LineEvent_None_def or.assoc)

text \<open>The descriptors that have asked for an event.\<close>

definition interested :: "(nat \<Rightarrow> int option) \<Rightarrow> (nat \<times> LineEvent) list \<Rightarrow> LineEvent \<Rightarrow> int set" where
  "interested handle ps flag = {fd. \<exists>line events. (line, events) \<in> set ps \<and> handle line = Some fd \<and> events AND flag \<noteq> 0}"

definition pollable :: "(nat \<Rightarrow> int option) \<Rightarrow> (nat \<times> LineEvent) list \<Rightarrow> bool" where
  "pollable handle ps \<longleftrightarrow> (\<forall>(line, _) \<in> set ps. \<exists>fd. handle line = Some fd \<and> 0 \<le> fd \<and> fd < FD_SETSIZE)"

lemma interested_Cons:
  "handle line = Some fd \<Longrightarrow>
   interested handle ((line, events) # ps) flag =
     (if events AND flag \<noteq> 0 then insert fd (interested handle ps flag) else interested handle ps flag)"
  by (auto simp: interested_def)

lemma interested_Nil [simp]: "interested handle [] flag = {}"
  by (simp add: interested_def)

lemma fill_sets_eq:
  "pollable handle ps \<Longrightarrow> 0 \<le> max_fd \<Longrightarrow>
   \<exists>m. fill_sets handle ps rs ws es max_fd =
     Inr (rs \<union> interested handle ps LineEvent_Read, ws \<union> interested handle ps LineEvent_Write,
          es \<union> interested handle ps LineEvent_Error, m) \<and>
     max_fd \<le> m \<and> (\<forall>(line, _) \<in> set ps. \<forall>fd. handle line = Some fd \<longrightarrow> fd \<le> m)"
proof (induction ps arbitrary: rs ws es max_fd)
  case (Cons p ps)
  obtain line events where p: "p = (line, events)" by (cases p)
  with Cons.prems obtain fd where fd: "handle line = Some fd" "0 \<le> fd" "fd < FD_SETSIZE" "pollable handle ps"
    by (auto simp: pollable_def)
  let ?m = "if fd > max_fd then fd else max_fd"
  let ?add = "\<lambda>flag fds. if events AND flag \<noteq> 0 then insert fd fds else fds"
  have add: "set_if (events AND flag \<noteq> LineEvent_None) fd fds = Inr (?add flag fds)"
    "?add flag fds \<union> interested handle ps flag = fds \<union> interested handle (p # ps) flag" for flag fds
    using fd(1-3) p by (auto simp: set_if_def FD_SET_def interested_Cons LineEvent_None_def)
  have "0 \<le> ?m" using Cons.prems(2) by simp
  from Cons.IH [OF fd(4) this, of "?add LineEvent_Read rs" "?add LineEvent_Write ws" "?add LineEvent_Error es"]
  obtain m where m: "fill_sets handle ps (?add LineEvent_Read rs) (?add LineEvent_Write ws) (?add LineEvent_Error es) ?m =
      Inr (rs \<union> interested handle (p # ps) LineEvent_Read, ws \<union> interested handle (p # ps) LineEvent_Write,
           es \<union> interested handle (p # ps) LineEvent_Error, m)"
    "?m \<le> m" "\<forall>(line, _) \<in> set ps. \<forall>fd. handle line = Some fd \<longrightarrow> fd \<le> m"
    unfolding add(2) by (elim exE conjE)
  have "fill_sets handle (p # ps) rs ws es max_fd =
      fill_sets handle ps (?add LineEvent_Read rs) (?add LineEvent_Write ws) (?add LineEvent_Error es) ?m"
    using fd(1) by (simp only: p fill_sets.simps option.case LineEvent_and_def add(1) bind_res_simps)
  with m fd(1) p show ?case by (intro exI [of _ m]) (auto split: if_splits)
qed simp

lemma collect_events_eq:
  "pollable handle ps \<Longrightarrow>
   \<exists>m'. collect_events handle rs ws es ps m = Inr m' \<and>
     (\<forall>line. m' line =
        (if line \<in> fst ` set ps
         then Some (flag_if (the (handle line) \<in> rs) LineEvent_Read OR flag_if (the (handle line) \<in> ws) LineEvent_Write OR
                    flag_if (the (handle line) \<in> es) LineEvent_Error)
         else m line))"
proof (induction ps arbitrary: m)
  case (Cons p ps)
  obtain line events where p: "p = (line, events)" by (cases p)
  with Cons.prems obtain fd where fd: "handle line = Some fd" "0 \<le> fd" "fd < FD_SETSIZE" "pollable handle ps"
    by (auto simp: pollable_def)
  from Cons.IH [OF fd(4)] fd(1-3) show ?case unfolding p by (fastforce simp: or_if_flags)
qed simp

lemma erase_line_added: "line \<notin> fst ` set ps \<Longrightarrow> erase_line (ps @ [(line, events)]) line = ps"
  by (induction ps) auto

text \<open>
  No class of the library overrides \<^verbatim>\<open>getNativeHandle\<close>: the poller refuses all of its lines and acceptors, so it
  never has any, and a \<^verbatim>\<open>poll\<close> reports no event.
\<close>

lemma library_lines_refused:
  "SelectPoller_addLine Pollable_getNativeHandle p line events = Inl (Throw (LineIsNotPollable ''''))"
  "m_pollables p = [] \<Longrightarrow>
   SelectPoller_eventsForLine (fst (SelectPoller_poll Pollable_getNativeHandle select p timeout)) line = LineEvent_None"
  by (auto simp: SelectPoller_addLine_def Pollable_getNativeHandle_def SelectPoller_poll_def SelectPoller_eventsForLine_def
      Let_def split: prod.splits)

text \<open>What \<^verbatim>\<open>select\<close> promises: it leaves in each set only descriptors that were in it.\<close>

definition only_clears :: "select_call \<Rightarrow> bool" where
  "only_clears select \<longleftrightarrow> (\<forall>n rs ws es tv rs' ws' es' r e.
     select n (rs, ws, es) tv = ((rs', ws', es'), r, e) \<longrightarrow> rs' \<subseteq> rs \<and> ws' \<subseteq> ws \<and> es' \<subseteq> es)"

lemma flag_bits:
  "(flag_if a LineEvent_Read OR flag_if b LineEvent_Write OR flag_if c LineEvent_Error) AND LineEvent_Read \<noteq> 0 \<longleftrightarrow> a"
  "(flag_if a LineEvent_Read OR flag_if b LineEvent_Write OR flag_if c LineEvent_Error) AND LineEvent_Write \<noteq> 0 \<longleftrightarrow> b"
  "(flag_if a LineEvent_Read OR flag_if b LineEvent_Write OR flag_if c LineEvent_Error) AND LineEvent_Error \<noteq> 0 \<longleftrightarrow> c"
  by (cases a; cases b; cases c; simp add: flag_if_def LineEvent_defs)+

section \<open>Properties\<close>

text \<open>
  C37 (poll_reports_requested): when every line has a descriptor below \<^verbatim>\<open>FD_SETSIZE\<close> and no two lines share one, a
  \<^verbatim>\<open>poll\<close> whose \<^verbatim>\<open>select\<close> succeeds with a positive result returns true, \<^verbatim>\<open>eventsForLine\<close> then reports for
  each line exactly the events the kernel left in the sets, all of them events the line was added
  with, and no event for a line that is not polled.
\<close>
theorem poll_reports_requested:
  assumes "pollable handle (m_pollables p)" and "only_clears select"
    and "\<forall>a \<in> set (m_pollables p). \<forall>b \<in> set (m_pollables p). handle (fst a) = handle (fst b) \<longrightarrow> a = b"
    and "\<And>n rs ws es tv. 0 < fst (snd (select n (rs, ws, es) tv))"
  shows "\<exists>p'. SelectPoller_poll handle select p timeout = (p', Inr True) \<and>
    (\<forall>line events fd. (line, events) \<in> set (m_pollables p) \<and> handle line = Some fd \<longrightarrow>
       (SelectPoller_eventsForLine p' line AND LineEvent_Read \<noteq> 0 \<longleftrightarrow> fd \<in> m_readfds p') \<and>
       (SelectPoller_eventsForLine p' line AND LineEvent_Write \<noteq> 0 \<longleftrightarrow> fd \<in> m_writefds p') \<and>
       (SelectPoller_eventsForLine p' line AND LineEvent_Error \<noteq> 0 \<longleftrightarrow> fd \<in> m_errorfds p') \<and>
       (\<forall>flag \<in> {LineEvent_Read, LineEvent_Write, LineEvent_Error}.
          SelectPoller_eventsForLine p' line AND flag \<noteq> 0 \<longrightarrow> events AND flag \<noteq> 0)) \<and>
    (\<forall>line. line \<notin> fst ` set (m_pollables p) \<longrightarrow> SelectPoller_eventsForLine p' line = LineEvent_None)"
proof -
  let ?ps = "m_pollables p"
  obtain max_fd where f: "fill_sets handle ?ps {} {} {} 0 = Inr (interested handle ?ps LineEvent_Read,
      interested handle ?ps LineEvent_Write, interested handle ?ps LineEvent_Error, max_fd)"
    using fill_sets_eq [OF assms(1), of 0 "{}" "{}" "{}"] by auto
  obtain rs ws es r e where sel: "select (max_fd + 1) (interested handle ?ps LineEvent_Read,
      interested handle ?ps LineEvent_Write, interested handle ?ps LineEvent_Error) (timeval_of timeout) = ((rs, ws, es), r, e)"
    by (metis prod_cases3)
  have r: "0 < r" using assms(4) sel by (metis fst_conv snd_conv)
  have sub: "rs \<subseteq> interested handle ?ps LineEvent_Read" "ws \<subseteq> interested handle ?ps LineEvent_Write"
    "es \<subseteq> interested handle ?ps LineEvent_Error"
    using assms(2) sel unfolding only_clears_def by blast+
  obtain m where m: "collect_events handle rs ws es ?ps Map.empty = Inr m"
    "\<And>line. m line = (if line \<in> fst ` set ?ps
         then Some (flag_if (the (handle line) \<in> rs) LineEvent_Read OR flag_if (the (handle line) \<in> ws) LineEvent_Write OR
                    flag_if (the (handle line) \<in> es) LineEvent_Error) else None)"
    using collect_events_eq [OF assms(1), of rs ws es Map.empty] by auto
  let ?p = "p\<lparr>m_readfds := rs, m_writefds := ws, m_errorfds := es, m_events := m\<rparr>"
  have poll: "SelectPoller_poll handle select p timeout = (?p, Inr True)"
    using r by (simp add: SelectPoller_poll_def f Let_def sel m(1))
  have own: "events AND flag \<noteq> 0"
    if "(line, events) \<in> set ?ps" "handle line = Some fd" "fd \<in> interested handle ?ps flag" for line events fd flag
    using that assms(3) unfolding interested_def by fastforce
  have bits: "(SelectPoller_eventsForLine ?p line AND LineEvent_Read \<noteq> 0 \<longleftrightarrow> fd \<in> rs) \<and>
      (SelectPoller_eventsForLine ?p line AND LineEvent_Write \<noteq> 0 \<longleftrightarrow> fd \<in> ws) \<and>
      (SelectPoller_eventsForLine ?p line AND LineEvent_Error \<noteq> 0 \<longleftrightarrow> fd \<in> es)"
    if "(line, events) \<in> set ?ps" "handle line = Some fd" for line events fd
  proof -
    from that(1) have "line \<in> fst ` set ?ps" by force
    with that(2) m(2) [of line] have "SelectPoller_eventsForLine ?p line =
        flag_if (fd \<in> rs) LineEvent_Read OR flag_if (fd \<in> ws) LineEvent_Write OR flag_if (fd \<in> es) LineEvent_Error"
      by (simp add: SelectPoller_eventsForLine_def)
    then show ?thesis by (simp only: flag_bits)
  qed
  have "SelectPoller_eventsForLine ?p line = LineEvent_None" if "line \<notin> fst ` set ?ps" for line
    using that by (simp add: SelectPoller_eventsForLine_def m(2))
  with poll bits own sub show ?thesis by (intro exI [of _ ?p]) (simp, blast)
qed

theorem poll_reports_requested_witness:
  "\<exists>p'. SelectPoller_poll (\<lambda>_. Some 3) (\<lambda>n fds tv. (fds, 1, 0)) (SelectPoller_new\<lparr>m_pollables := [(7, LineEvent_Read)]\<rparr>) 10 =
     (p', Inr True) \<and> SelectPoller_eventsForLine p' 8 = LineEvent_None"
proof -
  let ?p = "SelectPoller_new\<lparr>m_pollables := [(7, LineEvent_Read)]\<rparr>"
  have "pollable (\<lambda>_. Some 3) (m_pollables ?p)" "only_clears (\<lambda>n fds tv. (fds, 1, 0))"
    by (simp_all add: pollable_def FD_SETSIZE_def only_clears_def)
  from poll_reports_requested [OF this, of 10] show ?thesis by auto
qed

end
