(* ===== verification/NonBlockingQueue.thy ===== *)
theory NonBlockingQueue
  imports DataQueue NonBlockingRing
begin

text \<open>
  The class \<^verbatim>\<open>DataQueue\<close> of src/common/inproc.cpp in the configuration without
  \<^verbatim>\<open>CPPIO_BLOCKING_INPROC\<close>. Its operations test the ring buffer without the mutex and take it only to
  wait, so other threads can also run between a test and the wait that follows it.

  One reader and one writer use a queue, as the ring buffer requires. What they and the owners of the flag do
  while a call runs is again an argument, at the points where it makes a difference. The events are those of
  the theory \<open>DataQueue\<close>; a write of the other thread stands for the bytes of it that fit. (In this
  configuration the declarations return \<^verbatim>\<open>ssize_t\<close> and the definitions \<^verbatim>\<open>size_t\<close>; the model has the declared type.)
\<close>

section \<open>The class\<close>

definition DataQueueNB_new :: "nat \<Rightarrow> data_queue" where
  "DataQueueNB_new bufferSize = \<lparr>m_buffer = RingBufferNB_new bufferSize, m_connected = False\<rparr>"

lemma DataQueueNB_new_eq [simp]: "DataQueueNB_new n = DataQueue n"
  by (simp add: DataQueueNB_new_def DataQueue_def)

definition DataQueueNB_availableReadSize :: "data_queue \<Rightarrow> nat" where
  "DataQueueNB_availableReadSize q = RingBufferNB_availableReadSize (m_buffer q)"

definition DataQueueNB_availableWriteSize :: "data_queue \<Rightarrow> nat" where
  "DataQueueNB_availableWriteSize q = RingBufferNB_availableWriteSize (m_buffer q)"

definition DataQueueNB_setConnectionFlag :: "data_queue \<Rightarrow> bool \<Rightarrow> data_queue" where
  "DataQueueNB_setConnectionFlag q c =
     (if c then q\<lparr>m_connected := c\<rparr>
      else if m_connected q then q\<lparr>m_connected := False\<rparr> else q)"

text \<open>The last block of the two read functions and of the write function; with and without the mutex the effect is the same.\<close>

definition DataQueueNB_finish_read :: "data_queue \<Rightarrow> nat \<Rightarrow> 'w \<Rightarrow> failure + (data_queue \<times> byte list \<times> int \<times> 'w)" where
  "DataQueueNB_finish_read q buflen ws =
     bind_res (RingBufferNB_read (m_buffer q) buflen)
       (\<lambda>(rb, out, rc). Inr (q\<lparr>m_buffer := rb\<rparr>, out, to_ssize rc, ws))"

definition DataQueueNB_finish_write :: "data_queue \<Rightarrow> byte list \<Rightarrow> 'w \<Rightarrow> failure + (data_queue \<times> int \<times> 'w)" where
  "DataQueueNB_finish_write q buffer ws =
     bind_res (RingBufferNB_write (m_buffer q) buffer)
       (\<lambda>(rb, ret). Inr (q\<lparr>m_buffer := rb\<rparr>, to_ssize ret, ws))"

text \<open>
  One round of the loop of \<^verbatim>\<open>read\<close>: what happens between the test of the buffer and the lock, and
  what happens until the thread is woken from its wait, or \<open>None\<close> when it is not woken again.
\<close>

datatype round = Round (before_lock: "queue_event list") (until_woken: "queue_event list option")

fun DataQueueNB_read :: "data_queue \<Rightarrow> nat \<Rightarrow> round list \<Rightarrow> failure + (data_queue \<times> byte list \<times> int \<times> round list)" where
  "DataQueueNB_read q buflen rs =
     (if DataQueueNB_availableReadSize q = 0 then
        (case rs of
           [] \<Rightarrow> if \<not> m_connected q then Inr (q, [], eConnectionLost, []) else Inl Blocked
         | r # rs' \<Rightarrow>
             bind_res (apply_events q (before_lock r)) (\<lambda>q1.
               if \<not> m_connected q1 then
                 (if DataQueueNB_availableReadSize q1 = 0 then Inr (q1, [], eConnectionLost, rs')
                  else DataQueueNB_read q1 buflen rs')
               else case until_woken r of
                   None \<Rightarrow> Inl Blocked
                 | Some es \<Rightarrow>
                     bind_res (apply_events q1 es) (\<lambda>q2.
                       if DataQueueNB_availableReadSize q2 = 0 \<and> \<not> m_connected q2
                       then Inr (q2, [], eConnectionLost, rs')
                       else DataQueueNB_read q2 buflen rs')))
      else DataQueueNB_finish_read q buflen rs)"

declare DataQueueNB_read.simps [simp del]

text \<open>\<open>es\<close>: what happens between the test of the buffer and the test of the flag.\<close>

definition DataQueueNB_readWithTimeout :: "data_queue \<Rightarrow> nat \<Rightarrow> queue_event list \<Rightarrow> wake list \<Rightarrow> read_result" where
  "DataQueueNB_readWithTimeout q buflen es ws =
     (if DataQueueNB_availableReadSize q = 0 then
        bind_res (apply_events q es) (\<lambda>q1.
          if \<not> m_connected q1 then Inr (q1, [], eConnectionLost, ws)
          else bind_res (wait_for (\<lambda>q. DataQueueNB_availableReadSize q > 0) q1 ws) (\<lambda>(q2, rc, ws').
            if \<not> rc then
              (if \<not> m_connected q2 then Inr (q2, [], eConnectionLost, ws')
               else Inr (q2, [], eTimeout, ws'))
            else if DataQueueNB_availableReadSize q2 = 0 \<and> \<not> m_connected q2
            then Inr (q2, [], eConnectionLost, ws')
            else DataQueueNB_finish_read q2 buflen ws'))
      else DataQueueNB_finish_read q buflen ws)"

text \<open>\<open>es\<close>: what happens between the test of the space and the lock.\<close>

definition DataQueueNB_write :: "data_queue \<Rightarrow> byte list \<Rightarrow> queue_event list \<Rightarrow> wake list \<Rightarrow> write_result" where
  "DataQueueNB_write q buffer es ws =
     (if length buffer \<ge> RingBuffer_size (m_buffer q) then Inr (q, eTooBigBuffer, ws)
      else if DataQueueNB_availableWriteSize q < length buffer then
        bind_res (apply_events q es) (\<lambda>q1.
          if DataQueueNB_availableWriteSize q1 < length buffer \<and> \<not> m_connected q1
          then Inr (q1, eConnectionLost, ws)
          else bind_res (wait_until (\<lambda>q. DataQueueNB_availableWriteSize q \<ge> length buffer) q1 ws) (\<lambda>(q2, ws').
            if DataQueueNB_availableWriteSize q2 < length buffer \<and> \<not> m_connected q2
            then Inr (q2, eConnectionLost, ws')
            else DataQueueNB_finish_write q2 buffer ws'))
      else DataQueueNB_finish_write q buffer ws)"

section \<open>Agreement with the blocking configuration\<close>

lemma nb_available [simp]:
  "DataQueueNB_availableReadSize q = DataQueue_availableReadSize q"
  "DataQueueNB_availableWriteSize q = DataQueue_availableWriteSize q"
  by (simp_all add: DataQueueNB_availableReadSize_def DataQueueNB_availableWriteSize_def
      DataQueue_availableReadSize_def DataQueue_availableWriteSize_def nb_available_eq)

lemma nb_finish_read: "DataQueueNB_finish_read q n ws = DataQueue_finish_read q n ws"
  by (simp add: DataQueueNB_finish_read_def DataQueue_finish_read_def DataQueue_take_def nb_read_eq bind_res_assoc
      case_prod_beta')


lemma nb_finish_read_take:
  "DataQueueNB_finish_read q n ws = bind_res (DataQueue_take q n) (\<lambda>(q', out, rc). Inr (q', out, rc, ws))"
  by (simp add: DataQueueNB_finish_read_def DataQueue_take_def nb_read_eq bind_res_assoc case_prod_beta')

lemma nb_finish_write_put:
  "DataQueueNB_finish_write q bs ws = bind_res (DataQueue_put q bs) (\<lambda>(q', rc). Inr (q', rc, ws))"
  by (simp add: DataQueueNB_finish_write_def DataQueue_put_def nb_write_eq bind_res_assoc case_prod_beta')



lemma nb_readWithTimeout_agrees: "DataQueueNB_readWithTimeout q n [] ws = DataQueue_readWithTimeout q n ws"
  unfolding DataQueueNB_readWithTimeout_def DataQueue_readWithTimeout_def nb_finish_read nb_available by simp






section \<open>What the calls return\<close>

lemma nb_read_round:
  assumes "dq_inv q" and "dq_contents q = []" and "apply_events q (before_lock r) = Inr q1" and "dq_inv q1"
  shows "DataQueueNB_read q n (r # rs) =
    (if \<not> m_connected q1 then
       (if dq_contents q1 = [] then Inr (q1, [], eConnectionLost, rs) else DataQueueNB_read q1 n rs)
     else case until_woken r of
         None \<Rightarrow> Inl Blocked
       | Some es \<Rightarrow> bind_res (apply_events q1 es) (\<lambda>q2.
           if DataQueue_availableReadSize q2 = 0 \<and> \<not> m_connected q2 then Inr (q2, [], eConnectionLost, rs)
           else DataQueueNB_read q2 n rs))"
  using assms unfolding DataQueueNB_read.simps [of q n "_ # _"] nb_available by simp

lemma nb_read_immediate:
  assumes "dq_inv q" and "dq_contents q \<noteq> []"
  shows "\<exists>q' out rc. DataQueueNB_read q n rs = Inr (q', out, rc, rs) \<and> dq_inv q' \<and> delivers n q' out rc"
proof -
  obtain q' where "DataQueue_take q n = Inr (q', take n (dq_contents q), int (min n (length (dq_contents q))))"
    "dq_inv q'" "dq_contents q' = drop n (dq_contents q)"
    using assms(1) by (rule take_spec)
  moreover have "DataQueueNB_read q n rs = DataQueueNB_finish_read q n rs"
    using assms by (simp add: DataQueueNB_read.simps [of q n rs])
  ultimately show ?thesis using assms(2) by (auto simp: nb_finish_read_take delivers_def min.commute)
qed

lemma nb_read_outcome:
  assumes "dq_inv q"
  shows "DataQueueNB_read q n rs = Inl Blocked \<or>
    (\<exists>q' out rc rs'. DataQueueNB_read q n rs = Inr (q', out, rc, rs') \<and> dq_inv q' \<and>
       (lost q' out rc \<or> delivers n q' out rc))"
  using assms
proof (induction rs arbitrary: q)
  case Nil
  show ?case
  proof (cases "dq_contents q = []")
    case True
    with Nil show ?thesis by (simp add: DataQueueNB_read.simps [of q n "[]"] lost_def)
  next
    case False
    with nb_read_immediate [OF Nil] show ?thesis by metis
  qed
next
  case (Cons r rs)
  obtain q1 where q1: "apply_events q (before_lock r) = Inr q1" "dq_inv q1"
    using apply_events_inv [OF Cons.prems] by blast
  show ?case
  proof (cases "dq_contents q = []")
    case True
    note round = nb_read_round [OF Cons.prems True q1, of n rs]
    show ?thesis
    proof (cases "m_connected q1")
      case True
      show ?thesis
      proof (cases "until_woken r")
        case None
        with round True show ?thesis by simp
      next
        case (Some es)
        obtain q2 where q2: "apply_events q1 es = Inr q2" "dq_inv q2" using apply_events_inv [OF q1(2)] by blast
        with round True Some Cons.IH [of q2] show ?thesis by (auto simp: lost_def)
      qed
    next
      case False
      with round q1(2) Cons.IH [of q1] show ?thesis by (auto simp: lost_def)
    qed
  next
    case False
    with nb_read_immediate [OF Cons.prems] show ?thesis by metis
  qed
qed

lemma nb_finish_write_whole:
  assumes "dq_inv q" and "length bs \<le> dq_capacity q - length (dq_contents q)"
  shows "\<exists>q'. DataQueueNB_finish_write q bs ws = Inr (q', int (length bs), ws) \<and> dq_inv q' \<and>
           dq_contents q' = dq_contents q @ bs \<and> m_connected q' = m_connected q"
proof -
  obtain q' where "DataQueue_put q bs = Inr (q', int (min (length bs) (dq_capacity q - length (dq_contents q))))"
    "dq_inv q'" "dq_contents q' = dq_contents q @ take (dq_capacity q - length (dq_contents q)) bs"
    "m_connected q' = m_connected q"
    using assms(1) by (rule put_spec)
  with assms(2) show ?thesis by (simp add: nb_finish_write_put)
qed

lemma nb_write_outcome:
  assumes "dq_inv q"
  shows "DataQueueNB_write q bs es ws = Inl Blocked \<or>
    (\<exists>q' rc ws'. DataQueueNB_write q bs es ws = Inr (q', rc, ws') \<and> dq_inv q' \<and>
       (rc = eTooBigBuffer \<and> q' = q \<and> dq_capacity q < length bs \<or>
        rc = eConnectionLost \<and> \<not> m_connected q' \<and> dq_capacity q < length (dq_contents q') + length bs \<or>
        rc = int (length bs) \<and> (\<exists>c. dq_contents q' = c @ bs)))"
proof (cases "length bs \<le> dq_capacity q \<and> DataQueue_availableWriteSize q < length bs")
  case True
  obtain q1 where q1: "apply_events q es = Inr q1" "dq_inv q1" "dq_capacity q1 = dq_capacity q"
    using apply_events_inv [OF assms] by blast
  note eq = DataQueueNB_write_def [of q bs es ws, unfolded nb_available]
  show ?thesis
  proof (cases "DataQueue_availableWriteSize q1 < length bs \<and> \<not> m_connected q1")
    case lost: True
    then have "DataQueueNB_write q bs es ws = Inr (q1, eConnectionLost, ws)"
      using True q1 assms unfolding eq by simp
    with lost q1 show ?thesis by auto
  next
    case False
    let ?wait = "wait_until (\<lambda>q. length bs \<le> DataQueue_availableWriteSize q) q1 ws"
    from wait_until_inv [OF q1(2), of "\<lambda>q. length bs \<le> DataQueue_availableWriteSize q" ws]
    show ?thesis
    proof (elim disjE exE conjE)
      assume "?wait = Inl Blocked"
      with True False q1 assms show ?thesis unfolding eq by auto
    next
      fix q2 ws2
      assume q2: "?wait = Inr (q2, ws2)" "length bs \<le> DataQueue_availableWriteSize q2" "dq_inv q2"
      then have "DataQueueNB_write q bs es ws = DataQueueNB_finish_write q2 bs ws2"
        using True False q1 assms unfolding eq by auto
      with nb_finish_write_whole [OF q2(3), of bs ws2] q2 show ?thesis by auto
    qed
  qed
next
  case False
  then consider "dq_capacity q < length bs" | "length bs \<le> dq_capacity q" "length bs \<le> DataQueue_availableWriteSize q"
    by linarith
  then show ?thesis
  proof cases
    case 1
    with assms show ?thesis by (simp add: DataQueueNB_write_def)
  next
    case 2
    then have "DataQueueNB_write q bs es ws = DataQueueNB_finish_write q bs ws"
      using assms by (simp add: DataQueueNB_write_def)
    with nb_finish_write_whole [OF assms, of bs ws] 2 assms show ?thesis by auto
  qed
qed

section \<open>Two threads\<close>

text \<open>
  One thread that reads, one that writes, and one that changes the flag, with the mutex and the condition
  variables explicit. A reader is at the test of the loop, before and behind the lock, before the
  wait, in it, woken, behind it, before the transfer (with or without the mutex), and before the notification
  that follows it; a writer in the same way.
\<close>

datatype nb_reader =
    NR_idle "int option" | NR_loop nat | NR_lock nat | NR_check nat | NR_wait nat | NR_parked nat | NR_woken nat
  | NR_recheck nat | NR_take nat | NR_take_lock nat | NR_taking nat | NR_notify bool int

datatype nb_writer =
    NW_idle "int option" | NW_test "byte list" | NW_lock "byte list" | NW_check "byte list" | NW_pred "byte list"
  | NW_parked "byte list" | NW_woken "byte list" | NW_last "byte list" | NW_put "byte list" | NW_put_lock "byte list"
  | NW_putting "byte list" | NW_notify bool int

datatype nb_owner = By_reader | By_writer

record nb_state =
  nb_queue :: data_queue
  nb_mutex :: "nb_owner option"
  nb_reader :: nb_reader
  nb_writer :: nb_writer
  nb_flag_notify :: bool

definition nb_init :: "nat \<Rightarrow> nb_state" where
  "nb_init bufferSize = \<lparr>nb_queue = DataQueueNB_setConnectionFlag (DataQueueNB_new bufferSize) True, nb_mutex = None,
     nb_reader = NR_idle None, nb_writer = NW_idle None, nb_flag_notify = False\<rparr>"

definition nb_wake_reader :: "nb_state \<Rightarrow> nb_state" where
  "nb_wake_reader s = (case nb_reader s of NR_parked n \<Rightarrow> s\<lparr>nb_reader := NR_woken n\<rparr> | _ \<Rightarrow> s)"

definition nb_wake_writer :: "nb_state \<Rightarrow> nb_state" where
  "nb_wake_writer s = (case nb_writer s of NW_parked bs \<Rightarrow> s\<lparr>nb_writer := NW_woken bs\<rparr> | _ \<Rightarrow> s)"

definition nb_lock :: "nb_owner \<Rightarrow> nb_state \<Rightarrow> nb_state option" where
  "nb_lock t s = (if nb_mutex s = None then Some (s\<lparr>nb_mutex := Some t\<rparr>) else None)"

definition nb_unlock :: "nb_state \<Rightarrow> nb_state" where
  "nb_unlock s = s\<lparr>nb_mutex := None\<rparr>"

definition nb_transfer_out :: "nb_state \<Rightarrow> nat \<Rightarrow> bool \<Rightarrow> nb_state option" where
  "nb_transfer_out s n locked =
     (case DataQueueNB_finish_read (nb_queue s) n () of
        Inl _ \<Rightarrow> None
      | Inr (q, _, rc, _) \<Rightarrow> Some (s\<lparr>nb_queue := q, nb_reader := NR_notify locked rc\<rparr>))"

definition nb_transfer_in :: "nb_state \<Rightarrow> byte list \<Rightarrow> bool \<Rightarrow> nb_state option" where
  "nb_transfer_in s bs locked =
     (case DataQueueNB_finish_write (nb_queue s) bs () of
        Inl _ \<Rightarrow> None
      | Inr (q, rc, _) \<Rightarrow> Some (s\<lparr>nb_queue := q, nb_writer := NW_notify locked rc\<rparr>))"

definition nb_read_step :: "nb_state \<Rightarrow> nb_state option" where
  "nb_read_step s =
     (let q = nb_queue s; empty = (DataQueueNB_availableReadSize q = 0) in
      case nb_reader s of
        NR_loop n \<Rightarrow> Some (s\<lparr>nb_reader := (if empty then NR_lock n else NR_take n)\<rparr>)
      | NR_lock n \<Rightarrow> map_option (nb_reader_update (\<lambda>_. NR_check n)) (nb_lock By_reader s)
      | NR_check n \<Rightarrow>
          if \<not> m_connected q then
            (if empty then Some (nb_unlock (s\<lparr>nb_reader := NR_idle (Some eConnectionLost)\<rparr>))
             else Some (nb_unlock (s\<lparr>nb_reader := NR_loop n\<rparr>)))
          else Some (s\<lparr>nb_reader := NR_wait n\<rparr>)
      | NR_wait n \<Rightarrow> Some (nb_unlock (s\<lparr>nb_reader := NR_parked n\<rparr>))
      | NR_woken n \<Rightarrow> map_option (nb_reader_update (\<lambda>_. NR_recheck n)) (nb_lock By_reader s)
      | NR_recheck n \<Rightarrow>
          Some (nb_unlock (s\<lparr>nb_reader := (if empty \<and> \<not> m_connected q then NR_idle (Some eConnectionLost) else NR_loop n)\<rparr>))
      | NR_take n \<Rightarrow>
          if DataQueueNB_availableWriteSize q = 0 then Some (s\<lparr>nb_reader := NR_take_lock n\<rparr>) else nb_transfer_out s n False
      | NR_take_lock n \<Rightarrow> map_option (nb_reader_update (\<lambda>_. NR_taking n)) (nb_lock By_reader s)
      | NR_taking n \<Rightarrow> nb_transfer_out s n True
      | NR_notify locked rc \<Rightarrow>
          Some (nb_wake_writer ((if locked then nb_unlock s else s)\<lparr>nb_reader := NR_idle (Some rc)\<rparr>))
      | _ \<Rightarrow> None)"

definition nb_write_step :: "nb_state \<Rightarrow> nb_state option" where
  "nb_write_step s =
     (let q = nb_queue s; short = (\<lambda>bs :: byte list. DataQueueNB_availableWriteSize q < length bs) in
      case nb_writer s of
        NW_test bs \<Rightarrow>
          Some (s\<lparr>nb_writer := (if length bs \<ge> RingBuffer_size (m_buffer q) then NW_idle (Some eTooBigBuffer)
                              else if short bs then NW_lock bs else NW_put bs)\<rparr>)
      | NW_lock bs \<Rightarrow> map_option (nb_writer_update (\<lambda>_. NW_check bs)) (nb_lock By_writer s)
      | NW_check bs \<Rightarrow>
          if short bs \<and> \<not> m_connected q then Some (nb_unlock (s\<lparr>nb_writer := NW_idle (Some eConnectionLost)\<rparr>))
          else Some (s\<lparr>nb_writer := NW_pred bs\<rparr>)
      | NW_pred bs \<Rightarrow>
          if short bs then Some (nb_unlock (s\<lparr>nb_writer := NW_parked bs\<rparr>)) else Some (s\<lparr>nb_writer := NW_last bs\<rparr>)
      | NW_woken bs \<Rightarrow> map_option (nb_writer_update (\<lambda>_. NW_pred bs)) (nb_lock By_writer s)
      | NW_last bs \<Rightarrow>
          Some (nb_unlock (s\<lparr>nb_writer := (if short bs \<and> \<not> m_connected q then NW_idle (Some eConnectionLost) else NW_put bs)\<rparr>))
      | NW_put bs \<Rightarrow>
          if DataQueueNB_availableReadSize q = 0 then Some (s\<lparr>nb_writer := NW_put_lock bs\<rparr>) else nb_transfer_in s bs False
      | NW_put_lock bs \<Rightarrow> map_option (nb_writer_update (\<lambda>_. NW_putting bs)) (nb_lock By_writer s)
      | NW_putting bs \<Rightarrow> nb_transfer_in s bs True
      | NW_notify locked rc \<Rightarrow>
          Some (nb_wake_reader ((if locked then nb_unlock s else s)\<lparr>nb_writer := NW_idle (Some rc)\<rparr>))
      | _ \<Rightarrow> None)"

text \<open>\<^verbatim>\<open>setConnectionFlag\<close> changes the flag without the mutex and notifies in a second step.\<close>

datatype nb_action =
    Begin_read nat | Begin_write "byte list" | Reader_moves | Writer_moves
  | Set_flag bool | Flag_notifies | Spurious_reader | Spurious_writer

fun nb_act :: "nb_state \<Rightarrow> nb_action \<Rightarrow> nb_state option" where
  "nb_act s (Begin_read n) = (case nb_reader s of NR_idle _ \<Rightarrow> Some (s\<lparr>nb_reader := NR_loop n\<rparr>) | _ \<Rightarrow> None)"
| "nb_act s (Begin_write bs) = (case nb_writer s of NW_idle _ \<Rightarrow> Some (s\<lparr>nb_writer := NW_test bs\<rparr>) | _ \<Rightarrow> None)"
| "nb_act s Reader_moves = nb_read_step s"
| "nb_act s Writer_moves = nb_write_step s"
| "nb_act s (Set_flag c) =
     (if nb_flag_notify s then None
      else Some (s\<lparr>nb_queue := DataQueueNB_setConnectionFlag (nb_queue s) c,
                   nb_flag_notify := (\<not> c \<and> m_connected (nb_queue s))\<rparr>))"
| "nb_act s Flag_notifies =
     (if nb_flag_notify s then Some (nb_wake_writer (nb_wake_reader (s\<lparr>nb_flag_notify := False\<rparr>))) else None)"
| "nb_act s Spurious_reader = (case nb_reader s of NR_parked _ \<Rightarrow> Some (nb_wake_reader s) | _ \<Rightarrow> None)"
| "nb_act s Spurious_writer = (case nb_writer s of NW_parked _ \<Rightarrow> Some (nb_wake_writer s) | _ \<Rightarrow> None)"

fun nb_run :: "nb_state \<Rightarrow> nb_action list \<Rightarrow> nb_state option" where
  "nb_run s [] = Some s"
| "nb_run s (a # as) = Option.bind (nb_act s a) (\<lambda>s'. nb_run s' as)"

lemmas nb_step_defs = nb_read_step_def nb_write_step_def nb_transfer_in_def nb_transfer_out_def
  nb_lock_def nb_unlock_def nb_wake_reader_def nb_wake_writer_def

text \<open>
  A call that has not begun cannot wake anybody: as long as no call begins and nothing wakes up spuriously,
  a parked reader stays parked when the writer is idle and nobody is about to notify.
\<close>

fun new_work :: "nb_action \<Rightarrow> bool" where
  "new_work (Begin_write _) = True"
| "new_work (Set_flag _) = True"
| "new_work Spurious_reader = True"
| "new_work _ = False"

definition abandoned :: "nb_state \<Rightarrow> bool" where
  "abandoned s \<longleftrightarrow> (\<exists>n. nb_reader s = NR_parked n) \<and> (\<exists>rc. nb_writer s = NW_idle rc) \<and> \<not> nb_flag_notify s"

lemma abandoned_stays:
  "abandoned s \<Longrightarrow> \<not> new_work a \<Longrightarrow> nb_act s a = Some s' \<Longrightarrow> s' = s"
  by (cases a) (auto simp: abandoned_def nb_step_defs Let_def)

lemma abandoned_run:
  "abandoned s \<Longrightarrow> \<forall>a \<in> set as. \<not> new_work a \<Longrightarrow> nb_run s as = Some s' \<Longrightarrow> s' = s"
proof (induction as)
  case (Cons a as)
  then show ?case using abandoned_stays [of s a] by (cases "nb_act s a") auto
qed simp

section \<open>Properties\<close>



text \<open>
  Unlike that of the blocking configuration, the \<^verbatim>\<open>write\<close> of the non-blocking one is all or
  nothing. Whatever the reader does while it runs, it waits on, or refuses a buffer larger than the queue, or reports
  a lost connection, with the queue disconnected and too full for the buffer, or returns the length of
  the buffer with all of its bytes at the end of the queue.
\<close>
lemma nb_write_whole:
  assumes "dq_inv q"
  shows "DataQueueNB_write q bs es ws = Inl Blocked \<or>
    (\<exists>q' rc ws'. DataQueueNB_write q bs es ws = Inr (q', rc, ws') \<and> dq_inv q' \<and>
       (rc = eTooBigBuffer \<and> q' = q \<and> dq_capacity q < length bs \<or>
        rc = eConnectionLost \<and> \<not> m_connected q' \<and> dq_capacity q < length (dq_contents q') + length bs \<or>
        rc = int (length bs) \<and> (\<exists>c. dq_contents q' = c @ bs)))"
  using assms by (rule nb_write_outcome)

text \<open>
  C22 (nb_reader_lost_wakeup): in the non-blocking configuration a reader can miss the notification for the bytes it waits
  for. It finds the buffer empty; before it has locked the mutex, the writer writes, notifies and
  returns; the reader then locks, sees that the queue is connected and waits, without looking at the buffer
  again. For every buffer that fits: the state reached has all the bytes in the queue, the reader in its wait, the
  mutex free and the writer idle, and it does not change until another call begins or the reader wakes up spuriously.
\<close>
theorem nb_reader_lost_wakeup:
  assumes "0 < length bs" and "length bs < bufferSize" and "bufferSize < 2 ^ 63"
  shows "\<exists>s. nb_run (nb_init bufferSize)
      [Begin_read n, Reader_moves, Begin_write bs, Writer_moves, Writer_moves, Writer_moves, Writer_moves,
       Writer_moves, Reader_moves, Reader_moves, Reader_moves] = Some s \<and>
    dq_contents (nb_queue s) = bs \<and> m_connected (nb_queue s) \<and> nb_reader s = NR_parked n \<and>
    nb_writer s = NW_idle (Some (int (length bs))) \<and> nb_mutex s = None \<and>
    (\<forall>as s'. (\<forall>a \<in> set as. \<not> new_work a) \<and> nb_run s as = Some s' \<longrightarrow> s' = s)"
proof -
  define q0 where "q0 = DataQueueNB_setConnectionFlag (DataQueue bufferSize) True"
  have flag: "q0 = DataQueue_setConnectionFlag (DataQueue bufferSize) True"
    by (simp add: q0_def DataQueueNB_setConnectionFlag_def DataQueue_setConnectionFlag_def)
  have q0: "dq_inv q0" "dq_contents q0 = []" "dq_capacity q0 = bufferSize - 1" "m_connected q0"
    using assms by (simp_all add: flag dq_inv_new)
  have "length bs \<le> dq_capacity q0 - length (dq_contents q0)" using assms(2) q0(2,3) by simp
  from nb_finish_write_whole [OF q0(1) this, of "()"]
  obtain q1 where q1: "DataQueueNB_finish_write q0 bs () = Inr (q1, int (length bs), ())" "dq_inv q1"
    "dq_contents q1 = bs" "m_connected q1"
    using q0(2,4) by auto
  have room: "\<not> bufferSize \<le> length bs" "\<not> bufferSize - 1 < length bs" "RingBuffer_size (m_buffer q0) = bufferSize"
    using assms q0 by auto
  let ?s = "\<lparr>nb_queue = q1, nb_mutex = None, nb_reader = NR_parked n, nb_writer = NW_idle (Some (int (length bs))),
    nb_flag_notify = False\<rparr>"
  have "nb_run (nb_init bufferSize)
      [Begin_read n, Reader_moves, Begin_write bs, Writer_moves, Writer_moves, Writer_moves, Writer_moves,
       Writer_moves, Reader_moves, Reader_moves, Reader_moves] = Some ?s"
    using q0 q1 room by (simp add: nb_init_def nb_step_defs q0_def [symmetric])
  moreover have "abandoned ?s" by (simp add: abandoned_def)
  then have "\<forall>as s'. (\<forall>a \<in> set as. \<not> new_work a) \<and> nb_run ?s as = Some s' \<longrightarrow> s' = ?s"
    using abandoned_run by blast
  ultimately show ?thesis using q1 by (intro exI [of _ ?s]) simp
qed

theorem nb_reader_lost_wakeup_witness:
  "\<exists>s. nb_run (nb_init 4)
      [Begin_read 9, Reader_moves, Begin_write [7], Writer_moves, Writer_moves, Writer_moves, Writer_moves,
       Writer_moves, Reader_moves, Reader_moves, Reader_moves] = Some s \<and>
    dq_contents (nb_queue s) = [7] \<and> nb_reader s = NR_parked 9"
  using nb_reader_lost_wakeup [of "[7]" 4 9] by auto

end
