(* ===== verification/Spec2Isabelle.thy ===== *)
theory Spec2Isabelle
  imports Channel CSafety GoBindings WinManager PythonModule RegistryLinear QueueLinear RingLinear SelectPoller NonBlockingQueue
begin

text \<open>
  A model of libcppio, a C++ library with a uniform interface for byte-stream lines between
  threads (\<^verbatim>\<open>inproc://\<close>), processes (\<^verbatim>\<open>local://\<close>) and machines (\<^verbatim>\<open>tcp://\<close>), and with messages
  made of frames on top of any line, on POSIX systems and on Windows, from C++, C, Python and Go. Paths below are relative to src/ of the repository.

  \<^bold>\<open>The program.\<close> A user obtains an \<^verbatim>\<open>IoLineManager\<close> from \<^verbatim>\<open>createLineManager\<close> and asks it for a
  client line or a server acceptor at an address. The manager splits the address and calls the
  factory of the scheme. An inter-thread client puts itself into a static list and waits until an
  acceptor of its address takes it out and connects it by two data queues, each a ring
  buffer with a mutex, two condition variables and a connection flag. Socket and pipe lines call the operating
  system. \<^verbatim>\<open>MessageProtocol\<close> reads and writes messages over the virtual functions of a line.

  \<^bold>\<open>The theories.\<close>
  \<^item> \<open>Cppio_Prelude\<close>: bytes, wrap-around \<^verbatim>\<open>size_t\<close> arithmetic and the implicit conversions, failures as
    values (exceptions, undefined behaviour, failed assertions, calls that wait for ever), bounds-checked
    \<^verbatim>\<open>memcpy\<close>, little-endian words, the error codes of include/cppio/errors.h.
  \<^item> \<open>Machines\<close>: runs of step relations with visible events, and refinement of a specification (locales \<open>machine\<close> and
    \<open>refinement\<close>); interpreted by the three theories on threads below that end in \<open>Linear\<close>.
  \<^item> \<open>ByteQueue\<close>: the contract of a bounded byte queue (locale \<open>byte_queue\<close>) and what follows from it.
  \<^item> \<open>RingBuffer\<close>: class \<^verbatim>\<open>RingBuffer\<close> of src/common/inproc.cpp with its five operations, as the build configures
    it; the record has the array and the two positions. Interprets \<open>byte_queue\<close>.
  \<^item> \<open>DataQueue\<close>: class \<^verbatim>\<open>DataQueue\<close> of the same file: one call, with the operations that
    other threads complete during its waits given as a list.
  \<^item> \<open>NonBlockingRing\<close>, \<open>NonBlockingQueue\<close>: the other configuration of the two classes (the \<^verbatim>\<open>#else\<close> branch of
    the file), as calls and as steps of one reader and one writer on atomic positions. \<open>RingLinear\<close>: what the two see of
    the ring buffer is a queue.
  \<^item> \<open>QueueThreads\<close>: the same class under any number of threads, as steps between the points where
    another thread can intervene, with spurious wake-ups and timeouts. \<open>QueueLinear\<close>: the specification of an atomic
    bounded queue with a flag, and that the threads refine it.
  \<^item> \<open>Message\<close>: \<^verbatim>\<open>Frame\<close> and \<^verbatim>\<open>Message\<close> of src/message.cpp and include/cppio/message.h, serialisation on a buffer
    with moving positions, against the wire format \<open>encode\<close>.
  \<^item> \<open>MessageProtocol\<close>: \<^verbatim>\<open>readMessage\<close> and \<^verbatim>\<open>sendMessage\<close> over a line given by two functions, the object with its
    pointers to the line, and the contracts of a
    line that transfers a stream (locales \<open>exact_source\<close> with its special case \<open>stream_source\<close>, \<open>ending_source\<close>,
    \<open>stream_sink\<close>).
  \<^item> \<open>Inproc\<close>: \<^verbatim>\<open>InprocLine\<close>, \<^verbatim>\<open>InprocAcceptor\<close>, \<^verbatim>\<open>InprocLineFactory\<close> and the static lists of
    src/common/inproc.cpp, as a store of objects; step relation \<open>inproc_step\<close> and its invariant.
  \<^item> \<open>RegistryThreads\<close>: the registry under any number of threads, with the static mutex, the mutexes of the lines and
    both condition variables. \<open>RegistryLinear\<close>: the threads refine the operations of \<open>Inproc\<close>, each performed at once.
  \<^item> \<open>InprocProtocol\<close>: inter-thread lines as the line of the protocol; interprets the locales.
  \<^item> \<open>Channel\<close>: a connection as an abstract channel of two bounded streams; a locale \<open>implements\<close>, interpreted on a pair of lines.
  \<^item> \<open>LineManager\<close>: \<^verbatim>\<open>IoLineManager\<close> of src/iolinemanager.cpp over factories given as records of functions.
  \<^item> \<open>PosixSocket\<close>: the lines, acceptors and factories of src/posix/io_socket.cpp over an operating system
    that is a record of functions.
  \<^item> \<open>WinSocket\<close>, \<open>NamedPipe\<close>, \<open>WinManager\<close>: the sockets, named pipes and \<^verbatim>\<open>createLineManager\<close> of src/win32, over records of
    Winsock and Windows functions; interpret the locales of the protocol for sockets.
  \<^item> \<open>SelectPoller\<close>: src/common/select_poller.cpp and the flags of include/cppio/poller.h.
  \<^item> \<open>CApi\<close>: \<^verbatim>\<open>createLineManager\<close> of src/posix/createlinemanager.cpp and the functions of src/cppio_c.cpp,
    over the three kinds of lines; interprets \<open>stream_source\<close> and \<open>stream_sink\<close> once more, through the interface.
  \<^item> \<open>CObjects\<close>: the managers, lines, acceptors, messages and protocols behind the untyped pointers of src/cppio_c.cpp as a
    heap, all the calls on them and a typing of what the caller holds. \<open>CSafety\<close>: sequences of calls, with other threads at work
    in between; a locale \<open>sound_line\<close> carries safety from a line to the messages over it.
  \<^item> \<open>PythonBindings\<close>: the wrappers of bindings/python/python_bindings.cpp, with the interpreter lock. \<open>PythonModule\<close>: the
    methods of the module \<^verbatim>\<open>pycppio\<close> on the objects a Python program holds.
  \<^item> \<open>GoBindings\<close>: the package of bindings/go/cppio.go over the C interface, with its finalizers; interprets \<open>ending_source\<close>
    through the interface.
  \<^item> this theory: a session through all the layers.

  \<^bold>\<open>What is shown.\<close> The ring buffer is a bounded byte queue: no access outside the array, bytes in order,
  none lost. A read of a data queue returns the first bytes of the queue at the first look that finds any, and reports a lost
  connection or a timeout only when it is empty, a timed read always returns, and under any interleaving of threads the stream is preserved and no
  reader sleeps while there is data; the calls that have returned are those of an atomic queue, in that order, with the same
  results. Two interleavings show a reader that misses a disconnection, and sleeps on until other work begins, and a
  writer that is left waiting with the queue empty. The two configurations have the same ring buffer operations, and their queues agree but
  for the cases stated; in the non-blocking one, however the steps of a reader and a writer interleave, what is read is a prefix of what is written,
  the cells they copy are disjoint and they see a queue, but a reader can miss its wake-up. Messages survive serialisation, whatever is accepted
  is canonical, truncated input throws or is read past its end. In every reachable state of the inter-thread
  registry the calls on connected lines are safe, clients are served in order of arrival, and a connection answers every sequence of calls
  as a channel does, up to the destruction of both ends; under any interleaving of threads nothing deadlocks, a client and an
  acceptor of one address never wait for each other, and the registry changes as if each operation were done at once. Messages arrive in order over inter-thread lines that have the
  room, and over sockets whose calls transfer at least one byte; of a message cut off by a
  timeout the complete frames are returned and all bytes consumed. The same holds for Windows sockets below \<open>2 ^ 31\<close> bytes; named
  pipes get distinct names and close what they open but for the line's own handle, and a broken one makes \<^verbatim>\<open>sendMessage\<close>
  run for ever. A C caller that respects the kinds and lifetimes of its pointers never has one followed that is null or dangling, neither its
  own nor one inside the library, whatever other threads do with their lines. Python's
  \<^verbatim>\<open>read\<close> returns what arrived and turns every error code into a \<^verbatim>\<open>SystemError\<close>; every method keeps the interpreter lock,
  calls the interpreter only with it and leaves the library as the call left it, also when it raises, but a protocol does not keep its line alive. Go recovers the error codes that the C interface makes large
  numbers of, and its messages arrive unchanged; one that is not kept alive during its last call is used after it was freed. Addresses reach the right factory; malformed ones behave as stated. Sockets get
  exactly the host, port and name of the address, within the limits stated.

  \<^bold>\<open>Conventions.\<close> A function of the code is a HOL function with its name, the object first. Functions that
  can fail return \<open>failure + result\<close>. Recursions terminate by measures (buffer lengths, wake lists);
  only \<open>send_loop\<close>, which need not end, is a \<open>partial_function\<close> whose value \<open>None\<close> is a run that does not
  return. No fuel is used. Waits take what happens meanwhile as an argument; an exhausted list means
  that nothing more happens, which is \<open>Blocked\<close> for an untimed wait and the deadline for a timed one.
  Hypotheses on the operating system (\<open>receives\<close>, \<open>transmits\<close>, \<open>keeps_open\<close>, \<open>only_clears\<close>, \<open>win_receives\<close>, \<open>win_transmits\<close>,
  \<open>tracks_handles\<close>, \<open>pipe_broken\<close>) and on the interpreter (\<open>makes_bytearrays\<close>, \<open>knows_bytes\<close>) state documented
  behaviour of the functions called; \<open>loop_kernel\<close>, \<open>loop_winsock\<close>, \<open>mini_win32\<close> and \<open>cpython\<close> show they can hold. The machine is little-endian with 64-bit
  \<^verbatim>\<open>size_t\<close>. Memory allocation does not fail.

  \<^bold>\<open>Not modelled.\<close> The start-up call of the Python module that creates the interpreter lock, the notifications of a data queue's
  destructor (nobody may wait on a queue that is destroyed), the memory that Go's \<^verbatim>\<open>C.CString\<close> allocates, the
  tests and vendored code.
\<close>

section \<open>A session over an inter-thread line\<close>

text \<open>
  C1 (inproc_session): a whole session through the C interface. On a fresh library, a server is created at an
  inter-thread address, a client connects while the server's acceptor runs, the client sends a
  message and the line of the server reads it: every call succeeds and the message read is the
  one sent, for every address and every message that fits into the queue.
\<close>
theorem inproc_session:
  assumes "CHR 0x00 \<notin> set a" and "encodable m" and "length (encode m) < inproc_buffer_size"
  shows "\<exists>st1 st2 st3 st4 c s.
    cppio_create_server (createLineManager os []) (inproc_init, k) (''inproc://'' @ a) =
      ((st1, k), Inr (Some (Inproc_acceptor 0))) \<and>
    cppio_create_client (createLineManager os [0]) (st1, k) (''inproc://'' @ a) =
      ((st2, k), Inr (Some (Inproc_line c))) \<and> peers st2 c s \<and>
    cppio_messageprotocol_send (IoLine_write os []) (MessageProtocol_new (Some (Inproc_line c))) (st2, k) m = Some (Inr ((st3, k), 1)) \<and>
    cppio_messageprotocol_read (IoLine_read os []) (MessageProtocol_new (Some (Inproc_line s))) (st3, k) Message_new = Inr ((st4, k), m, 1)"
proof -
  obtain st1 st2 c s where st: "InprocLineFactory_createServer inproc_init a = Inr (st1, Some 0)"
    "InprocLineFactory_createClient st1 a [0] = Inr (st2, c)" "peers st2 c s" "inbox s st2 = []" "inproc_reachable st2"
    using session_connects by blast
  have "plain ''inproc''" by (simp add: plain_def)
  note create = create_plain [OF this] and str = c_str_address [OF assms(1), of "''inproc''"]
  have server: "cppio_create_server (createLineManager os []) (inproc_init, k) (''inproc://'' @ a) =
      ((st1, k), Inr (Some (Inproc_acceptor 0)))"
    using str create(2) [of "createLineManager os []" "(inproc_init, k)" a]
    by (simp add: cppio_create_server_def manager_factories inproc_factory_def InprocLineFactory_supportsScheme_def
        in_inproc_def st(1))
  have client: "cppio_create_client (createLineManager os [0]) (st1, k) (''inproc://'' @ a) =
      ((st2, k), Inr (Some (Inproc_line c)))"
    using str create(1) [of "createLineManager os [0]" "(st1, k)" a]
    by (simp add: cppio_create_client_def manager_factories inproc_factory_def InprocLineFactory_supportsScheme_def
        in_inproc_def st(2))
  note p = peers_line_state [OF st(5,3)]
  have "c_state (lines st2) c k (st2, k)" using p(1) by (simp add: c_state_def)
  moreover have "length (encode m) \<le> space c (fst (st2, k))" "length (encode m) < 2 ^ 31"
    using assms(3) p(3) st(4) by (simp_all add: space_def inproc_buffer_size_def)
  ultimately obtain w where w: "MessageProtocol_sendMessage (IoLine_write os [] (Inproc_line c)) (st2, k) m = Some (Inr (w, 1))"
    "c_state (lines st2) c k w" "outbox c (fst w) = encode m"
    using c_sink.sendMessage_accepted [of "lines st2" c k "(st2, k)" m os] p(3) st(4) by auto
  then obtain st3 where st3: "w = (st3, k)" "lines st3 = lines st2" "inproc_inv st3"
    by (cases w) (auto simp: c_state_def line_state_def)
  have "outbox c st3 = inbox s st3"
    using peers_out_in [of st3 c s] st(3) st3(2) by (simp add: outbox_def inbox_def peers_def)
  moreover have "c_state (lines st2) s k (st3, k)" using p(2) st3 by (simp add: c_state_def line_state_def)
  ultimately obtain w' where "MessageProtocol_readMessage (IoLine_read os [] (Inproc_line s)) (st3, k) Message_new = Inr (w', m, 1)"
    "c_state (lines st2) s k w'"
    using c_source.readMessage_pending [of "lines st2" s k "(st3, k)" m "[]" os] w(3) st3(1) assms(2) by auto
  moreover from this obtain st4 where "w' = (st4, k)" by (cases w') (simp add: c_state_def)
  ultimately have "cppio_messageprotocol_read (IoLine_read os []) (MessageProtocol_new (Some (Inproc_line s))) (st3, k) Message_new = Inr ((st4, k), m, 1)"
    by (simp add: cppio_messageprotocol_read_def to_size_def)
  moreover have "cppio_messageprotocol_send (IoLine_write os []) (MessageProtocol_new (Some (Inproc_line c))) (st2, k) m = Some (Inr ((st3, k), 1))"
    using w(1) st3(1) by (simp add: cppio_messageprotocol_send_def to_size_def)
  ultimately show ?thesis using server client st(3) by blast
qed

theorem inproc_session_witness:
  "\<exists>st1 st2 st3 st4 c s.
    cppio_create_server (createLineManager loop_kernel []) (inproc_init, ([], {})) ''inproc://foo'' =
      ((st1, ([], {})), Inr (Some (Inproc_acceptor 0))) \<and>
    cppio_create_client (createLineManager loop_kernel [0]) (st1, ([], {})) ''inproc://foo'' =
      ((st2, ([], {})), Inr (Some (Inproc_line c))) \<and>
    cppio_messageprotocol_send (IoLine_write loop_kernel []) (MessageProtocol_new (Some (Inproc_line c))) (st2, ([], {})) Message_new = Some (Inr ((st3, ([], {})), 1)) \<and>
    cppio_messageprotocol_read (IoLine_read loop_kernel []) (MessageProtocol_new (Some (Inproc_line s))) (st3, ([], {})) Message_new = Inr ((st4, ([], {})), Message_new, 1)"
proof -
  have "encodable Message_new" "length (encode Message_new) < inproc_buffer_size"
    by (simp_all add: encodable_def encode_def Message_new_def inproc_buffer_size_def)
  from inproc_session [OF _ this, of "''foo''" loop_kernel "([], {})"] show ?thesis by simp blast
qed

end
